(* ===== verification/Prelude.thy ===== *)
theory Prelude
  imports Main "HOL-Library.Word" "HOL-Library.Monad_Syntax"
begin

text \<open>
  Shared ground of the development: the error codes and results of
  \<^verbatim>\<open>src/src/base/error.h\<close>, checked computations (a C++ \<^verbatim>\<open>assert\<close> that fails is the value
  \<^term>\<open>None\<close>), and the list and map facts the component theories use.
\<close>

named_theorems chk_simps \<open>elimination of binds and assertions in checked computations\<close>
named_theorems pool_defs \<open>definitions of the block pool operations\<close>
named_theorems sched_defs \<open>definitions of the scheduler operations\<close>

section \<open>Error codes and results\<close>

datatype ErrorCode =
    Ok
  | CudaOutOfMemory | CudaLaunchFailed | CudaInvalidValue | CudaRuntimeError | CublasError
  | InvalidArgument
  | ModelLoadFailed | ModelConfigInvalid | ModelShapeMismatch | ModelUnsupportedArch
  | ModelUnsupportedDType
  | KVBlockExhausted
  | RequestTooLong | RequestCancelled | ServerShuttingDown
  | MaxSequencesReached | RequestQueueFull
  | ChannelClosed | ChannelCancelled | ChannelError
  | NetworkBindFailed | Unsupported | InternalError

type_synonym 'a result = "ErrorCode + 'a"

fun error_message :: "ErrorCode \<Rightarrow> string" where
  "error_message Ok = ''ok''"
| "error_message CudaOutOfMemory = ''CUDA out of memory''"
| "error_message CudaLaunchFailed = ''CUDA kernel launch failed''"
| "error_message CudaInvalidValue = ''CUDA invalid value''"
| "error_message CudaRuntimeError = ''CUDA runtime error''"
| "error_message CublasError = ''cuBLAS error''"
| "error_message InvalidArgument = ''invalid argument''"
| "error_message ModelLoadFailed = ''model load failed''"
| "error_message ModelConfigInvalid = ''model config invalid''"
| "error_message ModelShapeMismatch = ''model shape mismatch''"
| "error_message ModelUnsupportedArch = ''unsupported model architecture''"
| "error_message ModelUnsupportedDType = ''unsupported model dtype''"
| "error_message KVBlockExhausted = ''KV cache block exhausted''"
| "error_message RequestTooLong = ''request too long''"
| "error_message RequestCancelled = ''request cancelled''"
| "error_message ServerShuttingDown = ''server shutting down''"
| "error_message MaxSequencesReached = ''maximum concurrent sequences reached''"
| "error_message RequestQueueFull = ''request queue full''"
| "error_message ChannelClosed = ''asio channel closed''"
| "error_message ChannelCancelled = ''asio channel operation cancelled''"
| "error_message ChannelError = ''asio channel error''"
| "error_message NetworkBindFailed = ''network bind failed''"
| "error_message Unsupported = ''unsupported operation''"
| "error_message InternalError = ''internal error''"

definition INT_MAX :: int where
  "INT_MAX = 2147483647"

definition INT_MIN :: int where
  "INT_MIN = -2147483648"

text \<open>The conversion \<^verbatim>\<open>static_cast<std::size_t>(int)\<close>.\<close>

definition size_cast :: "int \<Rightarrow> int" where
  "size_cast x = x mod 2 ^ 64"

lemma size_cast_nonneg [simp]: "0 \<le> x \<Longrightarrow> x \<le> INT_MAX \<Longrightarrow> size_cast x = x"
  by (simp add: size_cast_def INT_MAX_def)

section \<open>Checked computations\<close>

text \<open>
  A function that can hit an \<^verbatim>\<open>assert\<close> or undefined behaviour returns an option; \<^term>\<open>None\<close> is
  the abort or the undefined behaviour, and everything else, error codes included, is under
  \<^term>\<open>Some\<close>. The build is a parameter: \<open>assert_that dbg b\<close> checks \<open>b\<close> when assertions are compiled
  in (\<open>dbg\<close>) and does nothing under \<^verbatim>\<open>NDEBUG\<close>; \<open>require b\<close> is a condition without which the code
  that follows is undefined in either build (an index in range, an iterator that exists).
\<close>

definition assert_that :: "bool \<Rightarrow> bool \<Rightarrow> unit option" where
  "assert_that dbg b = (if dbg \<and> \<not> b then None else Some ())"

definition require :: "bool \<Rightarrow> unit option" where
  "require b = (if b then Some () else None)"

lemma assert_bind_Some [chk_simps]:
  "(assert_that dbg b \<bind> f = Some r) \<longleftrightarrow> (dbg \<longrightarrow> b) \<and> f () = Some r"
  by (simp add: assert_that_def)

lemma require_bind_Some [chk_simps]: "(require b \<bind> f = Some r) \<longleftrightarrow> b \<and> f () = Some r"
  by (simp add: require_def)

lemma assert_True [simp]: "assert_that dbg True = Some ()" "assert_that False b = Some ()"
  by (simp_all add: assert_that_def)

lemma assert_False [simp]: "assert_that True False = None"
  by (simp add: assert_that_def)

lemma assert_holds [simp]: "b \<Longrightarrow> assert_that dbg b = Some ()"
  by (simp add: assert_that_def)

lemma require_simps [simp]: "require True = Some ()" "require False = None"
  by (simp_all add: require_def)

lemma require_eq_Some [simp]: "(require b = Some u) \<longleftrightarrow> b"
  by (simp add: require_def)

lemma assert_eq_Some [simp]: "(assert_that dbg b = Some u) \<longleftrightarrow> (dbg \<longrightarrow> b)"
  by (simp add: assert_that_def)

lemmas bind_Some_conv [chk_simps] = Option.bind_eq_Some_conv

text \<open>
  \<open>yields m Q\<close>: the computation returns, and its result satisfies \<open>Q\<close>. Preservation lemmas of
  composite operations are stated with it and proved with the rules below.
\<close>

definition yields :: "'a option \<Rightarrow> ('a \<Rightarrow> bool) \<Rightarrow> bool" where
  "yields m Q \<longleftrightarrow> (\<exists>x. m = Some x \<and> Q x)"

lemma yields_Some [simp]: "yields (Some x) Q = Q x"
  by (simp add: yields_def)

lemma yields_None [simp]: "\<not> yields None Q"
  by (simp add: yields_def)

lemma yields_bind: "yields m P \<Longrightarrow> (\<And>x. P x \<Longrightarrow> yields (f x) Q) \<Longrightarrow> yields (m \<bind> f) Q"
  by (auto simp: yields_def)

lemma yields_bind_assert [simp]: "yields (assert_that dbg b \<bind> f) Q \<longleftrightarrow> (dbg \<longrightarrow> b) \<and> yields (f ()) Q"
  by (simp add: assert_that_def)

lemma yields_bind_require [simp]: "yields (require b \<bind> f) Q \<longleftrightarrow> b \<and> yields (f ()) Q"
  by (simp add: require_def)

lemma yields_mono: "yields m P \<Longrightarrow> (\<And>x. P x \<Longrightarrow> Q x) \<Longrightarrow> yields m Q"
  by (auto simp: yields_def)

lemma yieldsE: "yields m Q \<Longrightarrow> (\<And>x. m = Some x \<Longrightarrow> Q x \<Longrightarrow> thesis) \<Longrightarrow> thesis"
  by (auto simp: yields_def)

lemma yieldsI: "m = Some x \<Longrightarrow> Q x \<Longrightarrow> yields m Q"
  by (simp add: yields_def)

section \<open>Lists and maps\<close>

lemma count_list_0_iff: "count_list xs x = 0 \<longleftrightarrow> x \<notin> set xs"
  by (induction xs) auto

lemma count_list_pos_iff: "0 < count_list xs x \<longleftrightarrow> x \<in> set xs"
  by (metis count_list_0_iff gr0I not_gr_zero)

lemma distinct_count_list: "distinct xs \<Longrightarrow> count_list xs x = (if x \<in> set xs then 1 else 0)"
  by (induction xs) auto

lemma set_remove1_distinct [simp]: "distinct xs \<Longrightarrow> set (remove1 x xs) = set xs - {x}"
  by simp

lemma length_remove1_mem: "x \<in> set xs \<Longrightarrow> Suc (length (remove1 x xs)) = length xs"
  by (metis One_nat_def Suc_pred length_pos_if_in_set length_remove1)

end
