(* ===== verification/Block_Pool.thy ===== *)
theory Block_Pool
  imports Prelude
begin

text \<open>
  The logical KV block pool: \<^verbatim>\<open>src/src/block/block.h\<close>, \<^verbatim>\<open>block_table.h\<close>, \<^verbatim>\<open>block_pool.h\<close> and
  \<^verbatim>\<open>block_pool.cpp\<close>. A block is a record; the pool is the array of blocks and the free list.
  The intrusive free list links blocks of the array, so it is the list of their indices. Each
  public operation takes the pool's mutex for its whole body and is one atomic step here.
\<close>

section \<open>Data\<close>

type_synonym BlockId = int

definition kInvalidBlockId :: BlockId where
  "kInvalidBlockId = -1"

datatype BlockStatus = Free | InUse

record Block =
  b_id :: BlockId
  b_ref_count :: int
  b_status :: BlockStatus

definition is_free :: "Block \<Rightarrow> bool" where
  "is_free b \<longleftrightarrow> b_status b = Free"

definition is_in_use :: "Block \<Rightarrow> bool" where
  "is_in_use b \<longleftrightarrow> b_status b = InUse"

record BlockTable =
  block_ids :: "BlockId list"
  shared_count :: int

definition empty_table :: BlockTable where
  "empty_table = \<lparr>block_ids = [], shared_count = 0\<rparr>"

definition table_push_back :: "BlockTable \<Rightarrow> BlockId \<Rightarrow> BlockTable" where
  "table_push_back t i = t\<lparr>block_ids := block_ids t @ [i]\<rparr>"

definition set_shared_count :: "BlockTable \<Rightarrow> int \<Rightarrow> BlockTable" where
  "set_shared_count t n = t\<lparr>shared_count := n\<rparr>"

definition table_size :: "BlockTable \<Rightarrow> int" where
  "table_size t = int (length (block_ids t))"

definition token_capacity :: "BlockTable \<Rightarrow> int \<Rightarrow> int" where
  "token_capacity t bs = table_size t * bs"

record BlockPool =
  bp_blocks :: "Block list"
  bp_free_list :: "BlockId list"
  bp_max_blocks :: int
  bp_block_size :: int

definition pool_default :: BlockPool where
  "pool_default = \<lparr>bp_blocks = [], bp_free_list = [], bp_max_blocks = 0, bp_block_size = 0\<rparr>"

section \<open>Operations\<close>

definition pool_init :: "bool \<Rightarrow> int \<Rightarrow> int \<Rightarrow> BlockPool \<Rightarrow> (unit result \<times> BlockPool) option" where
  "pool_init dbg max_blocks block_size p = do {
     assert_that dbg (bp_max_blocks p = 0);
     if max_blocks \<le> 0 \<or> block_size \<le> 0 then Some (Inl InvalidArgument, p)
     else if max_blocks * block_size > INT_MAX then Some (Inl InvalidArgument, p)
     else Some (Inr (), p\<lparr>
       bp_max_blocks := max_blocks,
       bp_block_size := block_size,
       bp_blocks := map (\<lambda>i. \<lparr>b_id = int i, b_ref_count = 0, b_status = Free\<rparr>) [0..<nat max_blocks],
       bp_free_list := bp_free_list p @ map int [0..<nat max_blocks]\<rparr>)
   }"

definition pool_create :: "bool \<Rightarrow> int \<Rightarrow> int \<Rightarrow> BlockPool option" where
  "pool_create dbg max_blocks block_size = do {
     (r, p) \<leftarrow> pool_init dbg max_blocks block_size pool_default;
     assert_that dbg (\<not> isl r);
     Some p
   }"

definition block_at :: "BlockPool \<Rightarrow> BlockId \<Rightarrow> Block" where
  "block_at p i = bp_blocks p ! nat i"

definition set_block :: "BlockPool \<Rightarrow> BlockId \<Rightarrow> Block \<Rightarrow> BlockPool" where
  "set_block p i b = p\<lparr>bp_blocks := (bp_blocks p)[nat i := b]\<rparr>"

definition valid_id :: "BlockPool \<Rightarrow> BlockId \<Rightarrow> bool" where
  "valid_id p i \<longleftrightarrow> 0 \<le> i \<and> i < bp_max_blocks p"

definition allocate :: "bool \<Rightarrow> BlockPool \<Rightarrow> (BlockId result \<times> BlockPool) option" where
  "allocate dbg p = (case bp_free_list p of
     [] \<Rightarrow> Some (Inl KVBlockExhausted, p)
   | i # rest \<Rightarrow> do {
       let b = block_at p i;
       assert_that dbg (is_free b \<and> b_ref_count b = 0);
       Some (Inr (b_id b),
         set_block (p\<lparr>bp_free_list := rest\<rparr>) i (b\<lparr>b_status := InUse, b_ref_count := 1\<rparr>))
     })"

primrec allocate_blocks_loop ::
    "bool \<Rightarrow> nat \<Rightarrow> BlockTable \<Rightarrow> BlockPool \<Rightarrow> (BlockTable result \<times> BlockPool) option" where
  "allocate_blocks_loop dbg 0 table p = Some (Inr table, p)"
| "allocate_blocks_loop dbg (Suc n) table p = do {
     (r, p') \<leftarrow> allocate dbg p;
     case r of
       Inl e \<Rightarrow> Some (Inl e, p')
     | Inr i \<Rightarrow> allocate_blocks_loop dbg n (table_push_back table i) p'
   }"

definition allocate_blocks :: "bool \<Rightarrow> int \<Rightarrow> BlockPool \<Rightarrow> (BlockTable result \<times> BlockPool) option" where
  "allocate_blocks dbg num_blocks p = do {
     assert_that dbg (num_blocks > 0);
     allocate_blocks_loop dbg (nat num_blocks) empty_table p
   }"

definition retain_request :: "bool \<Rightarrow> BlockId \<Rightarrow> BlockPool \<Rightarrow> BlockPool option" where
  "retain_request dbg i p = do {
     require (valid_id p i);
     let b = block_at p i;
     assert_that dbg (is_in_use b \<and> b_ref_count b > 0);
     Some (set_block p i (b\<lparr>b_ref_count := b_ref_count b + 1\<rparr>))
   }"

definition release_request :: "bool \<Rightarrow> BlockId \<Rightarrow> BlockPool \<Rightarrow> (int \<times> BlockPool) option" where
  "release_request dbg i p = do {
     require (valid_id p i);
     let b = block_at p i;
     assert_that dbg (is_in_use b \<and> b_ref_count b > 0);
     Some (b_ref_count b - 1, set_block p i (b\<lparr>b_ref_count := b_ref_count b - 1\<rparr>))
   }"

primrec release_ids :: "bool \<Rightarrow> BlockId list \<Rightarrow> BlockPool \<Rightarrow> BlockPool option" where
  "release_ids dbg [] p = Some p"
| "release_ids dbg (i # is) p = do { (_, p') \<leftarrow> release_request dbg i p; release_ids dbg is p' }"

definition release_blocks :: "bool \<Rightarrow> BlockTable \<Rightarrow> BlockPool \<Rightarrow> BlockPool option" where
  "release_blocks dbg table p = release_ids dbg (block_ids table) p"

definition recycle :: "bool \<Rightarrow> BlockId \<Rightarrow> BlockPool \<Rightarrow> BlockPool option" where
  "recycle dbg i p = do {
     require (valid_id p i);
     let b = block_at p i;
     assert_that dbg (is_in_use b \<and> b_ref_count b = 0);
     require (i \<notin> set (bp_free_list p));
     Some (set_block (p\<lparr>bp_free_list := bp_free_list p @ [i]\<rparr>) i (b\<lparr>b_status := Free\<rparr>))
   }"

definition ref_count :: "BlockId \<Rightarrow> BlockPool \<Rightarrow> int option" where
  "ref_count i p = do { require (valid_id p i); Some (b_ref_count (block_at p i)) }"

definition num_free_blocks :: "BlockPool \<Rightarrow> int" where
  "num_free_blocks p = int (length (bp_free_list p))"

section \<open>Abstract view and well-formedness\<close>

text \<open>
  What a client sees of the pool: which blocks are in use and with how many request references.
  \<open>pool_wf\<close> relates the array, the statuses and the free list.
\<close>

definition used :: "BlockPool \<Rightarrow> BlockId \<rightharpoonup> int" where
  "used p i = (if valid_id p i \<and> is_in_use (block_at p i)
               then Some (b_ref_count (block_at p i)) else None)"

definition pool_wf :: "BlockPool \<Rightarrow> bool" where
  "pool_wf p \<longleftrightarrow>
     0 < bp_block_size p \<and> 0 < bp_max_blocks p \<and>
     bp_max_blocks p * bp_block_size p \<le> INT_MAX \<and>
     length (bp_blocks p) = nat (bp_max_blocks p) \<and>
     (\<forall>i. valid_id p i \<longrightarrow> b_id (block_at p i) = i \<and>
            (is_free (block_at p i) \<longrightarrow> b_ref_count (block_at p i) = 0)) \<and>
     distinct (bp_free_list p) \<and>
     (\<forall>i. i \<in> set (bp_free_list p) \<longleftrightarrow> valid_id p i \<and> used p i = None) \<and>
     (\<forall>i n. used p i = Some n \<longrightarrow> 0 \<le> n)"

definition pool_geom :: "BlockPool \<Rightarrow> int \<times> int" where
  "pool_geom p = (bp_max_blocks p, bp_block_size p)"

lemma is_free_iff: "is_free b \<longleftrightarrow> \<not> is_in_use b"
  by (cases "b_status b") (simp_all add: is_free_def is_in_use_def)

lemma valid_id_geom: "pool_geom q = pool_geom p \<Longrightarrow> valid_id q i = valid_id p i"
  by (simp add: pool_geom_def valid_id_def)

lemma used_valid: "used p i = Some n \<Longrightarrow> valid_id p i"
  by (simp add: used_def split: if_splits)

lemma pool_wf_block_size: "pool_wf p \<Longrightarrow> 0 < bp_block_size p"
  by (simp add: pool_wf_def)

lemma pool_wf_max_blocks: "pool_wf p \<Longrightarrow> 0 < bp_max_blocks p"
  by (simp add: pool_wf_def)

lemma pool_wf_used_nonneg: "pool_wf p \<Longrightarrow> used p i = Some n \<Longrightarrow> 0 \<le> n"
  unfolding pool_wf_def by blast

lemma pool_wf_free_unused: "pool_wf p \<Longrightarrow> i \<in> set (bp_free_list p) \<Longrightarrow> used p i = None"
  unfolding pool_wf_def by blast

lemma pool_wf_free_distinct: "pool_wf p \<Longrightarrow> distinct (bp_free_list p)"
  unfolding pool_wf_def by blast

lemma pool_wf_mem_free: "pool_wf p \<Longrightarrow> i \<in> set (bp_free_list p) \<longleftrightarrow> valid_id p i \<and> used p i = None"
  unfolding pool_wf_def by blast

text \<open>The effect of replacing one block on the abstract view, and on well-formedness.\<close>

lemma set_block_simps [simp]:
  "bp_free_list (set_block p i b) = bp_free_list p"
  "bp_max_blocks (set_block p i b) = bp_max_blocks p"
  "bp_block_size (set_block p i b) = bp_block_size p"
  "length (bp_blocks (set_block p i b)) = length (bp_blocks p)"
  by (simp_all add: set_block_def)

lemma valid_set_block [simp]: "valid_id (set_block p i b) j = valid_id p j"
  by (simp add: valid_id_def)

lemma valid_free_upd [simp]: "valid_id (p\<lparr>bp_free_list := xs\<rparr>) j = valid_id p j"
  by (simp add: valid_id_def)

lemma block_at_free_upd [simp]: "block_at (p\<lparr>bp_free_list := xs\<rparr>) j = block_at p j"
  by (simp add: block_at_def)

lemma used_free_upd [simp]: "used (p\<lparr>bp_free_list := xs\<rparr>) = used p"
  by (rule ext) (simp add: used_def)

lemma block_at_set_block:
  assumes "length (bp_blocks p) = nat (bp_max_blocks p)" "valid_id p i" "valid_id p j"
  shows "block_at (set_block p i b) j = (if j = i then b else block_at p j)"
  using assms by (auto simp: block_at_def set_block_def valid_id_def nth_list_update)

lemma used_set_block:
  assumes "length (bp_blocks p) = nat (bp_max_blocks p)" "valid_id p i"
  shows "used (set_block p i b) = (used p)(i := if is_in_use b then Some (b_ref_count b) else None)"
  using assms by (auto simp: used_def fun_eq_iff block_at_set_block split: if_splits)

lemma pool_wf_set_block:
  assumes wf: "pool_wf p" and i: "valid_id p i"
    and b: "b_id b = i" "0 \<le> b_ref_count b" "is_free b \<longrightarrow> b_ref_count b = 0"
    and fl: "distinct xs"
      "\<And>j. j \<in> set xs \<longleftrightarrow> valid_id p j \<and> (if j = i then is_free b else used p j = None)"
  shows "pool_wf (set_block (p\<lparr>bp_free_list := xs\<rparr>) i b)"
proof -
  let ?q = "set_block (p\<lparr>bp_free_list := xs\<rparr>) i b"
  have len: "length (bp_blocks (p\<lparr>bp_free_list := xs\<rparr>)) = nat (bp_max_blocks (p\<lparr>bp_free_list := xs\<rparr>))"
    using wf by (simp add: pool_wf_def)
  have at: "block_at ?q j = (if j = i then b else block_at p j)" if "valid_id p j" for j
    using block_at_set_block [OF len] i that by simp
  have us: "used ?q = (used p)(i := if is_in_use b then Some (b_ref_count b) else None)"
    using used_set_block [OF len] i by simp
  show ?thesis
    using wf i b fl unfolding pool_wf_def us
    by (auto simp: at is_free_iff)
qed

section \<open>What each operation does to the view\<close>

lemma pool_wf_blockD:
  assumes "pool_wf p" "used p i = Some n"
  shows "valid_id p i" "is_in_use (block_at p i)" "b_ref_count (block_at p i) = n"
    "b_id (block_at p i) = i"
  using assms by (auto simp: used_def pool_wf_def split: if_splits)

lemma pool_wf_len: "pool_wf p \<Longrightarrow> length (bp_blocks p) = nat (bp_max_blocks p)"
  by (simp add: pool_wf_def)

lemma allocate_empty: "bp_free_list p = [] \<Longrightarrow> allocate dbg p = Some (Inl KVBlockExhausted, p)"
  by (simp add: allocate_def)

lemma allocate_cons:
  assumes wf: "pool_wf p" and fl: "bp_free_list p = i # rest"
  shows "\<exists>p'. allocate dbg p = Some (Inr i, p') \<and> pool_wf p' \<and> used p' = (used p)(i \<mapsto> 1) \<and>
           bp_free_list p' = rest \<and> pool_geom p' = pool_geom p \<and> used p i = None"
proof -
  have i: "valid_id p i" "used p i = None"
    using wf fl pool_wf_mem_free [OF wf, of i] by auto
  then have b: "is_free (block_at p i)" "b_ref_count (block_at p i) = 0" "b_id (block_at p i) = i"
    using wf by (auto simp: used_def pool_wf_def is_free_iff split: if_splits)
  let ?b = "(block_at p i)\<lparr>b_status := InUse, b_ref_count := 1\<rparr>"
  let ?q = "set_block (p\<lparr>bp_free_list := rest\<rparr>) i ?b"
  have len: "length (bp_blocks (p\<lparr>bp_free_list := rest\<rparr>)) = nat (bp_max_blocks (p\<lparr>bp_free_list := rest\<rparr>))"
    using pool_wf_len [OF wf] by simp
  have "pool_wf ?q"
    using wf fl b pool_wf_free_distinct [OF wf] pool_wf_mem_free [OF wf]
    by (intro pool_wf_set_block) (auto simp: i is_free_def)
  moreover have "used ?q = (used p)(i \<mapsto> 1)"
    using used_set_block [OF len, of i ?b] i by (simp add: is_in_use_def)
  moreover have "allocate dbg p = Some (Inr i, ?q)"
    using fl b by (simp add: allocate_def)
  ultimately show ?thesis
    using i by (intro exI [of _ ?q]) (simp add: pool_geom_def)
qed

lemma pool_wf_recount:
  assumes wf: "pool_wf p" and u: "used p i = Some n" and m: "0 \<le> m"
  shows "pool_wf (set_block p i ((block_at p i)\<lparr>b_ref_count := m\<rparr>))"
    and "used (set_block p i ((block_at p i)\<lparr>b_ref_count := m\<rparr>)) = (used p)(i \<mapsto> m)"
proof -
  note b = pool_wf_blockD [OF wf u]
  have "pool_wf (set_block (p\<lparr>bp_free_list := bp_free_list p\<rparr>) i ((block_at p i)\<lparr>b_ref_count := m\<rparr>))"
    using b m u pool_wf_free_distinct [OF wf] pool_wf_mem_free [OF wf]
    by (intro pool_wf_set_block wf) (auto simp: is_free_iff is_in_use_def)
  then show "pool_wf (set_block p i ((block_at p i)\<lparr>b_ref_count := m\<rparr>))" by simp
  show "used (set_block p i ((block_at p i)\<lparr>b_ref_count := m\<rparr>)) = (used p)(i \<mapsto> m)"
    using used_set_block [OF pool_wf_len [OF wf] b(1)] b(2) by (simp add: is_in_use_def)
qed

lemma retain_request_ok:
  assumes wf: "pool_wf p" and u: "used p i = Some n" and n: "0 < n \<or> \<not> dbg"
  shows "\<exists>p'. retain_request dbg i p = Some p' \<and> pool_wf p' \<and> used p' = (used p)(i \<mapsto> n + 1) \<and>
           bp_free_list p' = bp_free_list p \<and> pool_geom p' = pool_geom p"
  using pool_wf_blockD [OF wf u] pool_wf_recount [OF wf u, of "n + 1"] n
    pool_wf_used_nonneg [OF wf u]
  by (auto simp: retain_request_def pool_geom_def)

lemma release_request_ok:
  assumes wf: "pool_wf p" and u: "used p i = Some n" and n: "0 < n"
  shows "\<exists>p'. release_request dbg i p = Some (n - 1, p') \<and> pool_wf p' \<and>
           used p' = (used p)(i \<mapsto> n - 1) \<and>
           bp_free_list p' = bp_free_list p \<and> pool_geom p' = pool_geom p"
  using pool_wf_blockD [OF wf u] pool_wf_recount [OF wf u, of "n - 1"] n
  by (auto simp: release_request_def pool_geom_def)

lemma recycle_ok:
  assumes wf: "pool_wf p" and u: "used p i = Some 0"
  shows "\<exists>p'. recycle dbg i p = Some p' \<and> pool_wf p' \<and> used p' = (used p)(i := None) \<and>
           bp_free_list p' = bp_free_list p @ [i] \<and> pool_geom p' = pool_geom p"
proof -
  note b = pool_wf_blockD [OF wf u]
  let ?p = "p\<lparr>bp_free_list := bp_free_list p @ [i]\<rparr>"
  let ?b = "(block_at p i)\<lparr>b_status := Free\<rparr>"
  have fresh: "i \<notin> set (bp_free_list p)"
    using pool_wf_mem_free [OF wf] u by simp
  then have "pool_wf (set_block ?p i ?b)"
    using b u pool_wf_free_distinct [OF wf] pool_wf_mem_free [OF wf]
    by (intro pool_wf_set_block wf) (auto simp: is_free_def)
  moreover have "used (set_block ?p i ?b) = (used p)(i := None)"
    using used_set_block [of ?p i ?b] pool_wf_len [OF wf] b(1) by (simp add: is_in_use_def)
  ultimately show ?thesis
    using b fresh by (auto simp: recycle_def pool_geom_def)
qed

lemma ref_count_used:
  assumes "pool_wf p" "used p i = Some n"
  shows "ref_count i p = Some n"
  using pool_wf_blockD [OF assms] by (simp add: ref_count_def)

section \<open>Reference-counted pools as an interface\<close>

text \<open>
  What the block cache and the scheduler rely on when they take and drop request references in
  bulk. \<open>frame\<close> is the part of the pool that counting never touches.
\<close>

locale ref_pool =
  fixes wf :: "'p \<Rightarrow> bool"
    and refs :: "'p \<Rightarrow> 'i \<rightharpoonup> int"
    and frame :: "'p \<Rightarrow> 'f"
    and retain1 :: "'i \<Rightarrow> 'p \<Rightarrow> 'p option"
    and release1 :: "'i \<Rightarrow> 'p \<Rightarrow> 'p option"
    and release_all :: "'i list \<Rightarrow> 'p \<Rightarrow> 'p option"
  assumes retain1_ok: "wf p \<Longrightarrow> refs p i = Some n \<Longrightarrow> 0 < n \<Longrightarrow>
      \<exists>p'. retain1 i p = Some p' \<and> wf p' \<and> refs p' = (refs p)(i \<mapsto> n + 1) \<and> frame p' = frame p"
    and release1_ok: "wf p \<Longrightarrow> refs p i = Some n \<Longrightarrow> 0 < n \<Longrightarrow>
      \<exists>p'. release1 i p = Some p' \<and> wf p' \<and> refs p' = (refs p)(i \<mapsto> n - 1) \<and> frame p' = frame p"
    and release_all_Nil: "release_all [] p = Some p"
    and release_all_Cons: "release_all (i # is) p = release1 i p \<bind> release_all is"
begin

lemma release_all_ok:
  assumes "wf p" and "\<And>i. i \<in> set xs \<Longrightarrow> \<exists>n. refs p i = Some n \<and> int (count_list xs i) \<le> n"
  shows "\<exists>p'. release_all xs p = Some p' \<and> wf p' \<and> frame p' = frame p \<and>
    refs p' = (\<lambda>i. map_option (\<lambda>n. n - int (count_list xs i)) (refs p i))"
  using assms
proof (induction xs arbitrary: p)
  case Nil
  then show ?case by (simp add: release_all_Nil option.map_ident)
next
  case (Cons x xs)
  obtain n where n: "refs p x = Some n" "int (count_list (x # xs) x) \<le> n"
    using Cons.prems(2) by fastforce
  then obtain q where q: "release1 x p = Some q" "wf q" "refs q = (refs p)(x \<mapsto> n - 1)" "frame q = frame p"
    using release1_ok [OF Cons.prems(1), of x n] by auto
  have "\<exists>m. refs q i = Some m \<and> int (count_list xs i) \<le> m" if "i \<in> set xs" for i
    using Cons.prems(2) [of i] that n q(3) by (cases "i = x") auto
  then obtain p' where p': "release_all xs q = Some p'" "wf p'" "frame p' = frame q"
      "refs p' = (\<lambda>i. map_option (\<lambda>n. n - int (count_list xs i)) (refs q i))"
    using Cons.IH [OF q(2)] by blast
  have "refs p' = (\<lambda>i. map_option (\<lambda>n. n - int (count_list (x # xs) i)) (refs p i))"
    using p'(4) q(3) n(1) by (auto simp: fun_eq_iff)
  then show ?case
    using p' q by (simp add: release_all_Cons)
qed

lemma retain_release:
  assumes "wf p" "refs p i = Some n" "0 < n"
  shows "\<exists>p'. (retain1 i p \<bind> release1 i) = Some p' \<and> refs p' = refs p \<and> frame p' = frame p"
proof -
  obtain q where q: "retain1 i p = Some q" "wf q" "refs q = (refs p)(i \<mapsto> n + 1)" "frame q = frame p"
    using retain1_ok [OF assms] by blast
  then show ?thesis
    using release1_ok [OF q(2), of i "n + 1"] assms by (auto simp: map_upd_triv)
qed

end

abbreviation pool_frame :: "BlockPool \<Rightarrow> BlockId list \<times> int \<times> int" where
  "pool_frame p \<equiv> (bp_free_list p, pool_geom p)"

interpretation bp: ref_pool pool_wf used pool_frame "retain_request dbg"
    "\<lambda>i p. map_option snd (release_request dbg i p)" "release_ids dbg" for dbg
proof
  fix p i n assume "pool_wf p" "used p i = Some n" "0 < n"
  then show "\<exists>p'. retain_request dbg i p = Some p' \<and> pool_wf p' \<and> used p' = (used p)(i \<mapsto> n + 1) \<and>
      pool_frame p' = pool_frame p"
    using retain_request_ok [of p i n dbg] by auto
next
  fix p i n assume "pool_wf p" "used p i = Some n" "0 < n"
  then show "\<exists>p'. map_option snd (release_request dbg i p) = Some p' \<and> pool_wf p' \<and>
      used p' = (used p)(i \<mapsto> n - 1) \<and> pool_frame p' = pool_frame p"
    using release_request_ok [of p i n dbg] by auto
qed (auto simp: map_conv_bind_option Option.bind_assoc case_prod_unfold comp_def split: option.splits)

section \<open>Bulk allocation\<close>

text \<open>
  \<open>allocate_blocks\<close> takes blocks from the front of the free list one at a time. When the list
  runs out it returns the error and drops the partial table: the blocks taken so far stay in use
  with one reference that no table holds.
\<close>

lemma allocate_blocks_loop_ok:
  assumes "pool_wf p"
  shows "\<exists>p'. allocate_blocks_loop dbg n t p =
      Some (if n \<le> length (bp_free_list p)
            then Inr (t\<lparr>block_ids := block_ids t @ take n (bp_free_list p)\<rparr>)
            else Inl KVBlockExhausted, p') \<and>
    pool_wf p' \<and> bp_free_list p' = drop n (bp_free_list p) \<and> pool_geom p' = pool_geom p \<and>
    used p' = (\<lambda>i. if i \<in> set (take n (bp_free_list p)) then Some 1 else used p i)"
  using assms
proof (induction n arbitrary: t p)
  case 0
  then show ?case by simp
next
  case (Suc n)
  show ?case
  proof (cases "bp_free_list p")
    case Nil
    with Suc.prems show ?thesis by (auto simp: allocate_empty)
  next
    case (Cons i rest)
    obtain q where q: "allocate dbg p = Some (Inr i, q)" "pool_wf q" "used q = (used p)(i \<mapsto> 1)"
        "bp_free_list q = rest" "pool_geom q = pool_geom p"
      using allocate_cons [OF Suc.prems Cons] by blast
    show ?thesis
      using Suc.IH [OF q(2), of "table_push_back t i"] q Cons
      by (auto simp: table_push_back_def fun_eq_iff)
  qed
qed

lemma allocate_blocks_ok:
  assumes "pool_wf p" "0 < k"
  shows "\<exists>p'. allocate_blocks dbg k p =
      Some (if nat k \<le> length (bp_free_list p)
            then Inr \<lparr>block_ids = take (nat k) (bp_free_list p), shared_count = 0\<rparr>
            else Inl KVBlockExhausted, p') \<and>
    pool_wf p' \<and> bp_free_list p' = drop (nat k) (bp_free_list p) \<and> pool_geom p' = pool_geom p \<and>
    used p' = (\<lambda>i. if i \<in> set (take (nat k) (bp_free_list p)) then Some 1 else used p i)"
  using allocate_blocks_loop_ok [OF assms(1), of dbg "nat k" empty_table] assms(2)
  by (auto simp: allocate_blocks_def empty_table_def)

lemma release_blocks_ok:
  assumes "pool_wf p"
    and "\<And>i. i \<in> set (block_ids t) \<Longrightarrow> \<exists>n. used p i = Some n \<and> int (count_list (block_ids t) i) \<le> n"
  shows "\<exists>p'. release_blocks dbg t p = Some p' \<and> pool_wf p' \<and> bp_free_list p' = bp_free_list p \<and>
    pool_geom p' = pool_geom p \<and>
    used p' = (\<lambda>i. map_option (\<lambda>n. n - int (count_list (block_ids t) i)) (used p i))"
  using bp.release_all_ok [OF assms] by (auto simp: release_blocks_def)

section \<open>Initialisation and conservation\<close>

lemma pool_create_ok:
  assumes "0 < mb" "0 < bs" "mb * bs \<le> INT_MAX"
  shows "\<exists>p. pool_create dbg mb bs = Some p \<and> pool_wf p \<and> used p = Map.empty \<and>
    bp_free_list p = map int [0..<nat mb] \<and> pool_geom p = (mb, bs)"
proof -
  let ?p = "\<lparr>bp_blocks = map (\<lambda>i. \<lparr>b_id = int i, b_ref_count = 0, b_status = Free\<rparr>) [0..<nat mb],
      bp_free_list = map int [0..<nat mb], bp_max_blocks = mb, bp_block_size = bs\<rparr>"
  have c: "pool_create dbg mb bs = Some ?p"
    using assms by (simp add: pool_create_def pool_init_def pool_default_def)
  have at: "block_at ?p i = \<lparr>b_id = i, b_ref_count = 0, b_status = Free\<rparr>" if "valid_id ?p i" for i
    using that by (simp add: block_at_def valid_id_def)
  have u: "used ?p = Map.empty"
    by (rule ext) (auto simp: used_def at is_in_use_def)
  have "(i \<in> int ` {0..<nat mb}) = (0 \<le> i \<and> i < mb)" for i
    by (auto simp: image_iff intro: bexI [of _ "nat i"])
  then have "pool_wf ?p"
    using assms u at by (auto simp: pool_wf_def valid_id_def distinct_map)
  then show ?thesis
    using c u by (auto simp: pool_geom_def)
qed

lemma pool_conservation:
  assumes wf: "pool_wf p"
  shows "num_free_blocks p + int (card (dom (used p))) = bp_max_blocks p"
proof -
  have split: "set (bp_free_list p) \<union> dom (used p) = {0..<bp_max_blocks p}"
    using pool_wf_mem_free [OF wf] used_valid [of p] by (force simp: valid_id_def dom_def)
  moreover have "set (bp_free_list p) \<inter> dom (used p) = {}"
    using pool_wf_mem_free [OF wf] by auto
  moreover have "finite (dom (used p))"
    using split by (metis finite_Un finite_atLeastLessThan_int)
  ultimately have "card (set (bp_free_list p)) + card (dom (used p)) = card {0..<bp_max_blocks p}"
    by (metis List.finite_set card_Un_disjoint)
  then show ?thesis
    using pool_wf_free_distinct [OF wf] pool_wf_max_blocks [OF wf]
    by (simp add: distinct_card num_free_blocks_def)
qed

section \<open>Refinement of an abstract pool\<close>

text \<open>
  The specification of the pool is a queue of free blocks and a map from the blocks in use to
  their request references, with the contracts of \<^verbatim>\<open>block_pool.h\<close>: retaining needs a block in use,
  releasing one with references, recycling one without. An operation outside its contract is
  \<^term>\<open>None\<close>.
\<close>

record AbsPool =
  a_free :: "BlockId list"
  a_used :: "BlockId \<rightharpoonup> int"

datatype PoolOp = Allocate | Retain BlockId | Release BlockId | Recycle BlockId

datatype PoolRet = RetId "BlockId result" | RetCount int | RetUnit

fun pool_step :: "bool \<Rightarrow> PoolOp \<Rightarrow> BlockPool \<Rightarrow> (PoolRet \<times> BlockPool) option" where
  "pool_step dbg Allocate p = map_option (map_prod RetId id) (allocate dbg p)"
| "pool_step dbg (Retain i) p = map_option (\<lambda>q. (RetUnit, q)) (retain_request dbg i p)"
| "pool_step dbg (Release i) p = map_option (map_prod RetCount id) (release_request dbg i p)"
| "pool_step dbg (Recycle i) p = map_option (\<lambda>q. (RetUnit, q)) (recycle dbg i p)"

fun abs_step :: "PoolOp \<Rightarrow> AbsPool \<Rightarrow> (PoolRet \<times> AbsPool) option" where
  "abs_step Allocate a = (case a_free a of
     [] \<Rightarrow> Some (RetId (Inl KVBlockExhausted), a)
   | i # rest \<Rightarrow> Some (RetId (Inr i), \<lparr>a_free = rest, a_used = (a_used a)(i \<mapsto> 1)\<rparr>))"
| "abs_step (Retain i) a = (case a_used a i of
     Some n \<Rightarrow> Some (RetUnit, a\<lparr>a_used := (a_used a)(i \<mapsto> n + 1)\<rparr>)
   | None \<Rightarrow> None)"
| "abs_step (Release i) a = (case a_used a i of
     Some n \<Rightarrow> if 0 < n then Some (RetCount (n - 1), a\<lparr>a_used := (a_used a)(i \<mapsto> n - 1)\<rparr>) else None
   | None \<Rightarrow> None)"
| "abs_step (Recycle i) a = (case a_used a i of
     Some n \<Rightarrow> if n = 0 then Some (RetUnit, \<lparr>a_free = a_free a @ [i], a_used = (a_used a)(i := None)\<rparr>)
               else None
   | None \<Rightarrow> None)"

definition pool_abs :: "BlockPool \<Rightarrow> AbsPool" where
  "pool_abs p = \<lparr>a_free = bp_free_list p, a_used = used p\<rparr>"

lemma unused_asserts:
  assumes "used p i = None"
  shows "retain_request True i p = None" "release_request True i p = None" "recycle True i p = None"
  using assms
  by (auto simp: retain_request_def release_request_def recycle_def used_def assert_that_def
      require_def split: if_splits)

lemma zero_ref_asserts:
  assumes "used p i = Some n" "n \<le> 0"
  shows "retain_request True i p = None" "release_request True i p = None"
  using assms
  by (auto simp: retain_request_def release_request_def used_def assert_that_def split: if_splits)

lemma nonzero_recycle_asserts:
  assumes "used p i = Some n" "n \<noteq> 0"
  shows "recycle True i p = None"
  using assms by (auto simp: recycle_def used_def assert_that_def split: if_splits)

lemma allocate_step_ok:
  assumes wf: "pool_wf p"
  shows "case abs_step Allocate (pool_abs p) of
      None \<Rightarrow> False
    | Some (r, a) \<Rightarrow> \<exists>p'. pool_step dbg Allocate p = Some (r, p') \<and> pool_wf p' \<and> pool_abs p' = a \<and>
        pool_geom p' = pool_geom p"
proof (cases "bp_free_list p")
  case Nil
  with wf show ?thesis by (auto simp: pool_abs_def allocate_empty)
next
  case (Cons i rest)
  with allocate_cons [OF wf Cons] show ?thesis by (auto simp: pool_abs_def)
qed


section \<open>Deciding well-formedness of a concrete pool\<close>

definition pool_wf_exec :: "BlockPool \<Rightarrow> bool" where
  "pool_wf_exec p \<longleftrightarrow>
     0 < bp_block_size p \<and> 0 < bp_max_blocks p \<and>
     bp_max_blocks p * bp_block_size p \<le> INT_MAX \<and>
     length (bp_blocks p) = nat (bp_max_blocks p) \<and>
     distinct (bp_free_list p) \<and> list_all (valid_id p) (bp_free_list p) \<and>
     list_all (\<lambda>i. b_id (block_at p i) = i \<and> 0 \<le> b_ref_count (block_at p i) \<and>
       (is_free (block_at p i) \<longleftrightarrow> i \<in> set (bp_free_list p)) \<and>
       (is_free (block_at p i) \<longrightarrow> b_ref_count (block_at p i) = 0)) (map int [0..<nat (bp_max_blocks p)])"

lemma pool_wf_exec: "pool_wf_exec p \<Longrightarrow> pool_wf p"
proof -
  assume x: "pool_wf_exec p"
  have "valid_id p i \<longleftrightarrow> i \<in> set (map int [0..<nat (bp_max_blocks p)])" for i
    by (auto simp: valid_id_def image_iff intro: bexI [of _ "nat i"])
  then have "b_id (block_at p i) = i \<and> 0 \<le> b_ref_count (block_at p i) \<and>
       (is_free (block_at p i) \<longleftrightarrow> i \<in> set (bp_free_list p)) \<and>
       (is_free (block_at p i) \<longrightarrow> b_ref_count (block_at p i) = 0)" if "valid_id p i" for i
    using x that unfolding pool_wf_exec_def list_all_iff by blast
  moreover have "valid_id p i" if "i \<in> set (bp_free_list p)" for i
    using x that unfolding pool_wf_exec_def list_all_iff by blast
  ultimately show ?thesis
    using x unfolding pool_wf_exec_def pool_wf_def by (auto simp: used_def is_free_iff split: if_splits)
qed

text \<open>A pool of three blocks of two tokens, one of them in use by one request and one without.\<close>

definition ex_pool :: BlockPool where
  "ex_pool = \<lparr>bp_blocks = [\<lparr>b_id = 0, b_ref_count = 1, b_status = InUse\<rparr>,
       \<lparr>b_id = 1, b_ref_count = 0, b_status = Free\<rparr>, \<lparr>b_id = 2, b_ref_count = 0, b_status = Free\<rparr>],
     bp_free_list = [1, 2], bp_max_blocks = 3, bp_block_size = 2\<rparr>"

lemma ex_pool_wf: "pool_wf ex_pool"
  by (rule pool_wf_exec) code_simp


end
