(* ===== verification/Prefix_Hash.thy ===== *)
theory Prefix_Hash
  imports Prelude
begin

unbundle bit_operations_syntax

text \<open>
  The chain hashes of token prefixes: \<^verbatim>\<open>src/src/cache/prefix_cache.cpp\<close>. Hashes are 64-bit words;
  a token is an \<^verbatim>\<open>int32_t\<close> that the cast to \<^verbatim>\<open>uint64_t\<close> sign-extends. Reading past the end of the
  token vector is undefined behaviour and is \<^term>\<open>None\<close>, like a failed assertion.
\<close>

type_synonym hash = "64 word"

definition hash_combine :: "hash \<Rightarrow> hash \<Rightarrow> hash" where
  "hash_combine seed val =
     seed XOR (val + 0x9e3779b97f4a7c15 + push_bit 6 seed + drop_bit 2 seed)"

definition block_hash :: "int list \<Rightarrow> nat \<Rightarrow> nat \<Rightarrow> hash \<Rightarrow> hash" where
  "block_hash tokens bs b h =
     foldl (\<lambda>h t. hash_combine h (word_of_int (tokens ! (b * bs + t)))) h [0..<bs]"

primrec chain_loop :: "nat \<Rightarrow> nat \<Rightarrow> int list \<Rightarrow> nat \<Rightarrow> hash \<Rightarrow> hash list" where
  "chain_loop 0 b tokens bs h = []"
| "chain_loop (Suc k) b tokens bs h =
     (let h' = block_hash tokens bs b h in h' # chain_loop k (Suc b) tokens bs h')"

definition chain_hashes_from ::
    "int list \<Rightarrow> int \<Rightarrow> int \<Rightarrow> hash \<Rightarrow> hash \<Rightarrow> hash list option" where
  "chain_hashes_from tokens token_count block_size parent_hash seed = do {
     require (block_size > 0);
     let num_full_blocks = token_count div block_size;
     require (num_full_blocks * block_size \<le> int (length tokens));
     let h = (if seed \<noteq> 0 then hash_combine parent_hash seed else parent_hash);
     Some (chain_loop (nat num_full_blocks) 0 tokens (nat block_size) h)
   }"

definition chain_hashes_count :: "int list \<Rightarrow> int \<Rightarrow> int \<Rightarrow> hash \<Rightarrow> hash list option" where
  "chain_hashes_count tokens token_count block_size seed =
     chain_hashes_from tokens token_count block_size 0 seed"

definition chain_hashes :: "int list \<Rightarrow> int \<Rightarrow> hash \<Rightarrow> hash list option" where
  "chain_hashes tokens block_size seed =
     chain_hashes_count tokens (int (length tokens)) block_size seed"

section \<open>A reference definition\<close>

text \<open>Hash a block by folding over its tokens, and a prefix by hashing block after block.\<close>

definition hash_tokens :: "hash \<Rightarrow> int list \<Rightarrow> hash" where
  "hash_tokens = foldl (\<lambda>h t. hash_combine h (word_of_int t))"

function chain :: "nat \<Rightarrow> hash \<Rightarrow> int list \<Rightarrow> hash list" where
  "chain bs h ts = (if bs = 0 \<or> length ts < bs then []
     else let h' = hash_tokens h (take bs ts) in h' # chain bs h' (drop bs ts))"
  by pat_completeness auto
termination
  by (relation "measure (\<lambda>(bs, h, ts). length ts)") auto

declare chain.simps [simp del]

lemma hash_tokens_append: "hash_tokens h (xs @ ys) = hash_tokens (hash_tokens h xs) ys"
  by (simp add: hash_tokens_def)

lemma hash_tokens_Nil [simp]: "hash_tokens h [] = h"
  by (simp add: hash_tokens_def)

lemma chain_short: "length ts < bs \<Longrightarrow> chain bs h ts = []"
  by (subst chain.simps) simp

lemma chain_step:
  "0 < bs \<Longrightarrow> bs \<le> length ts \<Longrightarrow>
     chain bs h ts = hash_tokens h (take bs ts) # chain bs (hash_tokens h (take bs ts)) (drop bs ts)"
  by (subst chain.simps) (simp add: Let_def)

lemma block_hash_tokens:
  assumes "(b + 1) * bs \<le> length tokens"
  shows "block_hash tokens bs b h = hash_tokens h (take bs (drop (b * bs) tokens))"
proof -
  have "map (\<lambda>t. tokens ! (b * bs + t)) [0..<bs] = take bs (drop (b * bs) tokens)"
    using assms by (intro nth_equalityI) auto
  then have "hash_tokens h (take bs (drop (b * bs) tokens)) =
      foldl (\<lambda>h t. hash_combine h (word_of_int t)) h (map (\<lambda>t. tokens ! (b * bs + t)) [0..<bs])"
    by (simp add: hash_tokens_def)
  then show ?thesis
    by (simp add: block_hash_def foldl_map)
qed

lemma chain_loop_chain:
  assumes "0 < bs" "(b + k) * bs \<le> length tokens"
  shows "chain_loop k b tokens bs h = chain bs h (take (k * bs) (drop (b * bs) tokens))"
  using assms
proof (induction k arbitrary: b h)
  case 0
  then show ?case by (simp add: chain_short)
next
  case (Suc k)
  have le: "(b + 1) * bs \<le> length tokens" "(Suc b + k) * bs \<le> length tokens"
    using Suc.prems by (auto simp: algebra_simps)
  have len: "bs \<le> length (take (Suc k * bs) (drop (b * bs) tokens))"
    using Suc.prems by (simp add: algebra_simps)
  have eq: "take bs (take (Suc k * bs) (drop (b * bs) tokens)) = take bs (drop (b * bs) tokens)"
      "drop bs (take (Suc k * bs) (drop (b * bs) tokens)) = take (k * bs) (drop (Suc b * bs) tokens)"
    by (simp_all add: min_def drop_take add.commute)
  show ?case
    using Suc.IH [OF Suc.prems(1) le(2)] chain_step [OF Suc.prems(1) len] block_hash_tokens [OF le(1)] eq
    by (simp add: Let_def)
qed

lemma chain_trunc: "0 < bs \<Longrightarrow> chain bs h (take (length ts div bs * bs) ts) = chain bs h ts"
proof (induction bs h ts rule: chain.induct)
  case (1 bs h ts)
  show ?case
  proof (cases "length ts < bs")
    case True
    then show ?thesis by (simp add: chain_short)
  next
    case False
    let ?n = "length ts div bs * bs"
    have "length ts div bs = Suc ((length ts - bs) div bs)"
      using False "1.prems" by (simp add: le_div_geq)
    then have n: "bs \<le> ?n" "?n \<le> length ts" "length (drop bs ts) div bs * bs = ?n - bs"
      using div_times_less_eq_dividend [of "length ts" bs] by simp_all
    have "chain bs (hash_tokens h (take bs ts)) (take (?n - bs) (drop bs ts)) =
        chain bs (hash_tokens h (take bs ts)) (drop bs ts)"
      using "1.IH" False "1.prems" n(3) by simp
    then show ?thesis
      using chain_step [of bs "take ?n ts" h] chain_step [of bs ts h] False n "1.prems"
      by (simp add: min_absorb1 min_absorb2 drop_take)
  qed
qed

text \<open>
  The three overloads compute the reference chain over the full blocks of the tokens.
\<close>

lemma chain_hashes_from_eq:
  assumes "0 < bs" "tc \<le> int (length tokens)" "0 \<le> tc"
  shows "chain_hashes_from tokens tc bs parent seed =
    Some (chain (nat bs) (if seed \<noteq> 0 then hash_combine parent seed else parent) (take (nat tc) tokens))"
proof -
  let ?k = "nat (tc div bs)"
  have tc: "tc = int (nat tc)" and bs: "bs = int (nat bs)" using assms by simp_all
  have k: "?k = nat tc div nat bs"
    using assms by (simp add: nat_div_distrib)
  have le: "(0 + ?k) * nat bs \<le> length tokens"
    using assms k by (metis add_0 div_times_less_eq_dividend le_trans nat_int nat_le_iff)
  have "tc div bs * bs \<le> tc"
    using assms by (simp add: minus_mod_eq_div_mult [symmetric])
  then have run: "chain_hashes_from tokens tc bs parent seed =
    Some (chain_loop ?k 0 tokens (nat bs) (if seed \<noteq> 0 then hash_combine parent seed else parent))"
    using assms by (simp add: chain_hashes_from_def)
  have len: "length (take (nat tc) tokens) = nat tc"
    using assms by simp
  have "chain_loop ?k 0 tokens (nat bs) h = chain (nat bs) h (take (nat tc) tokens)" for h
  proof -
    have "chain_loop ?k 0 tokens (nat bs) h = chain (nat bs) h (take (nat tc div nat bs * nat bs) tokens)"
      using chain_loop_chain [OF _ le] assms k by simp
    also have "take (nat tc div nat bs * nat bs) tokens = take (nat tc div nat bs * nat bs) (take (nat tc) tokens)"
      using div_times_less_eq_dividend [of "nat tc" "nat bs"] by (simp add: min_absorb1)
    also have "chain (nat bs) h \<dots> = chain (nat bs) h (take (nat tc) tokens)"
      using chain_trunc [of "nat bs" h "take (nat tc) tokens"] assms unfolding len by simp
    finally show ?thesis .
  qed
  with run show ?thesis by simp
qed

lemma chain_hashes_eq:
  "0 < bs \<Longrightarrow> chain_hashes tokens bs seed =
     Some (chain (nat bs) (if seed \<noteq> 0 then hash_combine 0 seed else 0) tokens)"
  by (simp add: chain_hashes_def chain_hashes_count_def chain_hashes_from_eq)

section \<open>The chain over concatenated prefixes\<close>

lemma length_chain: "0 < bs \<Longrightarrow> length (chain bs h ts) = length ts div bs"
proof (induction bs h ts rule: chain.induct)
  case (1 bs h ts)
  show ?case
  proof (cases "length ts < bs")
    case True
    then show ?thesis by (simp add: chain_short)
  next
    case False
    then show ?thesis
      using "1.IH" "1.prems" chain_step [of bs ts h] by (simp add: le_div_geq)
  qed
qed

text \<open>
  Hashing the tail from the last hash of a block-aligned head gives the same hashes as hashing
  the whole: this is what lets the scheduler publish block by block with \<open>parent_hash\<close>.
\<close>

lemma chain_append:
  assumes "0 < bs" "length xs = k * bs"
  shows "chain bs h (xs @ ys) = chain bs h xs @ chain bs (hash_tokens h xs) ys"
  using assms
proof (induction k arbitrary: h xs)
  case 0
  then show ?case by (simp add: chain_short)
next
  case (Suc k)
  let ?hd = "take bs xs" and ?tl = "drop bs xs"
  have len: "bs \<le> length xs" "length ?tl = k * bs"
    using Suc.prems by simp_all
  have "hash_tokens h xs = hash_tokens (hash_tokens h ?hd) ?tl"
    using hash_tokens_append [of h ?hd ?tl] by simp
  then show ?case
    using Suc.IH [OF Suc.prems(1) len(2)] chain_step [OF Suc.prems(1) len(1)]
      chain_step [of bs "xs @ ys" h] Suc.prems(1) len(1)
    by simp
qed

lemma chain_singleton:
  "0 < bs \<Longrightarrow> length xs = bs \<Longrightarrow> chain bs h xs = [hash_tokens h xs]"
  by (simp add: chain_step chain_short)

lemma last_chain:
  assumes "0 < bs" "length xs = Suc k * bs"
  shows "last (chain bs h xs) = hash_tokens h xs"
proof -
  let ?a = "take (k * bs) xs" and ?b = "drop (k * bs) xs"
  have "xs = ?a @ ?b" by simp
  moreover have "length ?a = k * bs" "length ?b = bs"
    using assms by simp_all
  ultimately show ?thesis
    using chain_append [OF assms(1), of ?a k h ?b] chain_singleton [OF assms(1), of ?b]
      hash_tokens_append [of h ?a ?b] by simp
qed

lemma chain_prefix:
  assumes "0 < bs" "k * bs \<le> length xs" "take (k * bs) xs = take (k * bs) ys" "k * bs \<le> length ys"
  shows "take k (chain bs h xs) = take k (chain bs h ys)"
proof -
  have "take k (chain bs h zs) = chain bs h (take (k * bs) zs)" if "k * bs \<le> length zs" for zs
  proof -
    have "chain bs h zs = chain bs h (take (k * bs) zs) @
        chain bs (hash_tokens h (take (k * bs) zs)) (drop (k * bs) zs)"
      using chain_append [OF assms(1), of "take (k * bs) zs" k h "drop (k * bs) zs"] that by simp
    moreover have "length (chain bs h (take (k * bs) zs)) = k"
      using length_chain [OF assms(1)] that assms(1) by (simp add: min_absorb2)
    ultimately show ?thesis by simp
  qed
  then show ?thesis using assms by simp
qed

lemma chain_take:
  assumes "0 < bs" "k * bs \<le> length ts"
  shows "take k (chain bs h ts) = chain bs h (take (k * bs) ts)"
  using chain_prefix [OF assms(1), of k ts "take (k * bs) ts" h] assms length_chain [of bs h "take (k * bs) ts"]
  by (simp add: min_absorb2)

lemma chain_nth:
  assumes "0 < bs" "j < length ts div bs"
  shows "chain bs h ts ! j = hash_tokens h (take (Suc j * bs) ts)"
proof -
  have le: "Suc j * bs \<le> length ts"
    using assms by (metis Suc_leI less_eq_div_iff_mult_less_eq)
  have "chain bs h ts ! j = last (take (Suc j) (chain bs h ts))"
    using assms length_chain [of bs h ts] by (simp add: take_Suc_conv_app_nth)
  also have "\<dots> = hash_tokens h (take (Suc j * bs) ts)"
    using last_chain [OF assms(1), of "take (Suc j * bs) ts" j h] le chain_take [OF assms(1) le] by simp
  finally show ?thesis .
qed

lemma hash_collision: "hash_tokens 0 ([100, 200] @ r) = hash_tokens 0 ([101, 133] @ r)"
proof -
  have "hash_tokens 0 [100, 200] = hash_tokens 0 [101, 133]"
    by code_simp
  then show ?thesis
    unfolding hash_tokens_append by simp
qed

section \<open>Properties\<close>





text \<open>
  C17. The chain hash does not identify a prefix: for every block size of at least two, the
  prompts that begin with tokens 100, 200 and with 101, 133 and continue alike have the same
  hashes throughout. The cache compares hashes only, so one prompt is served the blocks of the other.
\<close>

theorem chain_hashes_collide:
  assumes "2 \<le> bs"
  shows "chain_hashes ([100, 200] @ r) bs 0 = chain_hashes ([101, 133] @ r) bs 0"
proof -
  have "chain (nat bs) 0 ([100, 200] @ r) = chain (nat bs) 0 ([101, 133] @ r)"
  proof (rule nth_equalityI)
    fix j assume "j < length (chain (nat bs) 0 ([100, 200] @ r))"
    moreover have "Suc j * nat bs = 2 + (Suc j * nat bs - 2)"
      using assms by simp
    then have "take (Suc j * nat bs) ([a, b] @ r) = [a, b] @ take (Suc j * nat bs - 2) r" for a b :: int
      by (metis append_Cons append_Nil add_2_eq_Suc take_Suc_Cons)
    ultimately show "chain (nat bs) 0 ([100, 200] @ r) ! j = chain (nat bs) 0 ([101, 133] @ r) ! j"
      using assms hash_collision length_chain [of "nat bs" 0] by (simp add: chain_nth del: append.simps)
  qed (use assms in \<open>simp add: length_chain\<close>)
  then show ?thesis
    using assms by (simp add: chain_hashes_eq)
qed

theorem chain_hashes_collide_witness:
  "(2::int) \<le> 4 \<and> chain_hashes ([100, 200] @ [5, 6]) 4 0 = chain_hashes ([101, 133] @ [5, 6]) 4 0"
  using chain_hashes_collide [of 4 "[5, 6]"] by simp

end
