(* ===== verification/Block_Cache.thy ===== *)
theory Block_Cache
  imports Block_Pool Prefix_Hash "HOL-Library.Multiset"
begin

text \<open>
  The prefix cache over the block pool: \<^verbatim>\<open>src/src/cache/block_cache.{h,cpp}\<close>.

  An \<^verbatim>\<open>EntryIt\<close> (an iterator into \<^verbatim>\<open>entries_\<close>) is the entry it points to: entries are never
  modified and their block ids are distinct, so two iterators are equal exactly when their entries
  are. \<^verbatim>\<open>is_in_idle_lru\<close>, the state of the intrusive hook, is membership in \<open>bc_idle_lru\<close>. Operations
  take and return the pool beside the cache because \<^verbatim>\<open>pool_\<close> is a reference to the shared pool.
\<close>

record BlockCacheEntry =
  prefix_hash :: hash
  ce_block_id :: BlockId

type_synonym EntryIt = BlockCacheEntry

record BlockCache =
  bc_entries :: "BlockCacheEntry list"
  bc_idle_lru :: "BlockCacheEntry list"
  bc_by_hash :: "hash \<rightharpoonup> EntryIt list"
  bc_by_block :: "BlockId \<rightharpoonup> EntryIt"
  bc_lookup_hits :: nat
  bc_lookup_misses :: nat
  bc_evictions :: nat

record PrefixLookup =
  pl_block_table :: BlockTable
  prefix_hit_blocks :: int
  pl_parent_hash :: hash

record BlockCacheStats =
  block_total :: int
  block_active :: int
  block_free :: int
  block_cached_idle :: int
  st_block_size :: int
  lookup_hits :: nat
  lookup_misses :: nat
  evictions :: nat
  cached_blocks :: nat

definition cache_new :: BlockCache where
  "cache_new = \<lparr>bc_entries = [], bc_idle_lru = [], bc_by_hash = Map.empty, bc_by_block = Map.empty,
     bc_lookup_hits = 0, bc_lookup_misses = 0, bc_evictions = 0\<rparr>"

definition is_in_idle_lru :: "EntryIt \<Rightarrow> BlockCache \<Rightarrow> bool" where
  "is_in_idle_lru e c \<longleftrightarrow> e \<in> set (bc_idle_lru c)"

definition idle_lru_erase :: "EntryIt \<Rightarrow> BlockCache \<Rightarrow> BlockCache option" where
  "idle_lru_erase e c = do {
     require (is_in_idle_lru e c);
     Some (c\<lparr>bc_idle_lru := remove1 e (bc_idle_lru c)\<rparr>)
   }"

definition lookup_take :: "bool \<Rightarrow> EntryIt \<Rightarrow> BlockPool \<Rightarrow> BlockCache \<Rightarrow> (BlockPool \<times> BlockCache) option" where
  "lookup_take dbg e p c = do {
     let i = ce_block_id e;
     assert_that dbg (bc_by_block c i \<noteq> None);
     n \<leftarrow> ref_count i p;
     c' \<leftarrow> (if n = 0 then do { assert_that dbg (is_in_idle_lru e c); idle_lru_erase e c } else Some c);
     p' \<leftarrow> retain_request dbg i p;
     Some (p', c')
   }"

fun lookup_loop :: "bool \<Rightarrow> hash list \<Rightarrow> PrefixLookup \<Rightarrow> BlockPool \<Rightarrow> BlockCache \<Rightarrow>
    (PrefixLookup \<times> BlockPool \<times> BlockCache) option" where
  "lookup_loop dbg [] r p c = Some (r, p, c)"
| "lookup_loop dbg (h # hs) r p c = (case bc_by_hash c h of
     Some (e # _) \<Rightarrow> do {
       (p', c') \<leftarrow> lookup_take dbg e p c;
       lookup_loop dbg hs
         (r\<lparr>pl_block_table := table_push_back (pl_block_table r) (ce_block_id e),
            pl_parent_hash := h, prefix_hit_blocks := prefix_hit_blocks r + 1\<rparr>)
         p' (c'\<lparr>bc_lookup_hits := bc_lookup_hits c' + 1\<rparr>)
     }
   | _ \<Rightarrow> Some (r, p, c\<lparr>bc_lookup_misses := bc_lookup_misses c + 1\<rparr>))"

definition lookup_prefix_cache :: "bool \<Rightarrow> int list \<Rightarrow> hash \<Rightarrow> BlockPool \<Rightarrow> BlockCache \<Rightarrow>
    (PrefixLookup \<times> BlockPool \<times> BlockCache) option" where
  "lookup_prefix_cache dbg tokens namespace_salt p c = do {
     assert_that dbg (tokens \<noteq> []);
     assert_that dbg (bp_block_size p > 0);
     hashes \<leftarrow> chain_hashes tokens (bp_block_size p) namespace_salt;
     (r, p', c') \<leftarrow> lookup_loop dbg hashes
       \<lparr>pl_block_table = empty_table, prefix_hit_blocks = 0, pl_parent_hash = 0\<rparr> p c;
     Some (r\<lparr>pl_block_table := set_shared_count (pl_block_table r) (prefix_hit_blocks r)\<rparr>, p', c')
   }"

definition publish_full_block :: "bool \<Rightarrow> hash \<Rightarrow> int list \<Rightarrow> BlockId \<Rightarrow> hash \<Rightarrow> BlockPool \<Rightarrow> BlockCache \<Rightarrow>
    (hash \<times> BlockCache) option" where
  "publish_full_block dbg parent_hash tokens block_id seed p c = do {
     let block_size = bp_block_size p;
     assert_that dbg (block_size > 0);
     assert_that dbg (int (length tokens) \<ge> block_size);
     hashes \<leftarrow> chain_hashes_from tokens block_size block_size parent_hash seed;
     require (hashes \<noteq> []);
     let hash = hd hashes;
     case bc_by_block c block_id of
       Some existing \<Rightarrow> do {
         assert_that dbg (prefix_hash existing = hash);
         Some (hash, c)
       }
     | None \<Rightarrow> do {
         n \<leftarrow> (if dbg then ref_count block_id p else Some 1);
         assert_that dbg (n > 0);
         let e = \<lparr>prefix_hash = hash, ce_block_id = block_id\<rparr>;
         let bucket = (case bc_by_hash c hash of None \<Rightarrow> [] | Some b \<Rightarrow> b);
         Some (hash, c\<lparr>bc_entries := bc_entries c @ [e],
                       bc_by_block := (bc_by_block c)(block_id \<mapsto> e),
                       bc_by_hash := (bc_by_hash c)(hash \<mapsto> bucket @ [e])\<rparr>)
       }
   }"

definition contains :: "BlockId \<Rightarrow> BlockCache \<Rightarrow> bool" where
  "contains i c \<longleftrightarrow> bc_by_block c i \<noteq> None"

definition is_idle :: "BlockId \<Rightarrow> BlockCache \<Rightarrow> bool" where
  "is_idle i c \<longleftrightarrow> (case bc_by_block c i of None \<Rightarrow> False | Some e \<Rightarrow> is_in_idle_lru e c)"

definition mark_idle :: "bool \<Rightarrow> BlockId \<Rightarrow> BlockPool \<Rightarrow> BlockCache \<Rightarrow> BlockCache option" where
  "mark_idle dbg i p c = do {
     e \<leftarrow> bc_by_block c i;
     n \<leftarrow> (if dbg then ref_count i p else Some 0);
     assert_that dbg (n = 0);
     require (\<not> is_in_idle_lru e c);
     Some (c\<lparr>bc_idle_lru := bc_idle_lru c @ [e]\<rparr>)
   }"

definition find_pos :: "'a \<Rightarrow> 'a list \<Rightarrow> nat" where
  "find_pos x xs = length (takeWhile (\<lambda>y. y \<noteq> x) xs)"

definition erase_entry :: "BlockId \<Rightarrow> BlockCache \<Rightarrow> BlockCache option" where
  "erase_entry i c = do {
     e \<leftarrow> bc_by_block c i;
     c \<leftarrow> (if is_in_idle_lru e c then idle_lru_erase e c else Some c);
     let hash = prefix_hash e;
     bucket \<leftarrow> bc_by_hash c hash;
     let pos = find_pos e bucket;
     require (pos < length bucket);
     let bucket = butlast (bucket[pos := last bucket]);
     Some (c\<lparr>bc_by_hash := (bc_by_hash c)(hash := if bucket = [] then None else Some bucket),
             bc_by_block := (bc_by_block c)(i := None),
             bc_entries := remove1 e (bc_entries c)\<rparr>)
   }"

definition evict_one :: "bool \<Rightarrow> BlockPool \<Rightarrow> BlockCache \<Rightarrow> (bool \<times> BlockPool \<times> BlockCache) option" where
  "evict_one dbg p c = (case bc_idle_lru c of
     [] \<Rightarrow> Some (False, p, c)
   | e # _ \<Rightarrow> do {
       let victim = ce_block_id e;
       n \<leftarrow> (if dbg then ref_count victim p else Some 0);
       assert_that dbg (n = 0);
       c' \<leftarrow> erase_entry victim c;
       p' \<leftarrow> recycle dbg victim p;
       Some (True, p', c'\<lparr>bc_evictions := bc_evictions c' + 1\<rparr>)
     })"

partial_function (option) evict_all :: "bool \<Rightarrow> BlockPool \<Rightarrow> BlockCache \<Rightarrow> (BlockPool \<times> BlockCache) option" where
  "evict_all dbg p c = do {
     (more, p', c') \<leftarrow> evict_one dbg p c;
     if more then evict_all dbg p' c' else Some (p', c')
   }"

declare evict_all.simps [code]

definition cache_destroy :: "bool \<Rightarrow> BlockPool \<Rightarrow> BlockCache \<Rightarrow> (BlockPool \<times> BlockCache) option" where
  "cache_destroy dbg p c = do {
     (p', c') \<leftarrow> evict_all dbg p c;
     Some (p', c'\<lparr>bc_by_hash := Map.empty, bc_by_block := Map.empty, bc_entries := []\<rparr>)
   }"

definition num_cached_blocks :: "BlockCache \<Rightarrow> nat" where
  "num_cached_blocks c = length (bc_entries c)"

definition num_idle_blocks :: "BlockCache \<Rightarrow> nat" where
  "num_idle_blocks c = length (bc_idle_lru c)"

definition stats :: "BlockPool \<Rightarrow> BlockCache \<Rightarrow> BlockCacheStats" where
  "stats p c = \<lparr>
     block_total = bp_max_blocks p,
     block_active = bp_max_blocks p - num_free_blocks p - int (length (bc_idle_lru c)),
     block_free = num_free_blocks p,
     block_cached_idle = int (length (bc_idle_lru c)),
     st_block_size = bp_block_size p,
     lookup_hits = bc_lookup_hits c,
     lookup_misses = bc_lookup_misses c,
     evictions = bc_evictions c,
     cached_blocks = length (bc_entries c)\<rparr>"

section \<open>Invariant\<close>

text \<open>
  \<open>index_wf\<close>: the two indices describe exactly the entries. \<open>cache_wf\<close> adds how cache and pool
  agree between operations: cached blocks are in use, and the idle list holds precisely the
  blocks in use that no request references.
\<close>

definition bucket_of :: "BlockCache \<Rightarrow> hash \<Rightarrow> EntryIt list" where
  "bucket_of c h = (case bc_by_hash c h of None \<Rightarrow> [] | Some b \<Rightarrow> b)"

definition index_wf :: "BlockCache \<Rightarrow> bool" where
  "index_wf c \<longleftrightarrow>
     distinct (map ce_block_id (bc_entries c)) \<and>
     (\<forall>i e. bc_by_block c i = Some e \<longleftrightarrow> e \<in> set (bc_entries c) \<and> ce_block_id e = i) \<and>
     (\<forall>h. bc_by_hash c h \<noteq> Some []) \<and>
     (\<forall>h. distinct (bucket_of c h)) \<and>
     (\<forall>h. set (bucket_of c h) = {e \<in> set (bc_entries c). prefix_hash e = h})"

definition cache_wf :: "BlockPool \<Rightarrow> BlockCache \<Rightarrow> bool" where
  "cache_wf p c \<longleftrightarrow> pool_wf p \<and> index_wf c \<and> distinct (bc_idle_lru c) \<and>
     set (bc_idle_lru c) \<subseteq> set (bc_entries c) \<and>
     (\<forall>i. used p i = Some 0 \<longleftrightarrow> i \<in> ce_block_id ` set (bc_idle_lru c)) \<and>
     (\<forall>e \<in> set (bc_entries c). used p (ce_block_id e) \<noteq> None)"

text \<open>
  The state in the middle of dropping references: the blocks of \<open>Z\<close> have no reference left and
  are neither idle nor recycled yet.
\<close>

definition cache_wf_pending :: "BlockId set \<Rightarrow> BlockPool \<Rightarrow> BlockCache \<Rightarrow> bool" where
  "cache_wf_pending Z p c \<longleftrightarrow> pool_wf p \<and> index_wf c \<and> distinct (bc_idle_lru c) \<and>
     set (bc_idle_lru c) \<subseteq> set (bc_entries c) \<and>
     (\<forall>i. used p i = Some 0 \<longleftrightarrow> i \<in> Z \<or> i \<in> ce_block_id ` set (bc_idle_lru c)) \<and>
     Z \<inter> ce_block_id ` set (bc_idle_lru c) = {} \<and>
     (\<forall>e \<in> set (bc_entries c). used p (ce_block_id e) \<noteq> None)"

lemma cache_wf_pending_empty: "cache_wf_pending {} p c = cache_wf p c"
  by (simp add: cache_wf_pending_def cache_wf_def)

lemma index_wf_by_block: "index_wf c \<Longrightarrow> bc_by_block c i = Some e \<longleftrightarrow> e \<in> set (bc_entries c) \<and> ce_block_id e = i"
  unfolding index_wf_def by blast

lemma index_wf_inj:
  "index_wf c \<Longrightarrow> e \<in> set (bc_entries c) \<Longrightarrow> e' \<in> set (bc_entries c) \<Longrightarrow> ce_block_id e = ce_block_id e' \<Longrightarrow> e = e'"
proof -
  assume "index_wf c"
  then have "inj_on ce_block_id (set (bc_entries c))"
    unfolding index_wf_def distinct_map by blast
  then show "e \<in> set (bc_entries c) \<Longrightarrow> e' \<in> set (bc_entries c) \<Longrightarrow> ce_block_id e = ce_block_id e' \<Longrightarrow> e = e'"
    by (rule inj_onD)
qed

lemma index_wf_distinct: "index_wf c \<Longrightarrow> distinct (map ce_block_id (bc_entries c))"
  unfolding index_wf_def by blast

lemma index_wf_bucket: "index_wf c \<Longrightarrow> e \<in> set (bucket_of c h) \<longleftrightarrow> e \<in> set (bc_entries c) \<and> prefix_hash e = h"
  unfolding index_wf_def by blast

lemma index_wf_by_hash: "index_wf c \<Longrightarrow> bc_by_hash c h = (if bucket_of c h = [] then None else Some (bucket_of c h))"
proof -
  assume "index_wf c"
  then have "bc_by_hash c h \<noteq> Some []"
    unfolding index_wf_def by blast
  then show ?thesis
    by (auto simp: bucket_of_def split: option.splits)
qed

lemma cache_wfD:
  assumes "cache_wf p c"
  shows "pool_wf p" "index_wf c" "distinct (bc_idle_lru c)" "set (bc_idle_lru c) \<subseteq> set (bc_entries c)"
    "used p i = Some 0 \<longleftrightarrow> i \<in> ce_block_id ` set (bc_idle_lru c)"
    "e \<in> set (bc_entries c) \<Longrightarrow> \<exists>n. used p (ce_block_id e) = Some n"
  using assms unfolding cache_wf_def by blast+

lemma index_wf_cong:
  "bc_entries c' = bc_entries c \<Longrightarrow> bc_by_hash c' = bc_by_hash c \<Longrightarrow> bc_by_block c' = bc_by_block c \<Longrightarrow>
     index_wf c' = index_wf c"
  by (simp add: index_wf_def bucket_of_def)

lemma contains_iff: "index_wf c \<Longrightarrow> contains i c \<longleftrightarrow> i \<in> ce_block_id ` set (bc_entries c)"
  unfolding contains_def image_iff not_None_eq by (metis index_wf_by_block)

lemma is_idle_iff:
  assumes wf: "cache_wf p c"
  shows "is_idle i c \<longleftrightarrow> used p i = Some 0"
proof -
  have "(\<exists>e. bc_by_block c i = Some e \<and> e \<in> set (bc_idle_lru c)) \<longleftrightarrow> i \<in> ce_block_id ` set (bc_idle_lru c)"
    using index_wf_by_block [OF cache_wfD(2) [OF wf]] cache_wfD(4) [OF wf] by (auto simp: image_iff)
  then show ?thesis
    using cache_wfD(5) [OF wf] by (auto simp: is_idle_def is_in_idle_lru_def split: option.splits)
qed

lemma cache_wf_new: "pool_wf p \<Longrightarrow> (\<And>i. used p i \<noteq> Some 0) \<Longrightarrow> cache_wf p cache_new"
  by (simp add: cache_wf_def index_wf_def cache_new_def bucket_of_def)

text \<open>
  Changing reference counts and the idle list together: the cache stays well-formed when the new
  idle list is what the new counts say.
\<close>

lemma cache_wf_reidle:
  assumes wf: "cache_wf p c" and q: "pool_wf q" "dom (used q) = dom (used p)"
    and c': "bc_entries c' = bc_entries c" "bc_by_hash c' = bc_by_hash c" "bc_by_block c' = bc_by_block c"
    and idle: "distinct (bc_idle_lru c')" "set (bc_idle_lru c') \<subseteq> set (bc_entries c)"
      "\<And>i. used q i = Some 0 \<longleftrightarrow> i \<in> ce_block_id ` set (bc_idle_lru c')"
  shows "cache_wf q c'"
proof -
  have "used q (ce_block_id e) \<noteq> None" if "e \<in> set (bc_entries c)" for e
    using cache_wfD(6) [OF wf that] q(2) by (metis domIff option.distinct(1))
  then show ?thesis
    using q(1) c'(1) idle cache_wfD(2) [OF wf] index_wf_cong [OF c'] unfolding cache_wf_def by simp
qed

lemma idle_unique:
  assumes wf: "cache_wf p c" and e: "e \<in> set (bc_entries c)"
  shows "remove1 e (bc_idle_lru c) = filter (\<lambda>x. ce_block_id x \<noteq> ce_block_id e) (bc_idle_lru c)"
proof -
  have "remove1 e (bc_idle_lru c) = filter (\<lambda>x. x \<noteq> e) (bc_idle_lru c)"
    using cache_wfD(3) [OF wf] by (simp add: distinct_remove1_removeAll removeAll_filter_not_eq)
      (metis (mono_tags))
  also have "\<dots> = filter (\<lambda>x. ce_block_id x \<noteq> ce_block_id e) (bc_idle_lru c)"
    using index_wf_inj [OF cache_wfD(2) [OF wf], of _ e] e cache_wfD(4) [OF wf] by (auto intro: filter_cong)
  finally show ?thesis .
qed

section \<open>Lookup\<close>

definition hit_hashes :: "BlockCache \<Rightarrow> hash list \<Rightarrow> hash list" where
  "hit_hashes c = takeWhile (\<lambda>h. bucket_of c h \<noteq> [])"

definition hit_ids :: "BlockCache \<Rightarrow> hash list \<Rightarrow> BlockId list" where
  "hit_ids c hs = map (\<lambda>h. ce_block_id (hd (bucket_of c h))) (hit_hashes c hs)"

lemma lookup_take_ok:
  assumes wf: "cache_wf p c" and e: "e \<in> set (bc_entries c)" and u: "used p (ce_block_id e) = Some n"
    and n: "0 < n \<or> \<not> dbg"
  shows "\<exists>p'. lookup_take dbg e p c =
      Some (p', c\<lparr>bc_idle_lru := filter (\<lambda>x. ce_block_id x \<noteq> ce_block_id e) (bc_idle_lru c)\<rparr>) \<and>
    cache_wf p' (c\<lparr>bc_idle_lru := filter (\<lambda>x. ce_block_id x \<noteq> ce_block_id e) (bc_idle_lru c)\<rparr>) \<and>
    used p' = (used p)(ce_block_id e \<mapsto> n + 1) \<and> pool_frame p' = pool_frame p"
proof -
  note D = cache_wfD [OF wf]
  let ?i = "ce_block_id e"
  let ?idle = "filter (\<lambda>x. ce_block_id x \<noteq> ?i) (bc_idle_lru c)"
  obtain p' where p': "retain_request dbg ?i p = Some p'" "pool_wf p'" "used p' = (used p)(?i \<mapsto> n + 1)"
      "pool_frame p' = pool_frame p"
    using retain_request_ok [OF D(1) u n] by auto
  have pos: "0 \<le> n"
    using pool_wf_used_nonneg [OF D(1) u] .
  have idle: "e \<in> set (bc_idle_lru c)" if "n = 0"
    using that u D(5) [of ?i] index_wf_inj [OF D(2) e] D(4) by auto
  have same: "?idle = bc_idle_lru c" if "n \<noteq> 0"
    using that u D(5) [of ?i] by (intro filter_True) (force simp: image_iff)
  have run: "lookup_take dbg e p c = Some (p', c\<lparr>bc_idle_lru := ?idle\<rparr>)"
    using p'(1) ref_count_used [OF D(1) u] index_wf_by_block [OF D(2), of ?i e] e idle same idle_unique [OF wf e]
    by (auto simp: lookup_take_def idle_lru_erase_def is_in_idle_lru_def)
  have "used p' i = Some 0 \<longleftrightarrow> i \<in> ce_block_id ` set ?idle" for i
    using p'(3) D(5) [of i] pos by auto
  moreover have "dom (used p') = dom (used p)"
    using p'(3) u by auto
  ultimately have "cache_wf p' (c\<lparr>bc_idle_lru := ?idle\<rparr>)"
    using D(3,4) by (intro cache_wf_reidle [OF wf p'(2)]) auto
  with run p' show ?thesis by blast
qed

lemma lookup_take_aborts:
  assumes wf: "cache_wf p c" and u: "used p (ce_block_id e) = Some 0"
  shows "lookup_take True e p c = None"
proof -
  have "retain_request True (ce_block_id e) p = None"
    using zero_ref_asserts(1) [OF u] by simp
  then show ?thesis
    by (auto simp: lookup_take_def Let_def bind_eq_None_conv)
qed

lemma hit_Cons:
  "bucket_of c h = e # b \<Longrightarrow> hit_hashes c (h # hs) = h # hit_hashes c hs"
  "bucket_of c h = e # b \<Longrightarrow> hit_ids c (h # hs) = ce_block_id e # hit_ids c hs"
  by (simp_all add: hit_hashes_def hit_ids_def)

lemma hit_miss: "bucket_of c h = [] \<Longrightarrow> hit_hashes c (h # hs) = []" "bucket_of c h = [] \<Longrightarrow> hit_ids c (h # hs) = []"
  by (simp_all add: hit_hashes_def hit_ids_def)

lemma hit_cong: "bc_by_hash c' = bc_by_hash c \<Longrightarrow> hit_hashes c' = hit_hashes c \<and> hit_ids c' = hit_ids c"
  by (simp add: hit_hashes_def hit_ids_def bucket_of_def fun_eq_iff)

lemma lookup_loop_ok:
  assumes "cache_wf p c" "dbg \<longrightarrow> (\<forall>i \<in> set (hit_ids c hs). used p i \<noteq> Some 0)"
  shows "\<exists>p' c'. lookup_loop dbg hs r p c = Some (
        \<lparr>pl_block_table = (pl_block_table r)\<lparr>block_ids := block_ids (pl_block_table r) @ hit_ids c hs\<rparr>,
         prefix_hit_blocks = prefix_hit_blocks r + int (length (hit_ids c hs)),
         pl_parent_hash = last (pl_parent_hash r # hit_hashes c hs)\<rparr>, p', c') \<and>
    cache_wf p' c' \<and> pool_frame p' = pool_frame p \<and>
    used p' = (\<lambda>i. map_option (\<lambda>n. n + int (count_list (hit_ids c hs) i)) (used p i)) \<and>
    c' = c\<lparr>bc_idle_lru := filter (\<lambda>e. ce_block_id e \<notin> set (hit_ids c hs)) (bc_idle_lru c),
           bc_lookup_hits := bc_lookup_hits c + length (hit_hashes c hs),
           bc_lookup_misses := bc_lookup_misses c + (if hit_hashes c hs = hs then 0 else 1)\<rparr>"
  using assms
proof (induction hs arbitrary: r p c)
  case Nil
  then show ?case by (cases r) (simp add: hit_hashes_def hit_ids_def option.map_ident)
next
  case (Cons h hs)
  note wf = Cons.prems(1)
  note D = cache_wfD [OF wf]
  show ?case
  proof (cases "bucket_of c h")
    case Nil
    then have "bc_by_hash c h = None"
      using index_wf_by_hash [OF D(2), of h] by simp
    moreover have "cache_wf p (c\<lparr>bc_lookup_misses := Suc (bc_lookup_misses c)\<rparr>)"
      using cache_wf_reidle [OF wf D(1)] D by simp
    ultimately show ?thesis
      by (cases r) (simp add: hit_miss [OF Nil] option.map_ident)
  next
    case (Cons e b)
    have h: "bc_by_hash c h = Some (e # b)" and e: "e \<in> set (bc_entries c)"
      using index_wf_by_hash [OF D(2), of h] index_wf_bucket [OF D(2), of e h] Cons by auto
    obtain n where n: "used p (ce_block_id e) = Some n"
      using D(6) [OF e] by blast
    have pos: "0 < n \<or> \<not> dbg"
      using Cons.prems(2) n pool_wf_used_nonneg [OF D(1) n] hit_Cons(2) [OF Cons] by fastforce
    let ?c = "c\<lparr>bc_idle_lru := filter (\<lambda>x. ce_block_id x \<noteq> ce_block_id e) (bc_idle_lru c)\<rparr>"
    let ?c1 = "?c\<lparr>bc_lookup_hits := Suc (bc_lookup_hits ?c)\<rparr>"
    obtain q where q: "lookup_take dbg e p c = Some (q, ?c)" "cache_wf q ?c"
        "used q = (used p)(ce_block_id e \<mapsto> n + 1)" "pool_frame q = pool_frame p"
      using lookup_take_ok [OF wf e n pos] by blast
    have wf1: "cache_wf q ?c1"
      using cache_wf_reidle [OF q(2) cache_wfD(1) [OF q(2)], of ?c1] cache_wfD [OF q(2)] by simp
    have hits: "hit_ids ?c1 hs = hit_ids c hs" "hit_hashes ?c1 hs = hit_hashes c hs"
      using hit_cong [of ?c1 c] by simp_all
    have live: "dbg \<longrightarrow> (\<forall>i \<in> set (hit_ids ?c1 hs). used q i \<noteq> Some 0)"
      using Cons.prems(2) hits q(3) hit_Cons(2) [OF Cons] pool_wf_used_nonneg [OF D(1) n] by auto
    let ?r = "r\<lparr>pl_block_table := table_push_back (pl_block_table r) (ce_block_id e),
        pl_parent_hash := h, prefix_hit_blocks := prefix_hit_blocks r + 1\<rparr>"
    have run: "lookup_loop dbg (h # hs) r p c = lookup_loop dbg hs ?r q ?c1"
      by (simp add: h q(1))
    have idle: "filter (\<lambda>x. ce_block_id x \<notin> set (hit_ids c hs))
          (filter (\<lambda>x. ce_block_id x \<noteq> ce_block_id e) (bc_idle_lru c)) =
        filter (\<lambda>x. ce_block_id x \<notin> set (hit_ids c (h # hs))) (bc_idle_lru c)"
      by (auto simp: hit_Cons [OF Cons] intro: filter_cong)
    have cnt: "(\<lambda>i. map_option (\<lambda>n. n + int (count_list (hit_ids c hs) i)) (used q i)) =
        (\<lambda>i. map_option (\<lambda>n. n + int (count_list (hit_ids c (h # hs)) i)) (used p i))"
      using n by (auto simp: hit_Cons [OF Cons] q(3) fun_eq_iff)
    note IH = Cons.IH [OF wf1 live, of ?r, unfolded hits cnt q(4), folded run]
    obtain p' c' where ok: "lookup_loop dbg (h # hs) r p c = Some (
          \<lparr>pl_block_table = (pl_block_table ?r)\<lparr>block_ids := block_ids (pl_block_table ?r) @ hit_ids c hs\<rparr>,
           prefix_hit_blocks = prefix_hit_blocks ?r + int (length (hit_ids c hs)),
           pl_parent_hash = last (pl_parent_hash ?r # hit_hashes c hs)\<rparr>, p', c')"
        "cache_wf p' c'" "pool_frame p' = pool_frame p"
        "used p' = (\<lambda>i. map_option (\<lambda>n. n + int (count_list (hit_ids c (h # hs)) i)) (used p i))"
      and c': "c' = ?c1\<lparr>bc_idle_lru := filter (\<lambda>e. ce_block_id e \<notin> set (hit_ids c hs)) (bc_idle_lru ?c1),
           bc_lookup_hits := bc_lookup_hits ?c1 + length (hit_hashes c hs),
           bc_lookup_misses := bc_lookup_misses ?c1 + (if hit_hashes c hs = hs then 0 else 1)\<rparr>"
      using IH by (elim exE conjE) (rule that)
    have "c' = c\<lparr>bc_idle_lru := filter (\<lambda>e. ce_block_id e \<notin> set (hit_ids c (h # hs))) (bc_idle_lru c),
           bc_lookup_hits := bc_lookup_hits c + length (hit_hashes c (h # hs)),
           bc_lookup_misses := bc_lookup_misses c + (if hit_hashes c (h # hs) = h # hs then 0 else 1)\<rparr>"
      unfolding c' idle [symmetric] by (simp add: hit_Cons(1) [OF Cons])
    with ok show ?thesis
      by (intro exI [of _ p'] exI [of _ c']) (simp add: hit_Cons [OF Cons] table_push_back_def)
  qed
qed

section \<open>Publishing, retiring and evicting\<close>

lemma publish_hash:
  assumes "0 < bs" "bs \<le> int (length tokens)"
  shows "chain_hashes_from tokens bs bs parent seed =
    Some [hash_tokens (if seed \<noteq> 0 then hash_combine parent seed else parent) (take (nat bs) tokens)]"
  using assms chain_hashes_from_eq [of bs bs tokens parent seed]
    chain_step [of "nat bs" "take (nat bs) tokens"] chain_short [of "[]" "nat bs"]
  by simp

lemma index_wf_insert:
  assumes wf: "index_wf c" and fresh: "bc_by_block c (ce_block_id e) = None"
  shows "index_wf (c\<lparr>bc_entries := bc_entries c @ [e], bc_by_block := (bc_by_block c)(ce_block_id e \<mapsto> e),
      bc_by_hash := (bc_by_hash c)(prefix_hash e \<mapsto> bucket_of c (prefix_hash e) @ [e])\<rparr>)"
    (is "index_wf ?c")
proof -
  have new: "ce_block_id x \<noteq> ce_block_id e" if "x \<in> set (bc_entries c)" for x
    using that fresh index_wf_by_block [OF wf, of "ce_block_id e" x] by auto
  have b: "bucket_of ?c h = (if h = prefix_hash e then bucket_of c h @ [e] else bucket_of c h)" for h
    by (simp add: bucket_of_def)
  have "distinct (map ce_block_id (bc_entries ?c))"
    using index_wf_distinct [OF wf] new by (force simp: image_iff)
  moreover have "bc_by_block ?c i = Some x \<longleftrightarrow> x \<in> set (bc_entries ?c) \<and> ce_block_id x = i" for i x
    using index_wf_by_block [OF wf, of i x] new by auto
  moreover have "distinct (bucket_of ?c h)" for h
    using wf new index_wf_bucket [OF wf, of e h] unfolding b by (auto simp: index_wf_def)
  moreover have "set (bucket_of ?c h) = {x \<in> set (bc_entries ?c). prefix_hash x = h}" for h
    using index_wf_bucket [OF wf] unfolding b by auto
  moreover have "bc_by_hash ?c h \<noteq> Some []" for h
    using wf by (simp add: index_wf_def)
  ultimately show ?thesis
    unfolding index_wf_def by blast
qed

lemma publish_new_ok:
  assumes wf: "cache_wf p c" and u: "used p i = Some n" "0 < n"
    and len: "bp_block_size p \<le> int (length tokens)" and fresh: "\<not> contains i c"
    and h: "h = hash_tokens (if seed \<noteq> 0 then hash_combine parent seed else parent)
                  (take (nat (bp_block_size p)) tokens)"
  defines "c' \<equiv> c\<lparr>bc_entries := bc_entries c @ [\<lparr>prefix_hash = h, ce_block_id = i\<rparr>],
      bc_by_block := (bc_by_block c)(i \<mapsto> \<lparr>prefix_hash = h, ce_block_id = i\<rparr>),
      bc_by_hash := (bc_by_hash c)(h \<mapsto> bucket_of c h @ [\<lparr>prefix_hash = h, ce_block_id = i\<rparr>])\<rparr>"
  shows "publish_full_block dbg parent tokens i seed p c = Some (h, c')" and "cache_wf p c'"
proof -
  note D = cache_wfD [OF wf]
  let ?e = "\<lparr>prefix_hash = h, ce_block_id = i\<rparr>"
  have none: "bc_by_block c (ce_block_id ?e) = None"
    using fresh by (simp add: contains_def)
  have "index_wf c'"
    using index_wf_insert [OF D(2) none] by (simp add: c'_def)
  moreover have "bc_entries c' = bc_entries c @ [?e]" "bc_idle_lru c' = bc_idle_lru c"
    by (simp_all add: c'_def)
  ultimately show "cache_wf p c'"
    using D(1,3,4,5) D(6) u unfolding cache_wf_def by auto
  show "publish_full_block dbg parent tokens i seed p c = Some (h, c')"
    using publish_hash [OF pool_wf_block_size [OF D(1)] len, of parent seed, folded h] none u len
      ref_count_used [OF D(1) u(1)] pool_wf_block_size [OF D(1)]
    by (simp add: publish_full_block_def c'_def bucket_of_def Let_def)
qed

lemma publish_again_ok:
  assumes wf: "cache_wf p c" and len: "bp_block_size p \<le> int (length tokens)"
    and e: "e \<in> set (bc_entries c)" "ce_block_id e = i"
    and h: "h = hash_tokens (if seed \<noteq> 0 then hash_combine parent seed else parent)
                  (take (nat (bp_block_size p)) tokens)"
    and same: "dbg \<longrightarrow> prefix_hash e = h"
  shows "publish_full_block dbg parent tokens i seed p c = Some (h, c)"
proof -
  note D = cache_wfD [OF wf]
  have "bc_by_block c i = Some e"
    using index_wf_by_block [OF D(2)] e by simp
  then show ?thesis
    using publish_hash [OF pool_wf_block_size [OF D(1)] len, of parent seed, folded h] same len
      pool_wf_block_size [OF D(1)]
    by (simp add: publish_full_block_def assert_that_def)
qed

lemma swap_remove_mset:
  assumes "i < length xs"
  shows "mset (butlast (xs[i := last xs])) = mset xs - {#xs ! i#}"
proof -
  let ?ys = "xs[i := last xs]"
  have ne: "?ys \<noteq> []" and "last ?ys = last xs"
    using assms last_list_update [of xs i "last xs"] by (cases "xs = []"; simp)+
  then have "mset ?ys = add_mset (last xs) (mset (butlast ?ys))"
    by (metis append_butlast_last_id mset.simps(2) mset_append union_mset_add_mset_right add.right_neutral mset_zero_iff)
  moreover have "mset ?ys = add_mset (last xs) (mset xs - {#xs ! i#})"
    using assms by (simp add: mset_update)
  ultimately show ?thesis by simp
qed

lemma find_pos_ok: "x \<in> set xs \<Longrightarrow> find_pos x xs < length xs \<and> xs ! find_pos x xs = x"
  unfolding find_pos_def by (induction xs) auto

lemma swap_remove_set:
  assumes "distinct xs" "x \<in> set xs"
  shows "distinct (butlast (xs[find_pos x xs := last xs]))"
    "set (butlast (xs[find_pos x xs := last xs])) = set xs - {x}"
proof -
  let ?zs = "butlast (xs[find_pos x xs := last xs])"
  have m: "mset ?zs = mset (remove1 x xs)"
    using swap_remove_mset find_pos_ok [OF assms(2)] by fastforce
  then show "distinct ?zs" "set ?zs = set xs - {x}"
    using assms mset_eq_imp_distinct_iff [OF m] mset_eq_setD [OF m] by simp_all
qed

lemma index_wf_entries_distinct: "index_wf c \<Longrightarrow> distinct (bc_entries c)"
  using index_wf_distinct [of c] by (simp add: distinct_map)

lemma index_wf_delete:
  assumes wf: "index_wf c" and e: "e \<in> set (bc_entries c)" and i: "i = ce_block_id e"
    and b: "distinct b" "set b = set (bucket_of c (prefix_hash e)) - {e}"
    and c': "bc_by_hash c' = (bc_by_hash c)(prefix_hash e := if b = [] then None else Some b)"
      "bc_by_block c' = (bc_by_block c)(i := None)" "bc_entries c' = remove1 e (bc_entries c)"
  shows "index_wf c'"
proof -
  have ents: "set (bc_entries c') = set (bc_entries c) - {e}"
    using index_wf_entries_distinct [OF wf] by (simp add: c'(3))
  have bk: "bucket_of c' h = (if h = prefix_hash e then b else bucket_of c h)" for h
    by (simp add: bucket_of_def c'(1))
  have "distinct (map ce_block_id (bc_entries c'))"
    using index_wf_distinct [OF wf] unfolding c'(3) distinct_map
    by (auto intro: inj_on_subset)
  moreover have "bc_by_block c' j = Some x \<longleftrightarrow> x \<in> set (bc_entries c') \<and> ce_block_id x = j" for j x
    using index_wf_by_block [OF wf, of j x] index_wf_inj [OF wf, of x e] e
    by (cases "j = i") (auto simp: ents c'(2) i)
  moreover have "set (bucket_of c' h) = {x \<in> set (bc_entries c'). prefix_hash x = h}" for h
    using index_wf_bucket [OF wf, of _ h] b(2) unfolding bk ents by (cases "h = prefix_hash e") auto
  moreover have "distinct (bucket_of c' h)" for h
    using b(1) wf unfolding bk index_wf_def by simp
  moreover have "bc_by_hash c' h \<noteq> Some []" for h
    using wf by (simp add: c'(1) index_wf_def)
  ultimately show ?thesis
    unfolding index_wf_def by blast
qed

lemma erase_entry_ok:
  assumes wf: "index_wf c" and e: "e \<in> set (bc_entries c)"
  shows "\<exists>c'. erase_entry (ce_block_id e) c = Some c' \<and> index_wf c' \<and>
    bc_entries c' = remove1 e (bc_entries c) \<and> bc_idle_lru c' = remove1 e (bc_idle_lru c) \<and>
    bc_lookup_hits c' = bc_lookup_hits c \<and> bc_lookup_misses c' = bc_lookup_misses c \<and>
    bc_evictions c' = bc_evictions c"
proof -
  let ?h = "prefix_hash e" and ?i = "ce_block_id e"
  let ?bk = "bucket_of c ?h"
  let ?b = "butlast (?bk[find_pos e ?bk := last ?bk])"
  let ?c = "c\<lparr>bc_idle_lru := remove1 e (bc_idle_lru c)\<rparr>"
  let ?c' = "?c\<lparr>bc_by_hash := (bc_by_hash c)(?h := if ?b = [] then None else Some ?b),
      bc_by_block := (bc_by_block c)(?i := None), bc_entries := remove1 e (bc_entries c)\<rparr>"
  have mem: "e \<in> set ?bk" and d: "distinct ?bk"
    using index_wf_bucket [OF wf, of e ?h] e wf unfolding index_wf_def by auto
  have hash: "bc_by_hash c ?h = Some ?bk"
    using index_wf_by_hash [OF wf, of ?h] mem by auto
  have blk: "bc_by_block c ?i = Some e"
    using index_wf_by_block [OF wf] e by simp
  have idle: "(if is_in_idle_lru e c then idle_lru_erase e c else Some c) = Some ?c"
    by (simp add: idle_lru_erase_def is_in_idle_lru_def remove1_idem)
  have "erase_entry ?i c = Some ?c'"
    using find_pos_ok [OF mem] hash unfolding erase_entry_def blk by (simp add: idle Let_def)
  moreover have "index_wf ?c'"
    using index_wf_delete [OF wf e refl swap_remove_set [OF d mem]] by simp
  ultimately show ?thesis by simp
qed

lemma evict_one_ok:
  assumes wf: "cache_wf p c" and idle: "bc_idle_lru c = e # es"
  shows "\<exists>p' c'. evict_one dbg p c = Some (True, p', c') \<and> cache_wf p' c' \<and>
    bc_idle_lru c' = es \<and> bc_entries c' = remove1 e (bc_entries c) \<and>
    used p' = (used p)(ce_block_id e := None) \<and> bp_free_list p' = bp_free_list p @ [ce_block_id e] \<and>
    pool_geom p' = pool_geom p \<and> bc_evictions c' = Suc (bc_evictions c)"
proof -
  note D = cache_wfD [OF wf]
  have e: "e \<in> set (bc_entries c)" and u: "used p (ce_block_id e) = Some 0"
    using D(4) D(5) [of "ce_block_id e"] idle by auto
  obtain c1 where c1: "erase_entry (ce_block_id e) c = Some c1" "index_wf c1"
      "bc_entries c1 = remove1 e (bc_entries c)" "bc_idle_lru c1 = es" "bc_evictions c1 = bc_evictions c"
    using erase_entry_ok [OF D(2) e] idle by auto
  obtain p' where p': "recycle dbg (ce_block_id e) p = Some p'" "pool_wf p'"
      "used p' = (used p)(ce_block_id e := None)"
      "bp_free_list p' = bp_free_list p @ [ce_block_id e]" "pool_geom p' = pool_geom p"
    using recycle_ok [OF D(1) u, of dbg] by blast
  let ?c = "c1\<lparr>bc_evictions := Suc (bc_evictions c1)\<rparr>"
  have ents: "set (bc_entries ?c) = set (bc_entries c) - {e}"
    using index_wf_entries_distinct [OF D(2)] c1(3) by simp
  have es: "e \<notin> set es" "distinct es" "set es \<subseteq> set (bc_entries c)"
    using D(3,4) idle by auto
  have other: "ce_block_id x \<noteq> ce_block_id e" if "x \<in> set (bc_entries c)" "x \<noteq> e" for x
    using index_wf_inj [OF D(2) that(1) e] that(2) by blast
  have "ce_block_id e \<notin> ce_block_id ` set es"
    using other es by fastforce
  then have "used p' i = Some 0 \<longleftrightarrow> i \<in> ce_block_id ` set es" for i
    using D(5) [of i] p'(3) idle by auto
  moreover have "used p' (ce_block_id x) \<noteq> None" if "x \<in> set (bc_entries ?c)" for x
    using that D(6) [of x] other [of x] ents p'(3) by auto
  moreover have "index_wf ?c"
    using index_wf_cong [of ?c c1] c1(2) by simp
  ultimately have "cache_wf p' ?c"
    using p'(2) es ents c1(4) unfolding cache_wf_def by auto
  then show ?thesis
    using p' c1 ref_count_used [OF D(1) u] idle by (simp add: evict_one_def Let_def)
qed

lemma evict_all_ok:
  assumes "cache_wf p c"
  shows "\<exists>p' c'. evict_all dbg p c = Some (p', c') \<and> cache_wf p' c' \<and> bc_idle_lru c' = [] \<and>
    bp_free_list p' = bp_free_list p @ map ce_block_id (bc_idle_lru c) \<and>
    used p' = used p |` (- {i. used p i = Some 0}) \<and> pool_geom p' = pool_geom p"
  using assms
proof (induction "bc_idle_lru c" arbitrary: p c)
  case Nil
  have "used p i \<noteq> Some 0" for i
    using cache_wfD(5) [OF Nil.prems] Nil.hyps [symmetric] by simp
  then have "used p |` (- {i. used p i = Some 0}) = used p"
    by (simp add: restrict_map_def fun_eq_iff)
  then show ?case
    using Nil by (subst evict_all.simps) (auto simp: evict_one_def)
next
  case (Cons e es)
  obtain q d where q: "evict_one dbg p c = Some (True, q, d)" "cache_wf q d" "bc_idle_lru d = es"
      "used q = (used p)(ce_block_id e := None)" "bp_free_list q = bp_free_list p @ [ce_block_id e]"
      "pool_geom q = pool_geom p"
    using evict_one_ok [OF Cons.prems Cons.hyps(2) [symmetric], of dbg] by blast
  have "used p (ce_block_id e) = Some 0"
    using cache_wfD(5) [OF Cons.prems, of "ce_block_id e"] Cons.hyps(2) [symmetric] by simp
  then have rest: "used q |` (- {i. used q i = Some 0}) = used p |` (- {i. used p i = Some 0})"
    by (auto simp: q(4) restrict_map_def fun_eq_iff)
  have "evict_all dbg p c = evict_all dbg q d"
    by (subst evict_all.simps) (simp add: q(1))
  moreover have "bp_free_list q @ map ce_block_id (bc_idle_lru d) = bp_free_list p @ map ce_block_id (bc_idle_lru c)"
    using q(3,5) Cons.hyps(2) [symmetric] by simp
  ultimately show ?case
    using Cons.hyps(1) [OF q(3) [symmetric] q(2)] q(6) unfolding rest by simp
qed

section \<open>Settling released blocks\<close>

lemma cache_wf_pendingD:
  assumes "cache_wf_pending Z p c"
  shows "pool_wf p" "index_wf c" "distinct (bc_idle_lru c)" "set (bc_idle_lru c) \<subseteq> set (bc_entries c)"
    "used p i = Some 0 \<longleftrightarrow> i \<in> Z \<or> i \<in> ce_block_id ` set (bc_idle_lru c)"
    "Z \<inter> ce_block_id ` set (bc_idle_lru c) = {}"
    "e \<in> set (bc_entries c) \<Longrightarrow> \<exists>n. used p (ce_block_id e) = Some n"
  using assms unfolding cache_wf_pending_def by blast+

lemma mark_idle_ok:
  assumes wf: "cache_wf_pending Z p c" and i: "i \<in> Z" "contains i c"
  shows "\<exists>c'. mark_idle dbg i p c = Some c' \<and> cache_wf_pending (Z - {i}) p c' \<and>
    bc_entries c' = bc_entries c"
proof -
  note D = cache_wf_pendingD [OF wf]
  obtain e where e: "bc_by_block c i = Some e" "e \<in> set (bc_entries c)" "ce_block_id e = i"
    using i(2) index_wf_by_block [OF D(2), of i] unfolding contains_def by blast
  have u: "used p i = Some 0"
    using D(5) [of i] i(1) by simp
  have fresh: "e \<notin> set (bc_idle_lru c)"
    using D(6) i(1) e(3) by auto
  let ?c = "c\<lparr>bc_idle_lru := bc_idle_lru c @ [e]\<rparr>"
  have "used p j = Some 0 \<longleftrightarrow> j \<in> Z - {i} \<or> j \<in> ce_block_id ` set (bc_idle_lru ?c)" for j
    using D(5) [of j] i(1) e(3) by auto
  moreover have "(Z - {i}) \<inter> ce_block_id ` set (bc_idle_lru ?c) = {}"
    using D(6) e(3) by auto
  moreover have "index_wf ?c"
    using index_wf_cong [of ?c c] D(2) by simp
  moreover have "used p (ce_block_id x) \<noteq> None" if "x \<in> set (bc_entries c)" for x
    using D(7) [OF that] by auto
  ultimately have "cache_wf_pending (Z - {i}) p ?c"
    using D(1,3,4) fresh e(2) unfolding cache_wf_pending_def by auto
  moreover have "mark_idle dbg i p c = Some ?c"
    using e(1) fresh ref_count_used [OF D(1) u] by (simp add: mark_idle_def is_in_idle_lru_def)
  ultimately show ?thesis by auto
qed

lemma recycle_pending_ok:
  assumes wf: "cache_wf_pending Z p c" and i: "i \<in> Z" "\<not> contains i c"
  shows "\<exists>p'. recycle dbg i p = Some p' \<and> cache_wf_pending (Z - {i}) p' c \<and>
    used p' = (used p)(i := None) \<and> bp_free_list p' = bp_free_list p @ [i] \<and> pool_geom p' = pool_geom p"
proof -
  note D = cache_wf_pendingD [OF wf]
  have "used p i = Some 0"
    using D(5) [of i] i(1) by simp
  then obtain p' where p': "recycle dbg i p = Some p'" "pool_wf p'" "used p' = (used p)(i := None)"
      "bp_free_list p' = bp_free_list p @ [i]" "pool_geom p' = pool_geom p"
    using recycle_ok [OF D(1), of i dbg] by blast
  have "used p' j = Some 0 \<longleftrightarrow> j \<in> Z - {i} \<or> j \<in> ce_block_id ` set (bc_idle_lru c)" for j
    using D(5) [of j] D(6) i(1) p'(3) by auto
  moreover have "used p' (ce_block_id x) \<noteq> None" if "x \<in> set (bc_entries c)" for x
    using D(7) [OF that] p'(3) i(2) contains_iff [OF D(2), of i] that by auto
  ultimately have "cache_wf_pending (Z - {i}) p' c"
    using D(2,3,4,6) p'(2) unfolding cache_wf_pending_def by auto
  with p' show ?thesis by blast
qed

section \<open>Properties\<close>

text \<open>The hashes a lookup of \<open>tokens\<close> compares, and what makes a list of blocks its answer.\<close>

definition prompt_hash :: "hash \<Rightarrow> nat \<Rightarrow> int list \<Rightarrow> nat \<Rightarrow> hash" where
  "prompt_hash salt bs tokens k = hash_tokens (if salt \<noteq> 0 then hash_combine 0 salt else 0) (take (k * bs) tokens)"

definition longest_hit :: "BlockCache \<Rightarrow> hash \<Rightarrow> nat \<Rightarrow> int list \<Rightarrow> BlockId list \<Rightarrow> bool" where
  "longest_hit c salt bs tokens ids \<longleftrightarrow>
     length ids \<le> length tokens div bs \<and>
     (\<forall>j < length ids. \<exists>e \<in> set (bc_entries c).
        ce_block_id e = ids ! j \<and> prefix_hash e = prompt_hash salt bs tokens (Suc j)) \<and>
     (length ids = length tokens div bs \<or>
        (\<forall>e \<in> set (bc_entries c). prefix_hash e \<noteq> prompt_hash salt bs tokens (Suc (length ids))))"

abbreviation prompt_chain :: "hash \<Rightarrow> nat \<Rightarrow> int list \<Rightarrow> hash list" where
  "prompt_chain salt bs tokens \<equiv> chain bs (if salt \<noteq> 0 then hash_combine 0 salt else 0) tokens"

lemma hit_ids_longest:
  assumes wf: "index_wf c" and bs: "0 < bs"
  shows "longest_hit c salt bs tokens (hit_ids c (prompt_chain salt bs tokens))"
proof -
  let ?hs = "prompt_chain salt bs tokens"
  let ?k = "length (hit_ids c ?hs)"
  have len: "length ?hs = length tokens div bs"
    using length_chain [OF bs] by simp
  have k: "?k = length (hit_hashes c ?hs)" "?k \<le> length ?hs"
    by (simp_all add: hit_ids_def hit_hashes_def length_takeWhile_le)
  have nth: "?hs ! j = prompt_hash salt bs tokens (Suc j)" if "j < length ?hs" for j
    using that chain_nth [OF bs] unfolding len prompt_hash_def by simp
  have "\<exists>e \<in> set (bc_entries c). ce_block_id e = hit_ids c ?hs ! j \<and> prefix_hash e = prompt_hash salt bs tokens (Suc j)"
    if j: "j < ?k" for j
  proof -
    have h: "hit_hashes c ?hs ! j = ?hs ! j" and "bucket_of c (hit_hashes c ?hs ! j) \<noteq> []"
      using j nth_mem [of j "hit_hashes c ?hs"] unfolding k(1) hit_hashes_def
      by (auto simp: takeWhile_nth dest: set_takeWhileD)
    then have "hd (bucket_of c (?hs ! j)) \<in> set (bucket_of c (?hs ! j))"
      by simp
    then show ?thesis
      using index_wf_bucket [OF wf] j k nth [of j] h
      by (intro bexI [of _ "hd (bucket_of c (?hs ! j))"]) (simp_all add: hit_ids_def)
  qed
  moreover have "prefix_hash e \<noteq> prompt_hash salt bs tokens (Suc ?k)"
    if "?k \<noteq> length ?hs" "e \<in> set (bc_entries c)" for e
  proof -
    have lt: "?k < length ?hs" using that(1) k(2) by simp
    then have "bucket_of c (?hs ! ?k) = []"
      using nth_length_takeWhile [of "\<lambda>h. bucket_of c h \<noteq> []" ?hs] k(1) by (simp add: hit_hashes_def)
    then show ?thesis
      using index_wf_bucket [OF wf, of e] that(2) nth [OF lt] by (metis empty_iff list.set(1))
  qed
  ultimately show ?thesis
    unfolding longest_hit_def using k(2) len by auto
qed

lemma lookup_prefix_run:
  assumes wf: "cache_wf p c" and ne: "tokens \<noteq> []"
    and dbg: "dbg \<longrightarrow> (\<forall>i \<in> set (hit_ids c (prompt_chain salt (nat (bp_block_size p)) tokens)). used p i \<noteq> Some 0)"
    and ids: "ids = hit_ids c (prompt_chain salt (nat (bp_block_size p)) tokens)"
  shows "\<exists>p' c'. lookup_prefix_cache dbg tokens salt p c = Some (
      \<lparr>pl_block_table = \<lparr>block_ids = ids, shared_count = int (length ids)\<rparr>, prefix_hit_blocks = int (length ids),
       pl_parent_hash = last (0 # hit_hashes c (prompt_chain salt (nat (bp_block_size p)) tokens))\<rparr>, p', c') \<and>
    cache_wf p' c' \<and> used p' = (\<lambda>i. map_option (\<lambda>n. n + int (count_list ids i)) (used p i)) \<and>
    pool_frame p' = pool_frame p \<and> bc_entries c' = bc_entries c"
proof -
  define hs where "hs = prompt_chain salt (nat (bp_block_size p)) tokens"
  have bs: "0 < bp_block_size p"
    using pool_wf_block_size [OF cache_wfD(1) [OF wf]] .
  have ch: "chain_hashes tokens (bp_block_size p) salt = Some hs"
    unfolding hs_def by (rule chain_hashes_eq [OF bs])
  define r where "r = \<lparr>pl_block_table = empty_table, prefix_hit_blocks = 0, pl_parent_hash = 0\<rparr>"
  obtain p' c' where run: "lookup_loop dbg hs r p c = Some (
        \<lparr>pl_block_table = (pl_block_table r)\<lparr>block_ids := block_ids (pl_block_table r) @ ids\<rparr>,
         prefix_hit_blocks = prefix_hit_blocks r + int (length ids),
         pl_parent_hash = last (pl_parent_hash r # hit_hashes c hs)\<rparr>, p', c')"
    and ok: "cache_wf p' c'" "pool_frame p' = pool_frame p"
      "used p' = (\<lambda>i. map_option (\<lambda>n. n + int (count_list ids i)) (used p i))"
    and c': "c' = c\<lparr>bc_idle_lru := filter (\<lambda>e. ce_block_id e \<notin> set ids) (bc_idle_lru c),
           bc_lookup_hits := bc_lookup_hits c + length (hit_hashes c hs),
           bc_lookup_misses := bc_lookup_misses c + (if hit_hashes c hs = hs then 0 else 1)\<rparr>"
    using lookup_loop_ok [OF wf dbg, of r, folded ids hs_def] by (elim exE conjE) (rule that)
  have "lookup_prefix_cache dbg tokens salt p c = Some (
      \<lparr>pl_block_table = \<lparr>block_ids = ids, shared_count = int (length ids)\<rparr>,
       prefix_hit_blocks = int (length ids), pl_parent_hash = last (0 # hit_hashes c hs)\<rparr>, p', c')"
    using bs ne unfolding lookup_prefix_cache_def r_def [symmetric]
    by (simp add: ch run) (simp add: r_def set_shared_count_def empty_table_def)
  moreover have "bc_entries c' = bc_entries c"
    unfolding c' by simp
  ultimately show ?thesis
    using ok unfolding hs_def by blast
qed

lemma hit_parent:
  assumes "0 < bs" and ids: "ids = hit_ids c (prompt_chain salt bs tokens)"
  shows "last (0 # hit_hashes c (prompt_chain salt bs tokens)) =
    (if ids = [] then 0 else prompt_hash salt bs tokens (length ids))"
proof (cases "hit_hashes c (prompt_chain salt bs tokens)" rule: rev_cases)
  case Nil
  then show ?thesis by (simp add: hit_ids_def ids)
next
  case (snoc xs x)
  let ?hs = "prompt_chain salt bs tokens"
  have "x = ?hs ! length xs" "length xs < length ?hs"
    using snoc takeWhile_nth [of "length xs" "\<lambda>h. bucket_of c h \<noteq> []" ?hs]
      length_takeWhile_le [of "\<lambda>h. bucket_of c h \<noteq> []" ?hs]
    by (auto simp: hit_hashes_def)
  then show ?thesis
    using snoc chain_nth [OF assms(1)] length_chain [OF assms(1)] by (simp add: prompt_hash_def hit_ids_def ids)
qed


text \<open>Block 0 of \<^term>\<open>ex_pool\<close> published for the tokens 1, 2, and the same cache with the block idle.\<close>

definition ex_entry :: BlockCacheEntry where
  "ex_entry = \<lparr>prefix_hash = hash_tokens 0 [1, 2], ce_block_id = 0\<rparr>"

definition ex_cache :: BlockCache where
  "ex_cache = cache_new\<lparr>bc_entries := [ex_entry], bc_by_block := [0 \<mapsto> ex_entry],
     bc_by_hash := [hash_tokens 0 [1, 2] \<mapsto> [ex_entry]]\<rparr>"

definition ex_pool_idle :: BlockPool where
  "ex_pool_idle = \<lparr>bp_blocks = [\<lparr>b_id = 0, b_ref_count = 0, b_status = InUse\<rparr>,
       \<lparr>b_id = 1, b_ref_count = 0, b_status = Free\<rparr>, \<lparr>b_id = 2, b_ref_count = 0, b_status = Free\<rparr>],
     bp_free_list = [1, 2], bp_max_blocks = 3, bp_block_size = 2\<rparr>"

definition ex_cache_idle :: BlockCache where
  "ex_cache_idle = ex_cache\<lparr>bc_idle_lru := [ex_entry]\<rparr>"

lemma ex_pool_used: "used ex_pool = [0 \<mapsto> 1]" "used ex_pool_idle = [0 \<mapsto> 0]"
  by (auto simp: used_def ex_pool_def ex_pool_idle_def valid_id_def block_at_def is_in_use_def fun_eq_iff
      nth_Cons' numeral_2_eq_2)

lemma ex_cache_wf: "cache_wf ex_pool ex_cache"
proof -
  have "bp_block_size ex_pool = 2"
    by (simp add: ex_pool_def)
  then show ?thesis
    using publish_new_ok(2) [OF cache_wf_new [OF ex_pool_wf], of 0 1 "[1, 2]" "hash_tokens 0 [1, 2]" 0 0]
    by (simp add: ex_pool_used contains_def cache_new_def ex_cache_def ex_entry_def bucket_of_def)
qed

lemma ex_cache_idle_wf: "cache_wf ex_pool_idle ex_cache_idle"
proof -
  have "pool_wf ex_pool_idle"
    by (rule pool_wf_exec) code_simp
  moreover have "dom (used ex_pool_idle) = dom (used ex_pool)"
    by (simp add: ex_pool_used)
  ultimately show ?thesis
    by (rule cache_wf_reidle [OF ex_cache_wf])
      (auto simp: ex_cache_idle_def ex_cache_def ex_entry_def ex_pool_used split: if_splits)
qed


lemma lookup_loop_aborts:
  assumes "cache_wf p c" "i \<in> set (hit_ids c hs)" "used p i = Some 0"
  shows "lookup_loop True hs r p c = None"
  using assms
proof (induction hs arbitrary: r p c)
  case Nil
  then show ?case by (simp add: hit_ids_def hit_hashes_def)
next
  case (Cons h hs)
  note D = cache_wfD [OF Cons.prems(1)]
  obtain e b where b: "bucket_of c h = e # b"
    using Cons.prems(2) hit_miss(2) [of c h hs] by (cases "bucket_of c h") auto
  have h: "bc_by_hash c h = Some (e # b)" and e: "e \<in> set (bc_entries c)"
    using index_wf_by_hash [OF D(2), of h] index_wf_bucket [OF D(2), of e h] b by auto
  obtain n where n: "used p (ce_block_id e) = Some n"
    using D(6) [OF e] by blast
  show ?case
  proof (cases "n = 0")
    case True
    then show ?thesis
      using lookup_take_aborts [OF Cons.prems(1)] n by (simp add: h)
  next
    case False
    then have "0 < n \<or> \<not> True" using pool_wf_used_nonneg [OF D(1) n] by simp
    note take = lookup_take_ok [OF Cons.prems(1) e n this]
    let ?c = "c\<lparr>bc_idle_lru := filter (\<lambda>x. ce_block_id x \<noteq> ce_block_id e) (bc_idle_lru c)\<rparr>"
    let ?c1 = "?c\<lparr>bc_lookup_hits := Suc (bc_lookup_hits ?c)\<rparr>"
    obtain q where q: "lookup_take True e p c = Some (q, ?c)" "cache_wf q ?c"
        "used q = (used p)(ce_block_id e \<mapsto> n + 1)"
      using take by blast
    have wf1: "cache_wf q ?c1"
      using cache_wf_reidle [OF q(2) cache_wfD(1) [OF q(2)], of ?c1] cache_wfD [OF q(2)] by simp
    have "i \<noteq> ce_block_id e"
      using Cons.prems(3) n False by auto
    then have "i \<in> set (hit_ids ?c1 hs)" "used q i = Some 0"
      using Cons.prems(2,3) hit_Cons(2) [OF b] hit_cong [of ?c1 c] q(3) by auto
    then show ?thesis
      using Cons.IH [OF wf1] by (simp add: h q(1))
  qed
qed

text \<open>
  C16. With assertions compiled in, every lookup that hits an idle cached block aborts: the pool
  asserts that a retained block already has a reference, and idle blocks have none.
\<close>

theorem lookup_idle_hit_aborts:
  assumes wf: "cache_wf p c" and i: "is_idle i c"
    and hit: "i \<in> set (hit_ids c (prompt_chain salt (nat (bp_block_size p)) tokens))"
  shows "lookup_prefix_cache True tokens salt p c = None"
proof -
  have "used p i = Some 0"
    using is_idle_iff [OF wf] i by simp
  then show ?thesis
    using lookup_loop_aborts [OF wf hit] pool_wf_block_size [OF cache_wfD(1) [OF wf]]
    by (auto simp: lookup_prefix_cache_def chain_hashes_eq bind_eq_None_conv)
qed

theorem lookup_idle_hit_aborts_witness:
  "cache_wf ex_pool_idle ex_cache_idle \<and> is_idle 0 ex_cache_idle \<and>
   0 \<in> set (hit_ids ex_cache_idle (prompt_chain 0 (nat (bp_block_size ex_pool_idle)) [1, 2, 3])) \<and>
   lookup_prefix_cache True [1, 2, 3] 0 ex_pool_idle ex_cache_idle = None"
proof -
  have idle: "is_idle 0 ex_cache_idle"
    using is_idle_iff [OF ex_cache_idle_wf] ex_pool_used by simp
  have hit: "0 \<in> set (hit_ids ex_cache_idle (prompt_chain 0 (nat (bp_block_size ex_pool_idle)) [1, 2, 3]))"
    by (simp add: ex_pool_idle_def chain_step hit_ids_def hit_hashes_def bucket_of_def ex_cache_idle_def
        ex_cache_def ex_entry_def)
  show ?thesis
    using lookup_idle_hit_aborts [OF ex_cache_idle_wf idle hit] ex_cache_idle_wf idle hit by blast
qed

text \<open>
  C8. Eviction never fails, evicts the block that has been idle longest and nothing else: its entry
  leaves the cache, the block goes to the back of the free list, the other idle blocks keep their
  order, and without idle blocks nothing changes.
\<close>

theorem evict_one_lru:
  assumes wf: "cache_wf p c"
  shows "\<exists>p' c'. evict_one dbg p c = Some (bc_idle_lru c \<noteq> [], p', c') \<and> cache_wf p' c' \<and>
    bc_idle_lru c' = tl (bc_idle_lru c) \<and>
    set (bc_entries c') = set (bc_entries c) - set (take 1 (bc_idle_lru c)) \<and>
    bp_free_list p' = bp_free_list p @ map ce_block_id (take 1 (bc_idle_lru c)) \<and>
    used p' = used p |` (- ce_block_id ` set (take 1 (bc_idle_lru c)))"
proof (cases "bc_idle_lru c")
  case Nil
  then show ?thesis using wf by (simp add: evict_one_def restrict_map_def)
next
  case (Cons e es)
  have "(used p)(i := None) = used p |` (- {i})" for i
    by (auto simp: restrict_map_def fun_eq_iff)
  then show ?thesis
    using evict_one_ok [OF wf Cons, of dbg] index_wf_entries_distinct [OF cache_wfD(2) [OF wf]] Cons
    by auto
qed

theorem evict_one_lru_witness:
  "cache_wf ex_pool_idle ex_cache_idle \<and>
   (\<exists>p' c'. evict_one True ex_pool_idle ex_cache_idle = Some (bc_idle_lru ex_cache_idle \<noteq> [], p', c') \<and>
    cache_wf p' c' \<and> bc_idle_lru c' = tl (bc_idle_lru ex_cache_idle) \<and>
    set (bc_entries c') = set (bc_entries ex_cache_idle) - set (take 1 (bc_idle_lru ex_cache_idle)) \<and>
    bp_free_list p' = bp_free_list ex_pool_idle @ map ce_block_id (take 1 (bc_idle_lru ex_cache_idle)) \<and>
    used p' = used ex_pool_idle |` (- ce_block_id ` set (take 1 (bc_idle_lru ex_cache_idle))))"
  using evict_one_lru [OF ex_cache_idle_wf] ex_cache_idle_wf by blast

lemma card_idle:
  assumes wf: "cache_wf p c"
  shows "card {i. used p i = Some 0} = length (bc_idle_lru c)"
proof -
  note D = cache_wfD [OF wf]
  have "inj_on ce_block_id (set (bc_idle_lru c))"
    using index_wf_inj [OF D(2)] D(4) by (meson inj_onI subsetD)
  then have "card (ce_block_id ` set (bc_idle_lru c)) = length (bc_idle_lru c)"
    using D(3) by (simp add: card_image distinct_card)
  moreover have "{i. used p i = Some 0} = ce_block_id ` set (bc_idle_lru c)"
    using D(5) by blast
  ultimately show ?thesis by simp
qed

text \<open>
  C14. The statistics partition the pool: total is active plus free plus idle, and
  \<open>block_active\<close>, computed by subtraction, is the number of blocks that a request references.
\<close>

theorem stats_partition:
  assumes wf: "cache_wf p c"
  shows "block_total (stats p c) = block_active (stats p c) + block_free (stats p c) + block_cached_idle (stats p c) \<and>
    block_active (stats p c) = int (card {i. \<exists>n > 0. used p i = Some n})"
proof -
  note D = cache_wfD [OF wf]
  let ?pos = "{i. \<exists>n > 0. used p i = Some n}" and ?zero = "{i. used p i = Some 0}"
  have split: "dom (used p) = ?pos \<union> ?zero"
  proof (rule set_eqI)
    show "i \<in> dom (used p) \<longleftrightarrow> i \<in> ?pos \<union> ?zero" for i
      using pool_wf_used_nonneg [OF D(1), of i] by (cases "used p i") fastforce+
  qed
  have "finite (dom (used p))"
    by (rule finite_subset [of _ "{0..<bp_max_blocks p}"]) (auto dest!: used_valid simp: valid_id_def)
  then have "card (dom (used p)) = card ?pos + card ?zero"
    unfolding split by (intro card_Un_disjoint) (auto simp: disjoint_iff)
  then show ?thesis
    using pool_conservation [OF D(1)] card_idle [OF wf] by (simp add: stats_def)
qed

theorem stats_partition_witness:
  "cache_wf ex_pool_idle ex_cache_idle \<and>
    block_total (stats ex_pool_idle ex_cache_idle) = block_active (stats ex_pool_idle ex_cache_idle) +
      block_free (stats ex_pool_idle ex_cache_idle) + block_cached_idle (stats ex_pool_idle ex_cache_idle) \<and>
    block_active (stats ex_pool_idle ex_cache_idle) = int (card {i. \<exists>n > 0. used ex_pool_idle i = Some n})"
  using stats_partition [OF ex_cache_idle_wf] ex_cache_idle_wf by blast

text \<open>
  C13. The destructor terminates without a failed assertion, returns every idle block to the pool in
  the order of the idle list and keeps exactly the blocks that requests still reference in use.
\<close>

theorem cache_destroy_clean:
  assumes wf: "cache_wf p c"
  shows "\<exists>p' c'. cache_destroy dbg p c = Some (p', c') \<and> pool_wf p' \<and> bc_entries c' = [] \<and>
    bp_free_list p' = bp_free_list p @ map ce_block_id (bc_idle_lru c) \<and>
    used p' = used p |` (- {i. used p i = Some 0})"
proof -
  obtain p' c' where "evict_all dbg p c = Some (p', c')" "cache_wf p' c'"
      "bp_free_list p' = bp_free_list p @ map ce_block_id (bc_idle_lru c)"
      "used p' = used p |` (- {i. used p i = Some 0})"
    using evict_all_ok [OF wf, of dbg] by blast
  then show ?thesis
    using cache_wfD(1) [of p' c'] by (simp add: cache_destroy_def)
qed

theorem cache_destroy_clean_witness:
  "cache_wf ex_pool_idle ex_cache_idle \<and>
   (\<exists>p' c'. cache_destroy True ex_pool_idle ex_cache_idle = Some (p', c') \<and> pool_wf p' \<and> bc_entries c' = [] \<and>
    bp_free_list p' = bp_free_list ex_pool_idle @ map ce_block_id (bc_idle_lru ex_cache_idle) \<and>
    used p' = used ex_pool_idle |` (- {i. used ex_pool_idle i = Some 0}))"
  using cache_destroy_clean [OF ex_cache_idle_wf] ex_cache_idle_wf by blast

end
