(* ===== verification/Kv_Blocks.thy ===== *)
theory Kv_Blocks
  imports Block_Cache
begin

text \<open>
  How the scheduler takes and returns KV blocks through the pool and the cache together:
  \<^verbatim>\<open>Scheduler::allocate_kv_blocks\<close> and \<^verbatim>\<open>Scheduler::release_request_blocks\<close> of
  \<^verbatim>\<open>src/src/scheduler/scheduler.cpp\<close>, and the interface the rest of the scheduler is proved against:
  the owners of block tables never lose a reference.
\<close>

partial_function (option) evict_until ::
    "bool \<Rightarrow> int \<Rightarrow> BlockPool \<Rightarrow> BlockCache \<Rightarrow> (BlockPool \<times> BlockCache) option" where
  "evict_until dbg num_blocks p c =
     (if num_free_blocks p < num_blocks then do {
        (evicted, p', c') \<leftarrow> evict_one dbg p c;
        if \<not> evicted then Some (p', c') else evict_until dbg num_blocks p' c'
      } else Some (p, c))"

declare evict_until.simps [code]

definition allocate_kv_blocks ::
    "bool \<Rightarrow> int \<Rightarrow> BlockPool \<Rightarrow> BlockCache \<Rightarrow> (BlockTable result \<times> BlockPool \<times> BlockCache) option" where
  "allocate_kv_blocks dbg num_blocks p c =
     (if num_blocks \<le> 0 then Some (Inr empty_table, p, c)
      else do {
        (p', c') \<leftarrow> evict_until dbg num_blocks p c;
        (r, p'') \<leftarrow> allocate_blocks dbg num_blocks p';
        Some (r, p'', c')
      })"

fun settle_loop ::
    "bool \<Rightarrow> BlockId list \<Rightarrow> BlockId set \<Rightarrow> BlockPool \<Rightarrow> BlockCache \<Rightarrow> (BlockPool \<times> BlockCache) option" where
  "settle_loop dbg [] seen p c = Some (p, c)"
| "settle_loop dbg (i # is) seen p c =
     (if i \<in> seen then settle_loop dbg is seen p c
      else do {
        n \<leftarrow> ref_count i p;
        if n \<noteq> 0 then settle_loop dbg is (insert i seen) p c
        else if contains i c then do {
          c' \<leftarrow> mark_idle dbg i p c;
          settle_loop dbg is (insert i seen) p c'
        } else do {
          p' \<leftarrow> recycle dbg i p;
          settle_loop dbg is (insert i seen) p' c
        }
      })"

definition release_request_blocks ::
    "bool \<Rightarrow> BlockTable \<Rightarrow> BlockPool \<Rightarrow> BlockCache \<Rightarrow> (BlockPool \<times> BlockCache) option" where
  "release_request_blocks dbg table p c = do {
     p' \<leftarrow> release_blocks dbg table p;
     settle_loop dbg (block_ids table) {} p' c
   }"

section \<open>References\<close>

text \<open>The number of request references of a block, zero for a free one.\<close>

definition refs :: "BlockPool \<Rightarrow> BlockId \<Rightarrow> int" where
  "refs p i = (case used p i of None \<Rightarrow> 0 | Some n \<Rightarrow> n)"

definition avail :: "BlockPool \<Rightarrow> BlockCache \<Rightarrow> BlockId list" where
  "avail p c = bp_free_list p @ map ce_block_id (bc_idle_lru c)"

lemma evict_until_ok:
  assumes "cache_wf p c"
  shows "\<exists>p' c'. evict_until dbg n p c = Some (p', c') \<and> cache_wf p' c' \<and> pool_geom p' = pool_geom p \<and>
    refs p' = refs p \<and> avail p' c' = avail p c \<and>
    set (bc_entries c') \<subseteq> set (bc_entries c) \<and> (\<forall>i m. used p' i = Some m \<longrightarrow> used p i = Some m) \<and>
    (n \<le> num_free_blocks p' \<or> bc_idle_lru c' = [])"
  using assms
proof (induction "bc_idle_lru c" arbitrary: p c)
  case Nil
  then show ?case
    by (subst evict_until.simps) (auto simp: evict_one_def)
next
  case (Cons e es)
  note idle = Cons.hyps(2) [symmetric]
  show ?case
  proof (cases "num_free_blocks p < n")
    case False
    with Cons.prems show ?thesis by (subst evict_until.simps) auto
  next
    case True
    obtain q d where q: "evict_one dbg p c = Some (True, q, d)" "cache_wf q d" "bc_idle_lru d = es"
        "bc_entries d = remove1 e (bc_entries c)" "used q = (used p)(ce_block_id e := None)"
        "bp_free_list q = bp_free_list p @ [ce_block_id e]" "pool_geom q = pool_geom p"
      using evict_one_ok [OF Cons.prems idle, of dbg] by blast
    have "used p (ce_block_id e) = Some 0"
      using cache_wfD(5) [OF Cons.prems, of "ce_block_id e"] idle by simp
    then have "refs q = refs p" "avail q d = avail p c"
      using q idle by (auto simp: refs_def avail_def fun_eq_iff)
    moreover have "set (bc_entries d) \<subseteq> set (bc_entries c)"
      unfolding q(4) by (rule set_remove1_subset)
    moreover have "\<forall>i m. used q i = Some m \<longrightarrow> used p i = Some m"
      using q(5) by simp
    moreover have "evict_until dbg n p c = evict_until dbg n q d"
      using True q(1) by (subst evict_until.simps) simp
    moreover obtain p' c' where "evict_until dbg n q d = Some (p', c')" "cache_wf p' c'"
        "pool_geom p' = pool_geom q" "refs p' = refs q" "avail p' c' = avail q d"
        "set (bc_entries c') \<subseteq> set (bc_entries d)" "\<forall>i m. used p' i = Some m \<longrightarrow> used q i = Some m"
        "n \<le> num_free_blocks p' \<or> bc_idle_lru c' = []"
      using Cons.hyps(1) [OF q(3) [symmetric] q(2)] by blast
    ultimately show ?thesis
      using q(7) by (intro exI [of _ p'] exI [of _ c']) auto
  qed
qed

lemma refs_nonneg: "pool_wf p \<Longrightarrow> 0 \<le> refs p i"
  using pool_wf_used_nonneg [of p i] by (auto simp: refs_def split: option.split)

lemma refs_pos_used: "0 < refs p i \<Longrightarrow> used p i = Some (refs p i)"
  by (auto simp: refs_def split: option.splits)

lemma avail_iff:
  assumes wf: "cache_wf p c"
  shows "i \<in> set (avail p c) \<longleftrightarrow> valid_id p i \<and> refs p i = 0"
proof (cases "used p i")
  case None
  then show ?thesis
    using pool_wf_mem_free [OF cache_wfD(1) [OF wf], of i] cache_wfD(5) [OF wf, of i]
    by (auto simp: avail_def refs_def)
next
  case (Some n)
  then show ?thesis
    using pool_wf_mem_free [OF cache_wfD(1) [OF wf], of i] cache_wfD(5) [OF wf, of i] used_valid [OF Some]
    by (auto simp: avail_def refs_def)
qed

lemma avail_distinct:
  assumes wf: "cache_wf p c"
  shows "distinct (avail p c)"
proof -
  note D = cache_wfD [OF wf]
  have "inj_on ce_block_id (set (bc_idle_lru c))"
    using index_wf_inj [OF D(2)] D(4) by (meson inj_onI subsetD)
  moreover have "i \<notin> set (bp_free_list p)" if "i \<in> ce_block_id ` set (bc_idle_lru c)" for i
    using that D(5) [of i] pool_wf_mem_free [OF D(1), of i] by simp
  ultimately show ?thesis
    using D(3) pool_wf_free_distinct [OF D(1)] unfolding avail_def distinct_append distinct_map set_map
    by blast
qed

lemma cache_wf_take_free:
  assumes wf: "cache_wf p c" and q: "pool_wf q"
    "used q = (\<lambda>i. if i \<in> X then Some 1 else used p i)" "X \<subseteq> set (bp_free_list p)"
  shows "cache_wf q c"
proof -
  note D = cache_wfD [OF wf]
  have free: "used p i = None" if "i \<in> X" for i
    using that q(3) pool_wf_free_unused [OF D(1)] by blast
  have "used q i = Some 0 \<longleftrightarrow> i \<in> ce_block_id ` set (bc_idle_lru c)" for i
    using D(5) [of i] free [of i] q(2) by auto
  moreover have "used q (ce_block_id e) \<noteq> None" if "e \<in> set (bc_entries c)" for e
    using D(6) [OF that] q(2) by auto
  ultimately show ?thesis
    using D(2,3,4) q(1) unfolding cache_wf_def by blast
qed

lemma allocate_kv_ok:
  assumes wf: "cache_wf p c" and n: "0 < n"
  shows "\<exists>p' c'. allocate_kv_blocks dbg n p c =
      Some (if nat n \<le> length (avail p c)
            then Inr \<lparr>block_ids = take (nat n) (avail p c), shared_count = 0\<rparr>
            else Inl KVBlockExhausted, p', c') \<and>
    cache_wf p' c' \<and> pool_geom p' = pool_geom p \<and> avail p' c' = drop (nat n) (avail p c) \<and>
    refs p' = (\<lambda>i. if i \<in> set (take (nat n) (avail p c)) then 1 else refs p i) \<and>
    set (bc_entries c') \<subseteq> set (bc_entries c)"
proof -
  obtain q d where q: "evict_until dbg n p c = Some (q, d)" "cache_wf q d" "pool_geom q = pool_geom p"
      "refs q = refs p" "avail q d = avail p c" "set (bc_entries d) \<subseteq> set (bc_entries c)"
      and stop: "n \<le> num_free_blocks q \<or> bc_idle_lru d = []"
    using evict_until_ok [OF wf, of dbg n] by blast
  let ?fl = "bp_free_list q"
  obtain p' where p': "allocate_blocks dbg n q = Some (if nat n \<le> length ?fl
        then Inr \<lparr>block_ids = take (nat n) ?fl, shared_count = 0\<rparr> else Inl KVBlockExhausted, p')"
      "pool_wf p'" "bp_free_list p' = drop (nat n) ?fl" "pool_geom p' = pool_geom q"
      "used p' = (\<lambda>i. if i \<in> set (take (nat n) ?fl) then Some 1 else used q i)"
    using allocate_blocks_ok [OF cache_wfD(1) [OF q(2)] n, of dbg] by blast
  have wf': "cache_wf p' d"
    using cache_wf_take_free [OF q(2) p'(2,5)] set_take_subset by fastforce
  have front: "take (nat n) (avail q d) = take (nat n) ?fl"
      "drop (nat n) (avail q d) = drop (nat n) ?fl @ map ce_block_id (bc_idle_lru d)"
      "nat n \<le> length (avail q d) \<longleftrightarrow> nat n \<le> length ?fl"
    using stop by (auto simp: avail_def num_free_blocks_def)
  have "refs p' = (\<lambda>i. if i \<in> set (take (nat n) ?fl) then 1 else refs p i)"
    unfolding q(4) [symmetric] by (simp add: refs_def p'(5) fun_eq_iff)
  moreover have "avail p' d = drop (nat n) ?fl @ map ce_block_id (bc_idle_lru d)"
    by (simp add: avail_def p'(3))
  ultimately show ?thesis
    using p'(1,4) q wf' n front unfolding q(5) [symmetric] by (simp add: allocate_kv_blocks_def)
qed

section \<open>Releasing a table\<close>

lemma settle_loop_ok:
  assumes "cache_wf_pending Z p c" "Z \<subseteq> set ids - seen"
    "\<And>i. i \<in> set ids - seen \<Longrightarrow> \<exists>n. used p i = Some n \<and> (n = 0 \<longrightarrow> i \<in> Z)"
  shows "\<exists>p' c'. settle_loop dbg ids seen p c = Some (p', c') \<and> cache_wf p' c' \<and>
    bc_entries c' = bc_entries c \<and> pool_geom p' = pool_geom p \<and>
    used p' = used p |` (- {i \<in> Z. \<not> contains i c})"
  using assms
proof (induction ids arbitrary: seen Z p c)
  case Nil
  then have "Z = {}" by auto
  with Nil show ?case
    by (simp add: cache_wf_pending_empty restrict_map_def)
next
  case (Cons i ids)
  note D = cache_wf_pendingD [OF Cons.prems(1)]
  show ?case
  proof (cases "i \<in> seen")
    case True
    then show ?thesis
      using Cons.IH [OF Cons.prems(1), of seen] Cons.prems(2,3) by (auto simp: insert_Diff_if)
  next
    case False
    then obtain n where n: "used p i = Some n" "n = 0 \<longrightarrow> i \<in> Z"
      using Cons.prems(3) [of i] by auto
    note rc = ref_count_used [OF D(1) n(1)]
    show ?thesis
    proof (cases "n = 0")
      case nz: False
      have "i \<notin> Z" using D(5) [of i] n(1) nz by auto
      then show ?thesis
        using Cons.IH [OF Cons.prems(1), of "insert i seen"] Cons.prems(2,3) rc nz False by auto
    next
      case z: True
      then have iZ: "i \<in> Z" using n(2) by simp
      have Z': "Z - {i} \<subseteq> set ids - insert i seen"
        using Cons.prems(2) by auto
      show ?thesis
      proof (cases "contains i c")
        case cached: True
        obtain c' where c': "mark_idle dbg i p c = Some c'" "cache_wf_pending (Z - {i}) p c'"
            "bc_entries c' = bc_entries c"
          using mark_idle_ok [OF Cons.prems(1) iZ cached] by blast
        have "contains j c' = contains j c" for j
          using contains_iff [OF cache_wf_pendingD(2) [OF c'(2)]] contains_iff [OF D(2)] c'(3) by simp
        then have eq: "{j \<in> Z - {i}. \<not> contains j c'} = {j \<in> Z. \<not> contains j c}"
          using cached by auto
        have "\<exists>n. used p j = Some n \<and> (n = 0 \<longrightarrow> j \<in> Z - {i})" if "j \<in> set ids - insert i seen" for j
          using Cons.prems(3) [of j] that by auto
        from Cons.IH [OF c'(2) Z' this] show ?thesis
          using False z cached rc c'(1,3) unfolding eq by simp
      next
        case fresh: False
        obtain p' where p': "recycle dbg i p = Some p'" "cache_wf_pending (Z - {i}) p' c"
            "used p' = (used p)(i := None)" "pool_geom p' = pool_geom p"
          using recycle_pending_ok [OF Cons.prems(1) iZ fresh, of dbg] by blast
        have eq: "used p' |` (- {j \<in> Z - {i}. \<not> contains j c}) = used p |` (- {j \<in> Z. \<not> contains j c})"
          using iZ fresh by (auto simp: p'(3) restrict_map_def fun_eq_iff)
        have "\<exists>n. used p' j = Some n \<and> (n = 0 \<longrightarrow> j \<in> Z - {i})" if "j \<in> set ids - insert i seen" for j
          using Cons.prems(3) [of j] that p'(3) by auto
        from Cons.IH [OF p'(2) Z' this] show ?thesis
          using False z fresh rc p'(1,4) unfolding eq by simp
      qed
    qed
  qed
qed

lemma release_request_blocks_ok:
  assumes wf: "cache_wf p c" and own: "\<And>i. int (count_list (block_ids t) i) \<le> refs p i"
  shows "\<exists>p' c'. release_request_blocks dbg t p c = Some (p', c') \<and> cache_wf p' c' \<and>
    bc_entries c' = bc_entries c \<and> pool_geom p' = pool_geom p \<and>
    refs p' = (\<lambda>i. refs p i - int (count_list (block_ids t) i))"
proof -
  note D = cache_wfD [OF wf]
  let ?ids = "block_ids t"
  have held: "\<exists>n. used p i = Some n \<and> int (count_list ?ids i) \<le> n \<and> 0 < n" if "i \<in> set ?ids" for i
    using that own [of i] refs_pos_used [of p i] by (force simp: count_list_pos_iff [symmetric])
  then obtain q where q: "release_blocks dbg t p = Some q" "pool_wf q" "pool_geom q = pool_geom p"
      "used q = (\<lambda>i. map_option (\<lambda>n. n - int (count_list ?ids i)) (used p i))"
    using release_blocks_ok [OF D(1), of t dbg] by blast
  let ?Z = "{i \<in> set ?ids. used q i = Some 0}"
  have idle: "i \<notin> set ?ids" if "used p i = Some 0" for i
    using held [of i] that by auto
  have zero: "used q i = Some 0 \<longleftrightarrow> i \<in> ?Z \<or> i \<in> ce_block_id ` set (bc_idle_lru c)" for i
  proof (cases "i \<in> set ?ids")
    case True
    then show ?thesis using held [OF True] D(5) [of i] by auto
  next
    case False
    then show ?thesis using D(5) [of i] by (auto simp: q(4) count_list_0_iff)
  qed
  have "used q (ce_block_id e) \<noteq> None" if "e \<in> set (bc_entries c)" for e
    using D(6) [OF that] q(4) by auto
  then have pend: "cache_wf_pending ?Z q c"
    using q(2) D(2,3,4) zero D(5) idle unfolding cache_wf_pending_def by auto
  have live: "\<exists>n. used q i = Some n \<and> (n = 0 \<longrightarrow> i \<in> ?Z)" if "i \<in> set ?ids - {}" for i
    using held [of i] that q(4) by auto
  obtain p' c' where
    run: "settle_loop dbg ?ids {} q c = Some (p', c')" "cache_wf p' c'" "bc_entries c' = bc_entries c"
      "pool_geom p' = pool_geom q" "used p' = used q |` (- {i \<in> ?Z. \<not> contains i c})"
    using settle_loop_ok [of ?Z q c ?ids "{}" dbg, OF pend _ live] by auto
  have "refs p' i = refs p i - int (count_list ?ids i)" for i
    using own [of i] held [of i] by (cases "used p i") (auto simp: refs_def run(5) q(4) restrict_map_def)
  then show ?thesis
    using run q(1,3) by (simp add: release_request_blocks_def fun_eq_iff)
qed

section \<open>Ownership of block tables as an interface\<close>

text \<open>
  \<open>M\<close> is the multiset of block ids held by all live tables. Owning it means that every block has
  at least as many references as there are occurrences, so no owner's block can be recycled.
\<close>

definition owned :: "('b \<Rightarrow> int) \<Rightarrow> 'b multiset \<Rightarrow> bool" where
  "owned r M \<longleftrightarrow> (\<forall>i. int (count M i) \<le> r i)"

lemma ownedD: "owned r M \<Longrightarrow> int (count M i) \<le> r i"
  by (simp add: owned_def)

lemma owned_pos: "owned r M \<Longrightarrow> i \<in># M \<Longrightarrow> 0 < r i"
  using ownedD [of r M i] by (metis count_greater_zero_iff of_nat_0_less_iff order_less_le_trans)

lemma owned_mono: "owned r M \<Longrightarrow> N \<subseteq># M \<Longrightarrow> (\<And>i. r i \<le> r' i) \<Longrightarrow> owned r' N"
  unfolding owned_def by (meson mset_subset_eq_count of_nat_mono order_trans)

lemma count_list_mset: "count_list xs i = count (mset xs) i"
  by (induction xs) auto

locale kv_store =
  fixes wf :: "'s \<Rightarrow> bool"
    and rc :: "'s \<Rightarrow> 'b \<Rightarrow> int"
    and alloc :: "int \<Rightarrow> 's \<Rightarrow> ('b list option \<times> 's) option"
    and release :: "'b list \<Rightarrow> 's \<Rightarrow> 's option"
  assumes alloc_law: "wf s \<Longrightarrow> 0 < n \<Longrightarrow> \<exists>r s'. alloc n s = Some (r, s') \<and> wf s' \<and>
      (case r of None \<Rightarrow> \<forall>i. rc s i \<le> rc s' i
       | Some ids \<Rightarrow> length ids = nat n \<and> distinct ids \<and> (\<forall>i \<in> set ids. rc s i = 0) \<and>
           (\<forall>i. rc s' i = rc s i + int (count_list ids i)))"
    and release_law: "wf s \<Longrightarrow> (\<And>i. int (count_list ids i) \<le> rc s i) \<Longrightarrow>
      \<exists>s'. release ids s = Some s' \<and> wf s' \<and> (\<forall>i. rc s' i = rc s i - int (count_list ids i))"
begin

lemma alloc_owned:
  assumes "wf s" "owned (rc s) M" "0 < n"
  shows "\<exists>r s'. alloc n s = Some (r, s') \<and> wf s' \<and>
    (case r of None \<Rightarrow> owned (rc s') M
     | Some ids \<Rightarrow> length ids = nat n \<and> distinct ids \<and> set ids \<inter> set_mset M = {} \<and> owned (rc s') (mset ids + M))"
proof -
  obtain r s' where a: "alloc n s = Some (r, s')" "wf s'" and r: "case r of None \<Rightarrow> \<forall>i. rc s i \<le> rc s' i
       | Some ids \<Rightarrow> length ids = nat n \<and> distinct ids \<and> (\<forall>i \<in> set ids. rc s i = 0) \<and>
           (\<forall>i. rc s' i = rc s i + int (count_list ids i))"
    using alloc_law [OF assms(1,3)] by blast
  show ?thesis
  proof (cases r)
    case None
    then show ?thesis using a r assms(2) owned_mono [of "rc s" M M "rc s'"] by auto
  next
    case (Some ids)
    have "i \<notin># M" if "i \<in> set ids" for i
      using that r Some owned_pos [OF assms(2), of i] by auto
    moreover have "owned (rc s') (mset ids + M)"
      using r Some assms(2) by (auto simp: owned_def count_list_mset)
    ultimately show ?thesis using a r Some by auto
  qed
qed

lemma release_owned:
  assumes "wf s" "owned (rc s) (mset ids + M)"
  shows "\<exists>s'. release ids s = Some s' \<and> wf s' \<and> owned (rc s') M \<and> (\<forall>i. i \<notin> set ids \<longrightarrow> rc s' i = rc s i)"
proof -
  have le: "int (count_list ids i) + int (count M i) \<le> rc s i" for i
    using ownedD [OF assms(2), of i] by (simp add: count_list_mset)
  have "int (count_list ids i) \<le> rc s i" for i
    using le [of i] by simp
  then obtain s' where s': "release ids s = Some s'" "wf s'"
      and eq: "\<forall>i. rc s' i = rc s i - int (count_list ids i)"
    using release_law [OF assms(1)] by blast
  have "owned (rc s') M"
    unfolding owned_def using le eq by (simp add: le_diff_eq add.commute)
  then show ?thesis using s' eq by auto
qed

end

abbreviation kv_wf :: "BlockPool \<times> BlockCache \<Rightarrow> bool" where
  "kv_wf s \<equiv> cache_wf (fst s) (snd s)"

definition kv_alloc :: "bool \<Rightarrow> int \<Rightarrow> BlockPool \<times> BlockCache \<Rightarrow> (BlockId list option \<times> BlockPool \<times> BlockCache) option" where
  "kv_alloc dbg n s = map_option (\<lambda>(r, s'). (case r of Inl _ \<Rightarrow> None | Inr t \<Rightarrow> Some (block_ids t), s'))
     (allocate_kv_blocks dbg n (fst s) (snd s))"

definition kv_release :: "bool \<Rightarrow> BlockId list \<Rightarrow> BlockPool \<times> BlockCache \<Rightarrow> (BlockPool \<times> BlockCache) option" where
  "kv_release dbg ids s = release_request_blocks dbg \<lparr>block_ids = ids, shared_count = 0\<rparr> (fst s) (snd s)"

lemma release_request_blocks_ids: "release_request_blocks dbg t p c = kv_release dbg (block_ids t) (p, c)"
  by (simp add: kv_release_def release_request_blocks_def release_blocks_def)

interpretation kv: kv_store kv_wf "\<lambda>s. refs (fst s)" "kv_alloc dbg" "kv_release dbg" for dbg
proof
  fix s :: "BlockPool \<times> BlockCache" and n :: int assume wf: "kv_wf s" and n: "0 < n"
  obtain p c where s: "s = (p, c)" by (cases s)
  have zero: "refs p i = 0" "distinct (avail p c)" if "i \<in> set (take (nat n) (avail p c))" for i
    using that wf avail_iff [of p c i] avail_distinct [of p c] s by (auto dest: in_set_takeD)
  then have one: "(\<lambda>i. if i \<in> set (take (nat n) (avail p c)) then 1 else refs p i) =
      (\<lambda>i. refs p i + int (count_list (take (nat n) (avail p c)) i))"
    by (auto simp: fun_eq_iff distinct_count_list count_list_0_iff)
  have nn: "0 \<le> refs p i" for i
    using wf s refs_nonneg [OF cache_wfD(1)] by simp
  from allocate_kv_ok [of p c n dbg] wf n s obtain p' c' where
    "allocate_kv_blocks dbg n p c = Some (if nat n \<le> length (avail p c)
        then Inr \<lparr>block_ids = take (nat n) (avail p c), shared_count = 0\<rparr> else Inl KVBlockExhausted, p', c')"
    "cache_wf p' c'" "refs p' = (\<lambda>i. if i \<in> set (take (nat n) (avail p c)) then 1 else refs p i)"
    by auto
  then show "\<exists>r s'. kv_alloc dbg n s = Some (r, s') \<and> kv_wf s' \<and>
      (case r of None \<Rightarrow> \<forall>i. refs (fst s) i \<le> refs (fst s') i
       | Some ids \<Rightarrow> length ids = nat n \<and> distinct ids \<and> (\<forall>i \<in> set ids. refs (fst s) i = 0) \<and>
           (\<forall>i. refs (fst s') i = refs (fst s) i + int (count_list ids i)))"
    using zero avail_distinct [of p c] wf s unfolding one by (auto simp: kv_alloc_def)
next
  fix s :: "BlockPool \<times> BlockCache" and ids
  assume "kv_wf s" "\<And>i. int (count_list ids i) \<le> refs (fst s) i"
  then show "\<exists>s'. kv_release dbg ids s = Some s' \<and> kv_wf s' \<and>
      (\<forall>i. refs (fst s') i = refs (fst s) i - int (count_list ids i))"
    using release_request_blocks_ok [of "fst s" "snd s" "\<lparr>block_ids = ids, shared_count = 0\<rparr>" dbg]
    by (auto simp: kv_release_def)
qed

section \<open>The interface in terms of the code's operations\<close>

lemma allocate_kv_owned:
  assumes wf: "cache_wf p c" and own: "owned (refs p) M" and n: "0 < n"
  shows "yields (allocate_kv_blocks dbg n p c) (\<lambda>(res, p', c'). cache_wf p' c' \<and> pool_geom p' = pool_geom p \<and>
    (case res of Inl e \<Rightarrow> e = KVBlockExhausted \<and> owned (refs p') M
     | Inr t \<Rightarrow> length (block_ids t) = nat n \<and> owned (refs p') (mset (block_ids t) + M)))"
proof -
  obtain p' c' where a: "allocate_kv_blocks dbg n p c =
      Some (if nat n \<le> length (avail p c)
            then Inr \<lparr>block_ids = take (nat n) (avail p c), shared_count = 0\<rparr>
            else Inl KVBlockExhausted, p', c')" "cache_wf p' c'" "pool_geom p' = pool_geom p"
    using allocate_kv_ok [OF wf n, of dbg] by blast
  obtain r s' where "kv_alloc dbg n (p, c) = Some (r, s')"
      and r: "case r of None \<Rightarrow> owned (refs (fst s')) M
       | Some ids \<Rightarrow> length ids = nat n \<and> distinct ids \<and> set ids \<inter> set_mset M = {} \<and> owned (refs (fst s')) (mset ids + M)"
    using kv.alloc_owned [of "(p, c)" M n dbg] wf own n by auto
  then have "r = (if nat n \<le> length (avail p c) then Some (take (nat n) (avail p c)) else None)" "s' = (p', c')"
    using a(1) by (auto simp: kv_alloc_def)
  then show ?thesis
    using a r by (auto simp: yields_def split: if_splits)
qed

lemma release_request_owned:
  assumes wf: "cache_wf p c" and own: "owned (refs p) (mset (block_ids t) + M)"
  shows "yields (release_request_blocks dbg t p c) (\<lambda>(p', c'). cache_wf p' c' \<and> pool_geom p' = pool_geom p \<and>
    owned (refs p') M)"
proof -
  have le: "int (count_list (block_ids t) i) \<le> refs p i" for i
    using ownedD [OF own, of i] by (simp add: count_list_mset)
  show ?thesis
    using release_request_blocks_ok [OF wf le, of dbg] kv.release_owned [of "(p, c)" "block_ids t" M dbg] wf own
    by (auto simp: yields_def release_request_blocks_ids)
qed

lemma lookup_owned:
  assumes wf: "cache_wf p c" and own: "owned (refs p) M" and ne: "tokens \<noteq> []" and dbg: "\<not> dbg"
  shows "yields (lookup_prefix_cache dbg tokens salt p c) (\<lambda>(lk, p', c'). cache_wf p' c' \<and>
    pool_geom p' = pool_geom p \<and> owned (refs p') (mset (block_ids (pl_block_table lk)) + M) \<and>
    prefix_hit_blocks lk = table_size (pl_block_table lk) \<and>
    prefix_hit_blocks lk * bp_block_size p \<le> int (length tokens))"
proof -
  define ids where "ids = hit_ids c (prompt_chain salt (nat (bp_block_size p)) tokens)"
  have bs: "0 < bp_block_size p"
    using pool_wf_block_size [OF cache_wfD(1) [OF wf]] .
  obtain lk p' c' where run: "lookup_prefix_cache dbg tokens salt p c = Some (lk, p', c')" "cache_wf p' c'"
      "used p' = (\<lambda>i. map_option (\<lambda>n. n + int (count_list ids i)) (used p i))" "pool_frame p' = pool_frame p"
      and lk: "block_ids (pl_block_table lk) = ids" "prefix_hit_blocks lk = int (length ids)"
    using lookup_prefix_run [OF wf ne _ ids_def, of dbg] dbg by auto
  have hit: "longest_hit c salt (nat (bp_block_size p)) tokens ids"
    unfolding ids_def using hit_ids_longest [OF cache_wfD(2) [OF wf]] bs by simp
  then have "length ids * nat (bp_block_size p) \<le> length tokens"
    using bs by (simp add: longest_hit_def less_eq_div_iff_mult_less_eq)
  then have "int (length ids) * bp_block_size p \<le> int (length tokens)"
    using bs by (metis (mono_tags) int_nat_eq less_le of_nat_le_iff of_nat_mult)
  moreover have "refs p' i = refs p i + int (count_list ids i)" for i
  proof (cases "used p i")
    case None
    have "i \<notin> set ids"
    proof
      assume "i \<in> set ids"
      then obtain j where "j < length ids" "ids ! j = i" by (auto simp: in_set_conv_nth)
      then obtain e where "e \<in> set (bc_entries c)" "ce_block_id e = i"
        using hit unfolding longest_hit_def by blast
      then show False using cache_wfD(6) [OF wf, of e] None by simp
    qed
    then show ?thesis using None by (simp add: refs_def run(3) count_list_0_iff)
  qed (simp add: refs_def run(3))
  then have "owned (refs p') (mset ids + M)"
    using own by (simp add: owned_def count_list_mset)
  ultimately show ?thesis
    using run lk by (auto simp: yields_def table_size_def)
qed

section \<open>Properties\<close>

lemma allocate_kv_cases:
  assumes wf: "cache_wf p c" and n: "0 < n"
  shows "\<exists>p' c'. allocate_kv_blocks dbg n p c =
      Some (if n \<le> num_free_blocks p + int (num_idle_blocks c)
            then Inr \<lparr>block_ids = take (nat n) (avail p c), shared_count = 0\<rparr>
            else Inl KVBlockExhausted, p', c') \<and>
    cache_wf p' c' \<and> avail p' c' = drop (nat n) (avail p c) \<and>
    refs p' = (\<lambda>i. if i \<in> set (take (nat n) (avail p c)) then 1 else refs p i)"
proof -
  have "nat n \<le> length (avail p c) \<longleftrightarrow> n \<le> num_free_blocks p + int (num_idle_blocks c)"
    using n by (auto simp: avail_def num_free_blocks_def num_idle_blocks_def)
  then show ?thesis
    using allocate_kv_ok [OF wf n, of dbg] by auto
qed



text \<open>
  C15. A failed allocation leaks: when the free and idle blocks do not suffice, the call still
  evicts every idle block, takes every free block, and returns the error without a table. Afterwards
  no block is free or idle, and each block that was has one reference that no owner holds.
\<close>

theorem allocate_kv_blocks_leak:
  assumes wf: "cache_wf p c" and short: "num_free_blocks p + int (num_idle_blocks c) < n"
  shows "\<exists>p' c'. allocate_kv_blocks dbg n p c = Some (Inl KVBlockExhausted, p', c') \<and>
    num_free_blocks p' = 0 \<and> num_idle_blocks c' = 0 \<and>
    (\<forall>i. refs p' i = (if valid_id p i \<and> refs p i = 0 then 1 else refs p i))"
proof -
  have n: "0 < n"
    using short by (simp add: num_free_blocks_def num_idle_blocks_def)
  have all: "take (nat n) (avail p c) = avail p c" "drop (nat n) (avail p c) = []"
    using short by (simp_all add: avail_def num_free_blocks_def num_idle_blocks_def)
  obtain p' c' where "allocate_kv_blocks dbg n p c = Some (Inl KVBlockExhausted, p', c')"
      "avail p' c' = []" "refs p' = (\<lambda>i. if i \<in> set (avail p c) then 1 else refs p i)"
    using allocate_kv_cases [OF wf n, of dbg] short unfolding all by auto
  then show ?thesis
    using avail_iff [OF wf] by (simp add: avail_def num_free_blocks_def num_idle_blocks_def)
qed

theorem allocate_kv_blocks_leak_witness:
  "cache_wf ex_pool ex_cache \<and> num_free_blocks ex_pool + int (num_idle_blocks ex_cache) < 3 \<and>
   (\<exists>p' c'. allocate_kv_blocks True 3 ex_pool ex_cache = Some (Inl KVBlockExhausted, p', c') \<and>
    num_free_blocks p' = 0 \<and> num_idle_blocks c' = 0 \<and>
    (\<forall>i. refs p' i = (if valid_id ex_pool i \<and> refs ex_pool i = 0 then 1 else refs ex_pool i)))"
proof -
  have n: "num_free_blocks ex_pool + int (num_idle_blocks ex_cache) < 3"
    by (simp add: num_free_blocks_def num_idle_blocks_def ex_pool_def ex_cache_def cache_new_def)
  show ?thesis
    using allocate_kv_blocks_leak [OF ex_cache_wf n, of True] ex_cache_wf n by blast
qed

text \<open>
  C5. Releasing a table that its owner holds never fails: it drops exactly one reference per
  occurrence, keeps what the other owners \<open>M\<close> hold, and restores the invariant, so that a block left
  without references is idle when it is cached and free when it is not.
\<close>

theorem release_request_blocks_frees:
  assumes wf: "cache_wf p c" and own: "owned (refs p) (mset (block_ids t) + M)"
  shows "\<exists>p' c'. release_request_blocks dbg t p c = Some (p', c') \<and> cache_wf p' c' \<and> owned (refs p') M \<and>
    (\<forall>i. refs p' i = refs p i - int (count_list (block_ids t) i)) \<and>
    (\<forall>i \<in> set (block_ids t). refs p' i = 0 \<longrightarrow>
       (if contains i c then is_idle i c' else i \<in> set (bp_free_list p')))"
proof -
  have le: "int (count_list (block_ids t) i) \<le> refs p i" for i
    using ownedD [OF own, of i] by (simp add: count_list_mset)
  obtain p' c' where r: "release_request_blocks dbg t p c = Some (p', c')" "cache_wf p' c'"
      "bc_entries c' = bc_entries c" "refs p' = (\<lambda>i. refs p i - int (count_list (block_ids t) i))"
      and geom: "pool_geom p' = pool_geom p"
    using release_request_blocks_ok [OF wf le, of dbg] by blast
  have own': "owned (refs p') M"
    using kv.release_owned [of "(p, c)" "block_ids t" M dbg] wf own r(1)
    by (auto simp: release_request_blocks_ids)
  have settled: "if contains i c then is_idle i c' else i \<in> set (bp_free_list p')"
    if i: "i \<in> set (block_ids t)" "refs p' i = 0" for i
  proof -
    note D = cache_wfD [OF r(2)]
    have "0 < count_list (block_ids t) i"
      using i(1) count_list_pos_iff [of "block_ids t" i] by simp
    then have "0 < refs p i"
      using le [of i] by linarith
    then have valid: "valid_id p' i"
      using refs_pos_used used_valid valid_id_geom [OF geom] by blast
    have c: "contains i c' = contains i c"
      using contains_iff [OF D(2)] contains_iff [OF cache_wfD(2) [OF wf]] r(3) by simp
    have "used p' i \<noteq> None" if "contains i c'"
      using that D(6) contains_iff [OF D(2), of i] by auto
    moreover have "used p' i = None" if "\<not> contains i c'"
      using that i(2) D(5) [of i] D(4) contains_iff [OF D(2), of i]
      by (auto simp: refs_def split: option.splits)
    ultimately show ?thesis
      using i(2) is_idle_iff [OF r(2), of i] pool_wf_mem_free [OF D(1), of i] valid c
      by (auto simp: refs_def)
  qed
  show ?thesis
    using r own' settled by (intro exI [of _ p'] exI [of _ c']) (simp add: fun_eq_iff)
qed

theorem release_request_blocks_frees_witness:
  "cache_wf ex_pool ex_cache \<and> owned (refs ex_pool) (mset (block_ids \<lparr>block_ids = [0], shared_count = 0\<rparr>) + {#}) \<and>
   (\<exists>p' c'. release_request_blocks True \<lparr>block_ids = [0], shared_count = 0\<rparr> ex_pool ex_cache = Some (p', c') \<and>
    cache_wf p' c' \<and> owned (refs p') {#} \<and>
    (\<forall>i. refs p' i = refs ex_pool i - int (count_list (block_ids \<lparr>block_ids = [0], shared_count = 0\<rparr>) i)) \<and>
    (\<forall>i \<in> set (block_ids \<lparr>block_ids = [0], shared_count = 0\<rparr>). refs p' i = 0 \<longrightarrow>
       (if contains i ex_cache then is_idle i c' else i \<in> set (bp_free_list p'))))"
proof -
  have o: "owned (refs ex_pool) (mset (block_ids \<lparr>block_ids = [0], shared_count = 0\<rparr>) + {#})"
    by (simp add: owned_def refs_def ex_pool_used)
  show ?thesis
    using release_request_blocks_frees [OF ex_cache_wf o, of True] ex_cache_wf o by blast
qed

end
