(* ===== verification/Base_Types.thy ===== *)
theory Base_Types
  imports Block_Pool "HOL-Library.Word"
begin

text \<open>
  The types shared by scheduler, executor, worker and HTTP server, and the engine configuration:
  \<^verbatim>\<open>src/src/base/types.h\<close>, \<^verbatim>\<open>src/src/config/engine_config.{h,cpp}\<close>. A \<^verbatim>\<open>float\<close> is its 32-bit pattern
  (the code modelled here only copies it); a token channel with its executor is the number of the
  channel.
\<close>

type_synonym SequenceId = nat

datatype ForwardMode = FMPrefill | FMDecode | FMMixed

datatype WorkKind = WKPrefillChunk | WKDecodeOneToken

datatype RequestStatus = Active | Finished | Cancelled | Failed

record TokenSpan =
  span_start :: int
  span_length :: int

record PrefillChunk =
  pc_seq_id :: SequenceId
  pc_prompt_span :: TokenSpan
  pc_expected_context_len :: "int option"
  pc_needs_sample :: bool
  pc_tokens :: "int list"
  pc_block_table :: BlockTable

record DecodeOneToken =
  dt_seq_id :: SequenceId
  dt_input_token :: int
  dt_expected_context_len :: "int option"
  dt_write_kv :: bool
  dt_late_bind :: bool
  dt_block_table :: BlockTable

datatype WorkItem = Prefill_Work PrefillChunk | Decode_Work DecodeOneToken

fun work_sequence_id :: "WorkItem \<Rightarrow> SequenceId" where
  "work_sequence_id (Prefill_Work w) = pc_seq_id w"
| "work_sequence_id (Decode_Work w) = dt_seq_id w"

fun work_kind :: "WorkItem \<Rightarrow> WorkKind" where
  "work_kind (Prefill_Work w) = WKPrefillChunk"
| "work_kind (Decode_Work w) = WKDecodeOneToken"

fun work_token_count :: "WorkItem \<Rightarrow> int" where
  "work_token_count (Prefill_Work w) = span_length (pc_prompt_span w)"
| "work_token_count (Decode_Work w) = 1"

record SamplingParams =
  max_tokens :: int
  top_k :: int
  top_p :: "32 word"
  temperature :: "32 word"
  seed :: "32 word"
  eos_token_id :: int

record ScheduledBatch =
  sb_batch_id :: nat
  sb_items :: "WorkItem list"
  sb_sampling :: SamplingParams

record WorkItemResult =
  item_index :: int
  wr_seq_id :: SequenceId
  wr_kind :: WorkKind
  sampled_tokens :: "int list"
  tokens_consumed :: int
  wr_eos :: bool
  wr_stale :: bool

record BatchResult =
  br_batch_id :: nat
  br_items :: "WorkItemResult list"

record GeneratedToken =
  token_id :: int
  has_token :: bool
  gt_finished :: bool

type_synonym TokenSink = nat

record SchedulerRequest =
  req_request_id :: string
  req_prompt_tokens :: "int list"
  req_sampling :: SamplingParams
  req_max_context_len :: int
  req_sink :: TokenSink

record Capacity =
  cap_max_sequences :: int
  active_sequences :: int
  cap_free_blocks :: int
  cap_max_blocks :: int
  cap_block_size :: int
  cap_block_active :: int
  cap_block_cached_idle :: int
  prefix_lookup_hits :: nat
  prefix_lookup_misses :: nat
  prefix_evictions :: nat
  prefix_cached_blocks :: nat

section \<open>Default member initialisers\<close>

text \<open>\<open>0x3f800000\<close> is the pattern of \<^verbatim>\<open>1.0f\<close>.\<close>

definition default_sampling :: SamplingParams where
  "default_sampling = \<lparr>max_tokens = 256, top_k = 0, top_p = 0x3f800000, temperature = 0, seed = 42,
     eos_token_id = -1\<rparr>"

definition terminal_token :: GeneratedToken where
  "terminal_token = \<lparr>token_id = -1, has_token = False, gt_finished = True\<rparr>"

section \<open>Engine configuration\<close>

record EngineConfig =
  device_id :: int
  max_blocks :: int
  kv_block_size :: int
  max_sequences :: int
  max_running_requests :: int
  max_concurrent_batches :: int
  max_pending_requests :: int
  max_token_budget :: int
  max_seq_prefill_tokens :: int
  default_max_context_len :: int
  state_prefix_cache_blocks :: int

definition default_engine_config :: EngineConfig where
  "default_engine_config = \<lparr>device_id = 0, max_blocks = 1024, kv_block_size = 128, max_sequences = 64,
     max_running_requests = 16, max_concurrent_batches = 2, max_pending_requests = 256,
     max_token_budget = 4096, max_seq_prefill_tokens = 512, default_max_context_len = 2048,
     state_prefix_cache_blocks = 3\<rparr>"

definition validate :: "EngineConfig \<Rightarrow> unit result" where
  "validate cfg =
     (if device_id cfg < 0 \<or> max_blocks cfg \<le> 0 \<or> kv_block_size cfg \<le> 0 \<or> max_sequences cfg \<le> 0 \<or>
         max_running_requests cfg \<le> 0 \<or> max_running_requests cfg > max_sequences cfg \<or>
         max_concurrent_batches cfg \<le> 0 \<or> max_pending_requests cfg \<le> 0 \<or> max_token_budget cfg \<le> 0 \<or>
         max_seq_prefill_tokens cfg < 0 \<or> default_max_context_len cfg \<le> 0 \<or>
         state_prefix_cache_blocks cfg < 0 then Inl InvalidArgument
      else let max_context_capacity = max_blocks cfg * kv_block_size cfg in
        if max_context_capacity \<le> 0 \<or> max_context_capacity > INT_MAX \<or>
           default_max_context_len cfg > max_context_capacity then Inl InvalidArgument
        else Inr ())"

lemma validate_ok:
  assumes "validate cfg = Inr ()"
  shows "0 < max_blocks cfg" "0 < kv_block_size cfg" "max_blocks cfg * kv_block_size cfg \<le> INT_MAX"
    "0 < max_running_requests cfg" "max_running_requests cfg \<le> max_sequences cfg"
    "0 < max_token_budget cfg" "0 \<le> max_seq_prefill_tokens cfg" "0 < max_concurrent_batches cfg"
    "0 < default_max_context_len cfg" "default_max_context_len cfg \<le> max_blocks cfg * kv_block_size cfg"
    "0 < max_pending_requests cfg" "0 \<le> state_prefix_cache_blocks cfg"
  using assms by (auto simp: validate_def Let_def split: if_splits)

lemma validate_default: "validate default_engine_config = Inr ()"
  by (simp add: validate_def default_engine_config_def INT_MAX_def Let_def)

text \<open>
  A validated configuration always yields a well-formed pool: construction cannot fail its
  assertion in either build, and all \<open>max_blocks\<close> blocks are free in order.
\<close>

lemma validated_pool_create:
  assumes "validate cfg = Inr ()"
  shows "\<exists>p. pool_create dbg (max_blocks cfg) (kv_block_size cfg) = Some p \<and> pool_wf p \<and>
    used p = Map.empty \<and> bp_free_list p = map int [0..<nat (max_blocks cfg)]"
  using pool_create_ok [of "max_blocks cfg" "kv_block_size cfg" dbg] validate_ok [OF assms] by blast

end
