(* ===== verification/Scheduler_State.thy ===== *)
theory Scheduler_State
  imports Base_Types Kv_Blocks
begin

text \<open>
  State and event plumbing of the scheduler: \<^verbatim>\<open>src/src/scheduler/scheduler.h\<close> and the sending,
  releasing and queueing helpers of \<^verbatim>\<open>scheduler.cpp\<close>.

  \<^verbatim>\<open>RequestPtr\<close> is a \<^verbatim>\<open>shared_ptr\<close> that several queues hold, so requests live in a store \<open>sc_heap\<close> and
  the queues hold pointers. A \<^verbatim>\<open>RunningIterator\<close> is the pointer it designates (pointers are unique in
  the list). Two things other threads change while a scheduler function runs are given as
  prophecies: \<open>sc_stop_in\<close> says after how many further loads \<^verbatim>\<open>accepting_\<close> turns false, and
  \<open>sc_expires_in\<close> after how many further checks a client channel has expired. \<open>sc_events\<close> records the
  events posted to clients, \<open>sc_released\<close> the sequences released in the executor, and \<open>sc_exec_failed\<close>
  mirrors \<^verbatim>\<open>Worker::failed_sequences_\<close>, which no function of the scheduler reads.

  \<^verbatim>\<open>release_and_move_to_wait\<close> takes a reference to an element of \<^verbatim>\<open>running_\<close>, erases that element and then
  copies the reference. What the read of the destroyed list node gives is outside the language, so
  it is a parameter of the state: \<open>sc_freed_node r\<close> is the pointer read from the node that held \<open>r\<close>,
  \<open>None\<close> when the read does not give a pointer.
\<close>

datatype GenerationPhase = Prefill | ReplayPrefill | Bootstrap | Decode

record SequenceReservation =
  execution_leases :: int
  reserved_prompt_tokens :: int
  reserved_generation_tokens :: int
  reserved_kv_tokens :: int

record SequenceScheduleCursor =
  phase :: GenerationPhase
  prefill_cursor :: int
  generated_tokens_in_prompt :: int

record SequenceSchedulingState =
  ss_seq_id :: SequenceId
  reservation :: SequenceReservation
  cursor :: SequenceScheduleCursor
  ss_block_table :: BlockTable
  executed_frontier :: int
  ss_parent_hash :: hash
  pending_hash_tokens :: "int list"

record RequestState =
  rs_request_id :: string
  initial_prompt_tokens :: "int list"
  prompt_tokens :: "int list"
  status :: RequestStatus
  generated_tokens :: "int list"
  rs_sampling :: SamplingParams
  rs_max_context_len :: int
  rs_sink :: TokenSink
  scheduling :: "SequenceSchedulingState option"

type_synonym RequestPtr = nat

record Scheduler =
  sc_config :: EngineConfig
  sc_heap :: "RequestPtr \<Rightarrow> RequestState"
  sc_next_ptr :: RequestPtr
  sc_requests :: "string \<rightharpoonup> RequestPtr"
  sc_waiting :: "RequestPtr list"
  sc_skip :: "RequestPtr list"
  sc_running :: "RequestPtr list"
  sc_by_seq_id :: "SequenceId \<rightharpoonup> RequestPtr"
  sc_admission_paused :: bool
  sc_block_shortage_pending :: bool
  sc_accepting :: bool
  sc_next_batch_id :: nat
  sc_next_seq_id :: nat
  sc_block_pool :: BlockPool
  sc_block_cache :: BlockCache
  sc_shutdown_requested :: bool
  sc_shutdown_done_sent :: bool
  sc_stop_in :: "nat option"
  sc_expires_in :: "TokenSink \<rightharpoonup> nat"
  sc_freed_node :: "RequestPtr \<rightharpoonup> RequestPtr"
  sc_events :: "(TokenSink \<times> GeneratedToken result) list"
  sc_released :: "SequenceId list"
  sc_exec_failed :: "SequenceId set"

record BatchBuildContext =
  ctx_batch :: ScheduledBatch
  token_budget :: int
  ctx_block_size :: int
  sampling_set :: bool

section \<open>Shared state other threads write\<close>

definition accepting_load :: "Scheduler \<Rightarrow> bool \<times> Scheduler" where
  "accepting_load s =
     (if sc_accepting s then
        (case sc_stop_in s of
           None \<Rightarrow> (True, s)
         | Some 0 \<Rightarrow> (False, s\<lparr>sc_accepting := False, sc_stop_in := None\<rparr>)
         | Some (Suc n) \<Rightarrow> (True, s\<lparr>sc_stop_in := Some n\<rparr>))
      else (False, s))"

definition channel_expired :: "TokenSink \<Rightarrow> Scheduler \<Rightarrow> bool \<times> Scheduler" where
  "channel_expired sink s =
     (case sc_expires_in s sink of
        None \<Rightarrow> (False, s)
      | Some 0 \<Rightarrow> (True, s)
      | Some (Suc n) \<Rightarrow> (False, s\<lparr>sc_expires_in := (sc_expires_in s)(sink \<mapsto> n)\<rparr>))"

section \<open>Requests in the store\<close>

definition upd_req :: "RequestPtr \<Rightarrow> (RequestState \<Rightarrow> RequestState) \<Rightarrow> Scheduler \<Rightarrow> Scheduler" where
  "upd_req r f s = s\<lparr>sc_heap := (sc_heap s)(r := f (sc_heap s r))\<rparr>"

definition upd_sched ::
    "RequestPtr \<Rightarrow> (SequenceSchedulingState \<Rightarrow> SequenceSchedulingState) \<Rightarrow> Scheduler \<Rightarrow> Scheduler" where
  "upd_sched r f s = upd_req r (\<lambda>st. st\<lparr>scheduling := map_option f (scheduling st)\<rparr>) s"

definition generated_token_count :: "RequestState \<Rightarrow> int" where
  "generated_token_count st = int (length (generated_tokens st))"

definition is_schedulable_state :: "RequestState \<Rightarrow> bool" where
  "is_schedulable_state st \<longleftrightarrow> status st = Active \<and> scheduling st \<noteq> None"

definition is_prefill_phase :: "GenerationPhase \<Rightarrow> bool" where
  "is_prefill_phase ph \<longleftrightarrow> ph = Prefill \<or> ph = ReplayPrefill"

definition is_decode_phase :: "GenerationPhase \<Rightarrow> bool" where
  "is_decode_phase ph \<longleftrightarrow> ph = Bootstrap \<or> ph = Decode"

fun kv_token_count :: "WorkItem \<Rightarrow> int" where
  "kv_token_count (Prefill_Work w) = span_length (pc_prompt_span w)"
| "kv_token_count (Decode_Work w) = (if dt_write_kv w then 1 else 0)"

section \<open>Events\<close>

definition send_event :: "TokenSink \<Rightarrow> GeneratedToken result \<Rightarrow> Scheduler \<Rightarrow> bool \<times> Scheduler" where
  "send_event sink ev s = (case channel_expired sink s of
     (True, s') \<Rightarrow> (False, s')
   | (False, s') \<Rightarrow> (True, s'\<lparr>sc_events := sc_events s' @ [(sink, ev)]\<rparr>))"

definition send_token_event :: "RequestPtr \<Rightarrow> Scheduler \<Rightarrow> (bool \<times> Scheduler) option" where
  "send_token_event r s = do {
     let st = sc_heap s r;
     require (generated_tokens st \<noteq> []);
     let (sent, s') = send_event (rs_sink st)
       (Inr \<lparr>token_id = last (generated_tokens st), has_token = True, gt_finished = (status st = Finished)\<rparr>) s;
     Some (sent, if \<not> sent \<and> status st = Active then upd_req r (\<lambda>st. st\<lparr>status := Cancelled\<rparr>) s' else s')
   }"

definition send_terminal_event :: "RequestPtr \<Rightarrow> Scheduler \<Rightarrow> bool \<times> Scheduler" where
  "send_terminal_event r s =
     send_event (rs_sink (sc_heap s r)) (Inr terminal_token) (upd_req r (\<lambda>st. st\<lparr>status := Finished\<rparr>) s)"

definition send_error_event :: "RequestPtr \<Rightarrow> ErrorCode \<Rightarrow> Scheduler \<Rightarrow> bool \<times> Scheduler" where
  "send_error_event r err s =
     send_event (rs_sink (sc_heap s r)) (Inl err) (upd_req r (\<lambda>st. st\<lparr>status := Failed\<rparr>) s)"

section \<open>Registry, blocks and queues\<close>

definition erase_request :: "bool \<Rightarrow> RequestPtr \<Rightarrow> Scheduler \<Rightarrow> Scheduler option" where
  "erase_request dbg r s = do {
     assert_that dbg (scheduling (sc_heap s r) = None);
     Some (s\<lparr>sc_requests := (sc_requests s)(rs_request_id (sc_heap s r) := None)\<rparr>)
   }"

definition prepare_for_wait :: "RequestState \<Rightarrow> RequestState" where
  "prepare_for_wait st =
     (if generated_tokens st = [] then st
      else st\<lparr>prompt_tokens := initial_prompt_tokens st @ butlast (generated_tokens st)\<rparr>)"

definition release_scheduling_blocks :: "bool \<Rightarrow> RequestPtr \<Rightarrow> Scheduler \<Rightarrow> Scheduler option" where
  "release_scheduling_blocks dbg r s = (case scheduling (sc_heap s r) of
     None \<Rightarrow> Some s
   | Some sch \<Rightarrow> do {
       (p, c) \<leftarrow> release_request_blocks dbg (ss_block_table sch) (sc_block_pool s) (sc_block_cache s);
       Some (upd_req r (\<lambda>st. st\<lparr>scheduling := None\<rparr>)
         (s\<lparr>sc_by_seq_id := (sc_by_seq_id s)(ss_seq_id sch := None),
            sc_block_pool := p, sc_block_cache := c\<rparr>))
     })"

definition release_and_move_to_wait :: "bool \<Rightarrow> RequestPtr \<Rightarrow> Scheduler \<Rightarrow> Scheduler option" where
  "release_and_move_to_wait dbg r s =
     (if scheduling (sc_heap s r) = None then Some s
      else do {
        s \<leftarrow> release_scheduling_blocks dbg r (upd_req r prepare_for_wait s);
        let s = s\<lparr>sc_running := remove1 r (sc_running s)\<rparr>;
        request \<leftarrow> sc_freed_node s r;
        Some (s\<lparr>sc_waiting := request # sc_waiting s\<rparr>)
      })"

definition retire_reservation :: "WorkItem \<Rightarrow> RequestState \<Rightarrow> RequestState" where
  "retire_reservation item st = st\<lparr>scheduling := map_option (\<lambda>sch.
     sch\<lparr>reservation := (let rv = reservation sch;
        leases = (if execution_leases rv > 0 then execution_leases rv - 1 else execution_leases rv);
        gen = reserved_generation_tokens rv;
        gen' = (if gen > 0 then gen - 1 else gen)
      in case item of
           Prefill_Work w \<Rightarrow> rv\<lparr>execution_leases := leases,
             reserved_prompt_tokens := max 0 (reserved_prompt_tokens rv - span_length (pc_prompt_span w)),
             reserved_generation_tokens := (if pc_needs_sample w then gen' else gen),
             reserved_kv_tokens := max 0 (reserved_kv_tokens rv - kv_token_count item)\<rparr>
         | Decode_Work w \<Rightarrow> rv\<lparr>execution_leases := leases,
             reserved_generation_tokens := gen',
             reserved_kv_tokens := max 0 (reserved_kv_tokens rv - kv_token_count item)\<rparr>)\<rparr>)
     (scheduling st)\<rparr>"

end
