(* ===== verification/Scheduler_Ops.thy ===== *)
theory Scheduler_Ops
  imports Scheduler_State "HOL-Library.Signed_Division"
begin

text \<open>
  The operations of \<^verbatim>\<open>src/src/scheduler/scheduler.cpp\<close>, in the order of the file. Every function runs
  on the scheduler thread; the coroutines among them never suspend inside (they await only each
  other), so each is one atomic step. \<open>dbg\<close> says whether assertions are compiled in.
\<close>

section \<open>Construction and requests\<close>

definition scheduler_new :: "bool \<Rightarrow> EngineConfig \<Rightarrow> (RequestPtr \<Rightarrow> RequestState) \<Rightarrow> (RequestPtr \<rightharpoonup> RequestPtr) \<Rightarrow>
    Scheduler option" where
  "scheduler_new dbg cfg heap freed = do {
     p \<leftarrow> pool_create dbg (max_blocks cfg) (kv_block_size cfg);
     Some \<lparr>sc_config = cfg, sc_heap = heap, sc_next_ptr = 0, sc_requests = Map.empty,
       sc_waiting = [], sc_skip = [], sc_running = [], sc_by_seq_id = Map.empty,
       sc_admission_paused = False, sc_block_shortage_pending = False, sc_accepting = False,
       sc_next_batch_id = 1, sc_next_seq_id = 1, sc_block_pool = p, sc_block_cache = cache_new,
       sc_shutdown_requested = False, sc_shutdown_done_sent = False, sc_stop_in = None,
       sc_expires_in = Map.empty, sc_freed_node = freed, sc_events = [], sc_released = [], sc_exec_failed = {}\<rparr>
   }"

definition capacity :: "Scheduler \<Rightarrow> Capacity" where
  "capacity s = (let st = stats (sc_block_pool s) (sc_block_cache s) in
     \<lparr>cap_max_sequences = max_sequences (sc_config s),
      active_sequences = int (length (sc_running s) + length (sc_skip s)),
      cap_free_blocks = block_free st, cap_max_blocks = block_total st, cap_block_size = st_block_size st,
      cap_block_active = block_active st, cap_block_cached_idle = block_cached_idle st,
      prefix_lookup_hits = lookup_hits st, prefix_lookup_misses = lookup_misses st,
      prefix_evictions = evictions st, prefix_cached_blocks = cached_blocks st\<rparr>)"

definition new_request :: "SchedulerRequest \<Rightarrow> int \<Rightarrow> RequestState" where
  "new_request req max_context_len = \<lparr>rs_request_id = req_request_id req,
     initial_prompt_tokens = req_prompt_tokens req, prompt_tokens = req_prompt_tokens req,
     status = Active, generated_tokens = [], rs_sampling = req_sampling req,
     rs_max_context_len = max_context_len, rs_sink = req_sink req, scheduling = None\<rparr>"

definition submit_on_scheduler_thread :: "SchedulerRequest \<Rightarrow> Scheduler \<Rightarrow> Scheduler" where
  "submit_on_scheduler_thread req s =
     (if sc_requests s (req_request_id req) \<noteq> None then snd (send_event (req_sink req) (Inl InvalidArgument) s)
      else if int (length (sc_waiting s)) \<ge> size_cast (max_pending_requests (sc_config s)) then
        snd (send_event (req_sink req) (Inl RequestQueueFull) s)
      else
        let len = (if req_max_context_len req \<le> 0 then default_max_context_len (sc_config s)
                   else req_max_context_len req);
            r = sc_next_ptr s
        in s\<lparr>sc_heap := (sc_heap s)(r := new_request req len), sc_next_ptr := r + 1,
             sc_requests := (sc_requests s)(req_request_id req \<mapsto> r),
             sc_waiting := sc_waiting s @ [r]\<rparr>)"

definition submit_posted :: "SchedulerRequest \<Rightarrow> Scheduler \<Rightarrow> Scheduler" where
  "submit_posted req s = (case accepting_load s of
     (False, s') \<Rightarrow> snd (send_event (req_sink req) (Inl ServerShuttingDown) s')
   | (True, s') \<Rightarrow> submit_on_scheduler_thread req s')"

definition cancel_on_scheduler_thread :: "string \<Rightarrow> Scheduler \<Rightarrow> Scheduler" where
  "cancel_on_scheduler_thread request_id s = (case sc_requests s request_id of
     None \<Rightarrow> s
   | Some r \<Rightarrow> if status (sc_heap s r) = Active then upd_req r (\<lambda>st. st\<lparr>status := Cancelled\<rparr>) s else s)"

definition complete_shutdown_on_scheduler_thread :: "Scheduler \<Rightarrow> Scheduler" where
  "complete_shutdown_on_scheduler_thread s =
     (if sc_shutdown_done_sent s then s else s\<lparr>sc_shutdown_done_sent := True\<rparr>)"

section \<open>Building work\<close>

definition div_up :: "int \<Rightarrow> int \<Rightarrow> int option" where
  "div_up n d = do { require (n + d - 1 \<le> INT_MAX); Some ((n + d - 1) div d) }"

definition select_sampling :: "RequestState \<Rightarrow> BatchBuildContext \<Rightarrow> BatchBuildContext" where
  "select_sampling st ctx =
     (if sampling_set ctx then ctx
      else ctx\<lparr>ctx_batch := (ctx_batch ctx)\<lparr>sb_sampling := rs_sampling st\<rparr>, sampling_set := True\<rparr>)"

definition push_item :: "WorkItem \<Rightarrow> BatchBuildContext \<Rightarrow> BatchBuildContext" where
  "push_item w ctx = ctx\<lparr>ctx_batch := (ctx_batch ctx)\<lparr>sb_items := sb_items (ctx_batch ctx) @ [w]\<rparr>\<rparr>"

definition build_prefill_work :: "BatchBuildContext \<Rightarrow> RequestPtr \<Rightarrow> SequenceSchedulingState \<Rightarrow> Scheduler \<Rightarrow>
    (BatchBuildContext \<times> Scheduler) option" where
  "build_prefill_work ctx r sch s = (let st = sc_heap s r; rv = reservation sch;
       prompt_len = int (length (prompt_tokens st));
       prompt_start = prefill_cursor (cursor sch) + reserved_prompt_tokens rv in
     if prompt_start \<ge> prompt_len then Some (ctx, s)
     else let chunk_len = prompt_len - prompt_start;
       chunk_len = (if max_seq_prefill_tokens (sc_config s) > 0
                    then min chunk_len (max_seq_prefill_tokens (sc_config s)) else chunk_len);
       chunk_len = min chunk_len (token_budget ctx) in
     if chunk_len \<le> 0 then Some (ctx, s)
     else let ctx = select_sampling st ctx;
       final_chunk = (prompt_start + chunk_len \<ge> prompt_len);
       replay = (phase (cursor sch) = ReplayPrefill);
       needs_sample = (final_chunk \<and> \<not> (replay \<and> generated_tokens st \<noteq> [])) in do {
       require (prompt_start \<ge> 0);
       let w = \<lparr>pc_seq_id = ss_seq_id sch,
         pc_prompt_span = \<lparr>span_start = prompt_start, span_length = chunk_len\<rparr>,
         pc_expected_context_len = Some (executed_frontier sch + reserved_kv_tokens rv),
         pc_needs_sample = needs_sample,
         pc_tokens = take (nat chunk_len) (drop (nat prompt_start) (prompt_tokens st)),
         pc_block_table = ss_block_table sch\<rparr>;
       let rv' = rv\<lparr>reserved_prompt_tokens := reserved_prompt_tokens rv + chunk_len,
         reserved_kv_tokens := reserved_kv_tokens rv + chunk_len,
         reserved_generation_tokens := reserved_generation_tokens rv + (if needs_sample then 1 else 0),
         execution_leases := execution_leases rv + 1\<rparr>;
       Some ((push_item (Prefill_Work w) ctx)\<lparr>token_budget := token_budget ctx - chunk_len\<rparr>,
             upd_sched r (\<lambda>sch. sch\<lparr>reservation := rv'\<rparr>) s)
     })"

definition grow_table :: "bool \<Rightarrow> int \<Rightarrow> RequestPtr \<Rightarrow> SequenceSchedulingState \<Rightarrow> Scheduler \<Rightarrow>
    (SequenceSchedulingState option \<times> Scheduler) option" where
  "grow_table dbg required_blocks r sch s =
     (if required_blocks > table_size (ss_block_table sch) then do {
        (res, p, c) \<leftarrow> allocate_kv_blocks dbg (required_blocks - table_size (ss_block_table sch))
          (sc_block_pool s) (sc_block_cache s);
        let s = s\<lparr>sc_block_pool := p, sc_block_cache := c\<rparr>;
        case res of
          Inl _ \<Rightarrow> Some (None, s\<lparr>sc_block_shortage_pending := True\<rparr>)
        | Inr blocks \<Rightarrow>
            let t = foldl table_push_back (ss_block_table sch) (block_ids blocks) in
            Some (Some (sch\<lparr>ss_block_table := t\<rparr>), upd_sched r (\<lambda>sch. sch\<lparr>ss_block_table := t\<rparr>) s)
      } else Some (Some sch, s))"

definition build_decode_work :: "bool \<Rightarrow> BatchBuildContext \<Rightarrow> RequestPtr \<Rightarrow> SequenceSchedulingState \<Rightarrow> Scheduler \<Rightarrow>
    (BatchBuildContext \<times> Scheduler) option" where
  "build_decode_work dbg ctx r sch s = (let st = sc_heap s r; rv = reservation sch;
       ctx = select_sampling st ctx in
     if generated_token_count st + reserved_generation_tokens rv \<ge> max_tokens (rs_sampling st) then Some (ctx, s)
     else if phase (cursor sch) = Bootstrap \<and> reserved_generation_tokens rv > 0 then Some (ctx, s)
     else do {
       let bootstrap = (phase (cursor sch) = Bootstrap);
       assert_that dbg (bootstrap \<longrightarrow> prompt_tokens st \<noteq> []);
       require (bootstrap \<longrightarrow> prompt_tokens st \<noteq> []);
       let input_token = (if bootstrap then last (prompt_tokens st) else 0);
       let write_kv = (\<not> bootstrap);
       let committed_context = int (length (prompt_tokens st)) + generated_token_count st -
         generated_tokens_in_prompt (cursor sch);
       if committed_context + reserved_generation_tokens rv \<ge> rs_max_context_len st then
         Some (ctx, if reserved_generation_tokens rv = 0 then snd (send_terminal_event r s) else s)
       else do {
         let context_len = executed_frontier sch + reserved_kv_tokens rv;
         required_blocks \<leftarrow> div_up (context_len + (if write_kv then 1 else 0)) (bp_block_size (sc_block_pool s));
         (grown, s) \<leftarrow> grow_table dbg required_blocks r sch s;
         case grown of
           None \<Rightarrow> Some (ctx, s)
         | Some sch \<Rightarrow>
             let w = \<lparr>dt_seq_id = ss_seq_id sch, dt_input_token = input_token,
                   dt_expected_context_len = Some context_len, dt_write_kv = write_kv,
                   dt_late_bind = (\<not> bootstrap), dt_block_table = ss_block_table sch\<rparr>;
                 rv' = rv\<lparr>reserved_generation_tokens := reserved_generation_tokens rv + 1,
                   reserved_kv_tokens := reserved_kv_tokens rv + (if write_kv then 1 else 0),
                   execution_leases := execution_leases rv + 1\<rparr>
             in Some ((push_item (Decode_Work w) ctx)\<lparr>token_budget := token_budget ctx - 1\<rparr>,
                  upd_sched r (\<lambda>sch. sch\<lparr>reservation := rv'\<rparr>) s)
       }
     })"

definition build_state_work :: "bool \<Rightarrow> BatchBuildContext \<Rightarrow> RequestPtr \<Rightarrow> Scheduler \<Rightarrow>
    (BatchBuildContext \<times> Scheduler) option" where
  "build_state_work dbg ctx r s = (let st = sc_heap s r in
     case scheduling st of
       None \<Rightarrow> Some (ctx, s)
     | Some sch \<Rightarrow>
         if token_budget ctx \<le> 0 \<or> \<not> is_schedulable_state st then Some (ctx, s)
         else if generated_token_count st \<ge> max_tokens (rs_sampling st) then Some (ctx, snd (send_terminal_event r s))
         else if is_prefill_phase (phase (cursor sch)) then build_prefill_work ctx r sch s
         else if \<not> is_decode_phase (phase (cursor sch)) then Some (ctx, s)
         else build_decode_work dbg ctx r sch s)"

fun build_running_loop :: "bool \<Rightarrow> RequestPtr list \<Rightarrow> BatchBuildContext \<Rightarrow> Scheduler \<Rightarrow>
    (BatchBuildContext \<times> Scheduler) option" where
  "build_running_loop dbg [] ctx s = Some (ctx, s)"
| "build_running_loop dbg (r # rs) ctx s =
     (if token_budget ctx \<le> 0 then Some (ctx, s)
      else do {
        (ctx', s') \<leftarrow> build_state_work dbg ctx r s;
        build_running_loop dbg rs ctx' s'
      })"

definition build_running_batch :: "bool \<Rightarrow> BatchBuildContext \<Rightarrow> Scheduler \<Rightarrow> (BatchBuildContext \<times> Scheduler) option" where
  "build_running_batch dbg ctx s = build_running_loop dbg (sc_running s) ctx s"

section \<open>Admission\<close>

definition drop_request :: "bool \<Rightarrow> GeneratedToken result \<Rightarrow> RequestPtr \<Rightarrow> Scheduler \<Rightarrow> Scheduler option" where
  "drop_request dbg ev r s = erase_request dbg r (snd (send_event (rs_sink (sc_heap s r)) ev s))"

definition admit_one_skipped :: "bool \<Rightarrow> BatchBuildContext \<Rightarrow> Scheduler \<Rightarrow>
    (bool \<times> BatchBuildContext \<times> Scheduler) option" where
  "admit_one_skipped dbg ctx s =
     (if token_budget ctx \<le> 0 \<or> sc_skip s = [] \<or>
         int (length (sc_running s)) \<ge> size_cast (max_running_requests (sc_config s)) then Some (False, ctx, s)
      else let r = hd (sc_skip s); s = s\<lparr>sc_skip := tl (sc_skip s)\<rparr>; st = sc_heap s r in
      if status st = Cancelled then do {
        s \<leftarrow> release_scheduling_blocks dbg r s;
        s \<leftarrow> drop_request dbg (Inl RequestCancelled) r s;
        Some (True, ctx, s)
      } else if max_tokens (rs_sampling st) \<le> 0 then do {
        s \<leftarrow> release_scheduling_blocks dbg r s;
        s \<leftarrow> drop_request dbg (Inr terminal_token) r s;
        Some (True, ctx, s)
      } else (case scheduling st of
        None \<Rightarrow> Some (False, ctx, s\<lparr>sc_waiting := r # sc_waiting s\<rparr>)
      | Some sch \<Rightarrow> (case accepting_load s of
          (False, s) \<Rightarrow> do {
            s \<leftarrow> release_scheduling_blocks dbg r s;
            s \<leftarrow> drop_request dbg (Inl ServerShuttingDown) r s;
            Some (True, ctx, s)
          }
        | (True, s) \<Rightarrow>
            if generated_token_count st \<ge> max_tokens (rs_sampling st) then do {
              s \<leftarrow> release_scheduling_blocks dbg r s;
              s \<leftarrow> erase_request dbg r (snd (send_terminal_event r s));
              Some (True, ctx, s)
            } else do {
              (ctx, s) \<leftarrow> build_state_work dbg ctx r
                (s\<lparr>sc_by_seq_id := (sc_by_seq_id s)(ss_seq_id sch \<mapsto> r), sc_running := sc_running s @ [r]\<rparr>);
              Some (True, ctx, s)
            })))"

definition evict_one_skipped :: "bool \<Rightarrow> Scheduler \<Rightarrow> (bool \<times> Scheduler) option" where
  "evict_one_skipped dbg s = (case sc_skip s of
     [] \<Rightarrow> Some (False, s)
   | r # rest \<Rightarrow> let s = s\<lparr>sc_skip := rest\<rparr> in
       if scheduling (sc_heap s r) = None then Some (True, s\<lparr>sc_waiting := r # sc_waiting s\<rparr>)
       else do {
         s \<leftarrow> release_scheduling_blocks dbg r (upd_req r prepare_for_wait s);
         Some (True, s\<lparr>sc_waiting := r # sc_waiting s\<rparr>)
       })"

definition suspendable :: "bool \<Rightarrow> RequestState \<Rightarrow> bool" where
  "suspendable prefill_phase st = (case scheduling st of
     None \<Rightarrow> False
   | Some sch \<Rightarrow> prefill_phase = is_prefill_phase (phase (cursor sch)) \<and>
       is_schedulable_state st \<and> execution_leases (reservation sch) = 0)"

definition request_blocks :: "RequestState \<Rightarrow> int" where
  "request_blocks st = (case scheduling st of None \<Rightarrow> 0 | Some sch \<Rightarrow> table_size (ss_block_table sch))"

fun find_smallest_loop :: "Scheduler \<Rightarrow> bool \<Rightarrow> RequestPtr list \<Rightarrow> RequestPtr option \<Rightarrow> int \<Rightarrow> RequestPtr option" where
  "find_smallest_loop s prefill_phase [] best best_blocks = best"
| "find_smallest_loop s prefill_phase (r # rs) best best_blocks =
     (if suspendable prefill_phase (sc_heap s r) \<and> request_blocks (sc_heap s r) < best_blocks
      then find_smallest_loop s prefill_phase rs (Some r) (request_blocks (sc_heap s r))
      else find_smallest_loop s prefill_phase rs best best_blocks)"

definition find_smallest :: "Scheduler \<Rightarrow> bool \<Rightarrow> RequestPtr option" where
  "find_smallest s prefill_phase = find_smallest_loop s prefill_phase (rev (sc_running s)) None INT_MAX"

definition suspend_one_running :: "bool \<Rightarrow> Scheduler \<Rightarrow> (bool \<times> Scheduler) option" where
  "suspend_one_running dbg s =
     (case (case find_smallest s True of None \<Rightarrow> find_smallest s False | Some r \<Rightarrow> Some r) of
        None \<Rightarrow> Some (False, s)
      | Some r \<Rightarrow> do {
          s \<leftarrow> release_and_move_to_wait dbg r s;
          Some (True, s\<lparr>sc_admission_paused := (sc_running s \<noteq> [])\<rparr>)
        })"

definition make_room :: "bool \<Rightarrow> Scheduler \<Rightarrow> Scheduler option" where
  "make_room dbg s = do {
     (evicted, s) \<leftarrow> evict_one_skipped dbg s;
     if evicted then Some s else do { (_, s) \<leftarrow> suspend_one_running dbg s; Some s }
   }"

definition admitted_state :: "RequestState \<Rightarrow> SequenceId \<Rightarrow> PrefixLookup \<Rightarrow> BlockTable \<Rightarrow> int \<Rightarrow> SequenceSchedulingState" where
  "admitted_state st sid lk table block_size = (let
       prompt_len = int (length (prompt_tokens st));
       frontier = prefix_hit_blocks lk * block_size;
       in_prompt = (if generated_tokens st \<noteq> [] then generated_token_count st - 1 else 0);
       cur = \<lparr>phase = Prefill, prefill_cursor = 0, generated_tokens_in_prompt = in_prompt\<rparr>;
       cur = (if frontier > 0 \<and> frontier < prompt_len then
                cur\<lparr>prefill_cursor := frontier,
                    phase := (if generated_tokens st = [] then Prefill else ReplayPrefill)\<rparr>
              else if frontier \<ge> prompt_len then
                cur\<lparr>prefill_cursor := prompt_len,
                    phase := (if generated_tokens st = [] then Bootstrap else Decode)\<rparr>
              else cur)
     in \<lparr>ss_seq_id = sid,
         reservation = \<lparr>execution_leases = 0, reserved_prompt_tokens = 0, reserved_generation_tokens = 0,
                        reserved_kv_tokens = 0\<rparr>,
         cursor = cur, ss_block_table = table, executed_frontier = frontier,
         ss_parent_hash = pl_parent_hash lk, pending_hash_tokens = []\<rparr>)"

definition start_sequence :: "bool \<Rightarrow> BatchBuildContext \<Rightarrow> RequestPtr \<Rightarrow> PrefixLookup \<Rightarrow> BlockTable \<Rightarrow> Scheduler \<Rightarrow>
    (bool \<times> BatchBuildContext \<times> Scheduler) option" where
  "start_sequence dbg ctx r lk table s = do {
     let sid = sc_next_seq_id s;
     let sch = admitted_state (sc_heap s r) sid lk table (bp_block_size (sc_block_pool s));
     let s = upd_req r (\<lambda>st. st\<lparr>scheduling := Some sch\<rparr>)
       (s\<lparr>sc_next_seq_id := sid + 1, sc_by_seq_id := (sc_by_seq_id s)(sid \<mapsto> r), sc_running := sc_running s @ [r]\<rparr>);
     (ctx, s) \<leftarrow> build_state_work dbg ctx r s;
     Some (True, ctx, s)
   }"

definition admit_with_blocks :: "bool \<Rightarrow> BatchBuildContext \<Rightarrow> RequestPtr \<Rightarrow> Scheduler \<Rightarrow>
    (bool \<times> BatchBuildContext \<times> Scheduler) option" where
  "admit_with_blocks dbg ctx r s = do {
     let st = sc_heap s r;
     (lk, p, c) \<leftarrow> lookup_prefix_cache dbg (prompt_tokens st) 0 (sc_block_pool s) (sc_block_cache s);
     blocks_needed \<leftarrow> div_up (int (length (prompt_tokens st))) (bp_block_size p);
     let missing_blocks = blocks_needed - table_size (pl_block_table lk);
     (allocated, p, c) \<leftarrow> (if missing_blocks > 0 then allocate_kv_blocks dbg missing_blocks p c
                           else Some (Inr empty_table, p, c));
     case allocated of
       Inl err \<Rightarrow> do {
         (p, c) \<leftarrow> release_request_blocks dbg (pl_block_table lk) p c;
         let s = s\<lparr>sc_block_pool := p, sc_block_cache := c\<rparr>;
         if err = KVBlockExhausted then do {
           s \<leftarrow> make_room dbg s;
           Some (False, ctx, s\<lparr>sc_block_shortage_pending := False, sc_waiting := r # sc_waiting s\<rparr>)
         } else do {
           s \<leftarrow> drop_request dbg (Inl err) r s;
           Some (True, ctx, s)
         }
       }
     | Inr blocks \<Rightarrow> do {
         let table = foldl table_push_back (pl_block_table lk) (block_ids blocks);
         case accepting_load (s\<lparr>sc_block_pool := p, sc_block_cache := c\<rparr>) of
           (False, s) \<Rightarrow> do {
             (p, c) \<leftarrow> release_request_blocks dbg table (sc_block_pool s) (sc_block_cache s);
             s \<leftarrow> drop_request dbg (Inl ServerShuttingDown) r (s\<lparr>sc_block_pool := p, sc_block_cache := c\<rparr>);
             Some (True, ctx, s)
           }
         | (True, s) \<Rightarrow> start_sequence dbg ctx r lk table s
       }
   }"

definition admit_one_waiting :: "bool \<Rightarrow> BatchBuildContext \<Rightarrow> Scheduler \<Rightarrow>
    (bool \<times> BatchBuildContext \<times> Scheduler) option" where
  "admit_one_waiting dbg ctx s =
     (if token_budget ctx \<le> 0 \<or> sc_waiting s = [] \<or>
         int (length (sc_running s)) \<ge> size_cast (max_running_requests (sc_config s)) \<or>
         int (length (sc_running s) + length (sc_skip s)) \<ge> size_cast (max_sequences (sc_config s))
      then Some (False, ctx, s)
      else let r = hd (sc_waiting s); s = s\<lparr>sc_waiting := tl (sc_waiting s)\<rparr>; st = sc_heap s r in
      if status st = Cancelled then do {
        s \<leftarrow> drop_request dbg (Inl RequestCancelled) r s;
        Some (True, ctx, s)
      } else if max_tokens (rs_sampling st) \<le> 0 then do {
        s \<leftarrow> drop_request dbg (Inr terminal_token) r s;
        Some (True, ctx, s)
      } else do {
        assert_that dbg (scheduling st = None);
        let prompt_len = int (length (prompt_tokens st));
        let max_context_capacity = bp_max_blocks (sc_block_pool s) * bp_block_size (sc_block_pool s);
        if prompt_len \<le> 0 \<or> prompt_len > rs_max_context_len st \<or>
           rs_max_context_len st > max_context_capacity \<or> prompt_len > max_context_capacity then do {
          s \<leftarrow> drop_request dbg (Inl InvalidArgument) r s;
          Some (True, ctx, s)
        } else admit_with_blocks dbg ctx r s
      })"

section \<open>One scheduling step\<close>

partial_function (option) admission_loop :: "bool \<Rightarrow> BatchBuildContext \<Rightarrow> Scheduler \<Rightarrow> (BatchBuildContext \<times> Scheduler) option" where
  "admission_loop dbg ctx s = (case accepting_load s of (accepting, s) \<Rightarrow>
       if accepting \<and> \<not> sc_admission_paused s \<and> token_budget ctx > 0 \<and>
          int (length (sc_running s)) < size_cast (max_running_requests (sc_config s)) \<and>
          (sc_skip s \<noteq> [] \<or> sc_waiting s \<noteq> [])
       then do {
         (again, ctx, s) \<leftarrow> (if sc_skip s \<noteq> [] then admit_one_skipped dbg ctx s else Some (False, ctx, s));
         if again then admission_loop dbg ctx s
         else if sc_waiting s = [] then Some (ctx, s)
         else do {
           (again, ctx, s) \<leftarrow> admit_one_waiting dbg ctx s;
           if again then admission_loop dbg ctx s else Some (ctx, s)
         }
       } else Some (ctx, s))"

declare admission_loop.simps [code]

definition schedule_step :: "bool \<Rightarrow> Scheduler \<Rightarrow> (ScheduledBatch \<times> Scheduler) option" where
  "schedule_step dbg s = do {
     let ctx = \<lparr>ctx_batch = \<lparr>sb_batch_id = sc_next_batch_id s, sb_items = [], sb_sampling = default_sampling\<rparr>,
       token_budget = max_token_budget (sc_config s), ctx_block_size = bp_block_size (sc_block_pool s),
       sampling_set = False\<rparr>;
     let s = s\<lparr>sc_next_batch_id := sc_next_batch_id s + 1\<rparr>;
     assert_that dbg (ctx_block_size ctx > 0);
     s \<leftarrow> (if sc_block_shortage_pending s then make_room dbg (s\<lparr>sc_block_shortage_pending := False\<rparr>) else Some s);
     (ctx, s) \<leftarrow> build_running_batch dbg ctx s;
     (ctx, s) \<leftarrow> admission_loop dbg ctx s;
     let batch = ctx_batch ctx;
     Some (if sc_admission_paused s
           then batch\<lparr>sb_items := filter (\<lambda>w. sc_by_seq_id s (work_sequence_id w) \<noteq> None) (sb_items batch)\<rparr>
           else batch, s)
   }"

definition has_work :: "RequestState \<Rightarrow> bool" where
  "has_work st = (case scheduling st of
     None \<Rightarrow> False
   | Some sch \<Rightarrow> is_schedulable_state st \<and>
       (if is_prefill_phase (phase (cursor sch)) then
          prefill_cursor (cursor sch) + reserved_prompt_tokens (reservation sch) < int (length (prompt_tokens st))
        else generated_token_count st + reserved_generation_tokens (reservation sch) < max_tokens (rs_sampling st) \<and>
          (phase (cursor sch) \<noteq> Bootstrap \<or> reserved_generation_tokens (reservation sch) = 0)))"

definition has_schedulable_work :: "Scheduler \<Rightarrow> bool" where
  "has_schedulable_work s \<longleftrightarrow>
     sc_skip s \<noteq> [] \<and> int (length (sc_running s)) < size_cast (max_running_requests (sc_config s)) \<or>
     list_ex (\<lambda>r. has_work (sc_heap s r)) (sc_running s)"

section \<open>Results\<close>

partial_function (option) publish_loop :: "bool \<Rightarrow> BlockTable \<Rightarrow> BlockPool \<Rightarrow> int \<Rightarrow> int list \<Rightarrow> hash \<Rightarrow> BlockCache \<Rightarrow>
    (int list \<times> hash \<times> BlockCache) option" where
  "publish_loop dbg table p block_index pending parent c =
     (if int (length pending) \<ge> bp_block_size p then do {
        assert_that dbg (block_index \<ge> 0 \<and> block_index < table_size table);
        require (block_index \<ge> 0 \<and> block_index < table_size table);
        let full_block = take (nat (bp_block_size p)) pending;
        (parent', c') \<leftarrow> publish_full_block dbg parent full_block (block_ids table ! nat block_index) 0 p c;
        publish_loop dbg table p (block_index + 1) (drop (nat (bp_block_size p)) pending) parent' c'
      } else Some (pending, parent, c))"

declare publish_loop.simps [code]

fun context_before_of :: "WorkItem \<Rightarrow> int" where
  "context_before_of (Prefill_Work w) = (case pc_expected_context_len w of None \<Rightarrow> 0 | Some n \<Rightarrow> n)"
| "context_before_of (Decode_Work w) = (case dt_expected_context_len w of None \<Rightarrow> 0 | Some n \<Rightarrow> n)"

definition written_tokens_of :: "WorkItem \<Rightarrow> RequestState \<Rightarrow> int list" where
  "written_tokens_of item st = (case item of
     Prefill_Work w \<Rightarrow> pc_tokens w
   | Decode_Work _ \<Rightarrow> if generated_tokens st \<noteq> [] then [last (generated_tokens st)] else [])"

definition publish_written :: "bool \<Rightarrow> WorkItem \<Rightarrow> RequestPtr \<Rightarrow> SequenceSchedulingState \<Rightarrow> Scheduler \<Rightarrow> Scheduler option" where
  "publish_written dbg item r sch s =
     (if kv_token_count item > 0 then do {
        let pending_before = int (length (pending_hash_tokens sch));
        let next_block_index = (context_before_of item - pending_before) sdiv bp_block_size (sc_block_pool s);
        (pending, parent, c) \<leftarrow> publish_loop dbg (ss_block_table sch) (sc_block_pool s) next_block_index
          (pending_hash_tokens sch @ written_tokens_of item (sc_heap s r)) (ss_parent_hash sch) (sc_block_cache s);
        Some (upd_sched r (\<lambda>sch. sch\<lparr>pending_hash_tokens := pending, ss_parent_hash := parent\<rparr>)
          (s\<lparr>sc_block_cache := c\<rparr>))
      } else Some s)"

definition retire_cursor :: "bool \<Rightarrow> WorkItem \<Rightarrow> WorkItemResult \<Rightarrow> RequestState \<Rightarrow> SequenceSchedulingState \<Rightarrow>
    (bool \<times> SequenceSchedulingState) option" where
  "retire_cursor dbg item res st sch =
     (if wr_kind res = WKPrefillChunk then
        (case item of
           Decode_Work _ \<Rightarrow> None
         | Prefill_Work w \<Rightarrow> do {
             let prompt_len = int (length (prompt_tokens st));
             let replay_prefill = (phase (cursor sch) = ReplayPrefill);
             assert_that dbg (tokens_consumed res = span_length (pc_prompt_span w));
             assert_that dbg (tokens_consumed res > 0);
             assert_that dbg (prefill_cursor (cursor sch) = span_start (pc_prompt_span w));
             assert_that dbg (prefill_cursor (cursor sch) + tokens_consumed res \<le> prompt_len);
             let final_prefill = (prefill_cursor (cursor sch) + tokens_consumed res \<ge> prompt_len);
             let cur = (cursor sch)\<lparr>prefill_cursor := prefill_cursor (cursor sch) + tokens_consumed res\<rparr>;
             let sch = sch\<lparr>cursor := (if final_prefill then cur\<lparr>phase := Decode\<rparr> else cur),
               executed_frontier := max (executed_frontier sch) (context_before_of item + tokens_consumed res)\<rparr>;
             if \<not> final_prefill then do {
               assert_that dbg (sampled_tokens res = [] \<and> \<not> wr_eos res);
               Some (False, sch)
             } else do {
               assert_that dbg (sampled_tokens res \<noteq> [] \<or> wr_eos res \<or>
                 (replay_prefill \<and> generated_tokens st \<noteq> [] \<and> sampled_tokens res = [] \<and> \<not> wr_eos res));
               Some (True, sch)
             }
           })
      else do {
        assert_that dbg (tokens_consumed res = 1);
        Some (True, sch\<lparr>executed_frontier :=
          max (executed_frontier sch) (context_before_of item + kv_token_count item)\<rparr>)
      })"

definition retire_tokens :: "WorkItemResult \<Rightarrow> RequestPtr \<Rightarrow> Scheduler \<Rightarrow> Scheduler option" where
  "retire_tokens res r s = do {
     let st = sc_heap s r;
     let sampled = (sampled_tokens res \<noteq> []);
     let fin = (wr_eos res \<or> generated_token_count st + (if sampled then 1 else 0) \<ge> max_tokens (rs_sampling st));
     let s = (if sampled then
         upd_sched r (\<lambda>sch. if phase (cursor sch) = Bootstrap
                             then sch\<lparr>cursor := (cursor sch)\<lparr>phase := Decode\<rparr>\<rparr> else sch)
           (upd_req r (\<lambda>st. st\<lparr>generated_tokens := generated_tokens st @ [hd (sampled_tokens res)]\<rparr>) s)
       else s);
     let s = (if fin \<or> generated_token_count (sc_heap s r) \<ge> max_tokens (rs_sampling (sc_heap s r))
              then upd_req r (\<lambda>st. st\<lparr>status := Finished\<rparr>) s else s);
     s \<leftarrow> (if sampled then map_option snd (send_token_event r s) else Some s);
     Some (if status (sc_heap s r) = Finished \<and> \<not> sampled then snd (send_terminal_event r s) else s)
   }"

definition retire_work :: "bool \<Rightarrow> WorkItem \<Rightarrow> WorkItemResult \<Rightarrow> Scheduler \<Rightarrow> Scheduler option" where
  "retire_work dbg item res s = (case sc_by_seq_id s (wr_seq_id res) of
     None \<Rightarrow> Some s
   | Some r \<Rightarrow>
       if scheduling (sc_heap s r) = None then Some s
       else let s = upd_req r (retire_reservation item) s; st = sc_heap s r; sch = the (scheduling st) in
       if wr_stale res \<or> \<not> is_schedulable_state st then Some s
       else do {
         (more, sch) \<leftarrow> retire_cursor dbg item res st sch;
         let s = upd_sched r (\<lambda>_. sch) s;
         if \<not> more then Some s
         else do {
           s \<leftarrow> publish_written dbg item r sch s;
           retire_tokens res r s
         }
       })"

definition result_matches :: "ScheduledBatch \<Rightarrow> WorkItemResult \<Rightarrow> bool" where
  "result_matches batch res \<longleftrightarrow>
     item_index res \<ge> 0 \<and> item_index res < int (length (sb_items batch)) \<and>
     work_sequence_id (sb_items batch ! nat (item_index res)) = wr_seq_id res \<and>
     work_kind (sb_items batch ! nat (item_index res)) = wr_kind res"

fun retire_loop :: "bool \<Rightarrow> ScheduledBatch \<Rightarrow> WorkItemResult list \<Rightarrow> Scheduler \<Rightarrow> Scheduler option" where
  "retire_loop dbg batch [] s = Some s"
| "retire_loop dbg batch (res # rest) s = do {
     require (item_index res \<ge> 0 \<and> item_index res < int (length (sb_items batch)));
     s \<leftarrow> retire_work dbg (sb_items batch ! nat (item_index res)) res s;
     retire_loop dbg batch rest s
   }"

definition update_from_output :: "bool \<Rightarrow> ScheduledBatch \<Rightarrow> BatchResult \<Rightarrow> Scheduler \<Rightarrow> Scheduler option" where
  "update_from_output dbg batch result s = do {
     assert_that dbg (br_batch_id result = sb_batch_id batch);
     assert_that dbg (length (br_items result) = length (sb_items batch));
     assert_that dbg (list_all (result_matches batch) (br_items result));
     retire_loop dbg batch (br_items result) s
   }"

fun fail_items :: "ErrorCode \<Rightarrow> WorkItem list \<Rightarrow> Scheduler \<Rightarrow> Scheduler" where
  "fail_items err [] s = s"
| "fail_items err (item # rest) s = fail_items err rest (case sc_by_seq_id s (work_sequence_id item) of
     None \<Rightarrow> s
   | Some r \<Rightarrow> let s = upd_req r (retire_reservation item) s in
       if status (sc_heap s r) = Active then snd (send_error_event r err s) else s)"

definition fail_batch :: "ScheduledBatch \<Rightarrow> ErrorCode \<Rightarrow> Scheduler \<Rightarrow> Scheduler" where
  "fail_batch batch err s = fail_items err (sb_items batch) s"

section \<open>Cleanup, preemption and shutdown\<close>

definition releasable :: "RequestState \<Rightarrow> bool" where
  "releasable st = (case scheduling st of
     None \<Rightarrow> False
   | Some sch \<Rightarrow> status st \<noteq> Active \<and> execution_leases (reservation sch) = 0)"

definition release_sequence_of :: "RequestPtr \<Rightarrow> Scheduler \<Rightarrow> Scheduler" where
  "release_sequence_of r s = (case scheduling (sc_heap s r) of
     None \<Rightarrow> s | Some sch \<Rightarrow> s\<lparr>sc_released := sc_released s @ [ss_seq_id sch]\<rparr>)"

fun cleanup_running_loop :: "bool \<Rightarrow> RequestPtr list \<Rightarrow> Scheduler \<Rightarrow> Scheduler option" where
  "cleanup_running_loop dbg [] s = Some s"
| "cleanup_running_loop dbg (r # rs) s = do {
     s \<leftarrow> release_scheduling_blocks dbg r (release_sequence_of r s);
     s \<leftarrow> erase_request dbg r (s\<lparr>sc_running := remove1 r (sc_running s)\<rparr>);
     cleanup_running_loop dbg rs (s\<lparr>sc_admission_paused := False\<rparr>)
   }"

fun cleanup_terminal_queue :: "bool \<Rightarrow> RequestPtr list \<Rightarrow> Scheduler \<Rightarrow> (RequestPtr list \<times> Scheduler) option" where
  "cleanup_terminal_queue dbg [] s = Some ([], s)"
| "cleanup_terminal_queue dbg (r # rs) s =
     (if status (sc_heap s r) = Active then do {
        (active, s) \<leftarrow> cleanup_terminal_queue dbg rs s;
        Some (r # active, s)
      } else do {
        s \<leftarrow> release_scheduling_blocks dbg r (if releasable (sc_heap s r) then release_sequence_of r s else s);
        s \<leftarrow> erase_request dbg r s;
        cleanup_terminal_queue dbg rs s
      })"

definition cleanup_terminal_requests :: "bool \<Rightarrow> Scheduler \<Rightarrow> Scheduler option" where
  "cleanup_terminal_requests dbg s = do {
     s \<leftarrow> cleanup_running_loop dbg (filter (\<lambda>r. releasable (sc_heap s r)) (sc_running s)) s;
     (skip, s) \<leftarrow> cleanup_terminal_queue dbg (sc_skip s) s;
     let s = s\<lparr>sc_skip := skip\<rparr>;
     (waiting, s) \<leftarrow> cleanup_terminal_queue dbg (sc_waiting s) s;
     Some (s\<lparr>sc_waiting := waiting\<rparr>)
   }"

definition preemptable :: "RequestState \<Rightarrow> bool" where
  "preemptable st = (case scheduling st of
     None \<Rightarrow> False
   | Some sch \<Rightarrow> is_schedulable_state st \<and> execution_leases (reservation sch) = 0)"

definition preempt_one_for_admission :: "Scheduler \<Rightarrow> Scheduler" where
  "preempt_one_for_admission s = (case find (\<lambda>r. preemptable (sc_heap s r)) (rev (sc_running s)) of
     None \<Rightarrow> s
   | Some r \<Rightarrow> s\<lparr>sc_by_seq_id := (sc_by_seq_id s)(ss_seq_id (the (scheduling (sc_heap s r))) := None),
       sc_running := remove1 r (sc_running s), sc_skip := r # sc_skip s\<rparr>)"

fun fail_loop :: "bool \<Rightarrow> ErrorCode \<Rightarrow> RequestPtr list \<Rightarrow> Scheduler \<Rightarrow> Scheduler option" where
  "fail_loop dbg err [] s = Some s"
| "fail_loop dbg err (r # rs) s = do {
     s \<leftarrow> release_scheduling_blocks dbg r s;
     s \<leftarrow> drop_request dbg (Inl err) r s;
     fail_loop dbg err rs s
   }"

definition fail_all_waiting :: "bool \<Rightarrow> ErrorCode \<Rightarrow> Scheduler \<Rightarrow> Scheduler option" where
  "fail_all_waiting dbg err s = do {
     s \<leftarrow> fail_loop dbg err (sc_waiting s) (s\<lparr>sc_waiting := []\<rparr>);
     fail_loop dbg err (sc_skip s) (s\<lparr>sc_skip := []\<rparr>)
   }"

fun cleanup_all_loop :: "bool \<Rightarrow> ErrorCode \<Rightarrow> RequestPtr list \<Rightarrow> Scheduler \<Rightarrow> Scheduler option" where
  "cleanup_all_loop dbg err [] s = Some s"
| "cleanup_all_loop dbg err (r # rs) s =
     (if scheduling (sc_heap s r) = None then cleanup_all_loop dbg err rs s
      else do {
        let s = (if status (sc_heap s r) = Active then snd (send_error_event r err s) else s);
        s \<leftarrow> release_scheduling_blocks dbg r s;
        s \<leftarrow> erase_request dbg r (s\<lparr>sc_running := remove1 r (sc_running s)\<rparr>);
        cleanup_all_loop dbg err rs s
      })"

definition cleanup_all_running :: "bool \<Rightarrow> ErrorCode \<Rightarrow> Scheduler \<Rightarrow> Scheduler option" where
  "cleanup_all_running dbg shutdown_err s = cleanup_all_loop dbg shutdown_err (sc_running s) s"

definition wait_returns_at_once :: "Scheduler \<Rightarrow> bool \<times> Scheduler" where
  "wait_returns_at_once s = (case accepting_load s of (accepting, s) \<Rightarrow>
     (\<not> accepting \<or> has_schedulable_work s \<or> \<not> sc_admission_paused s \<and> sc_waiting s \<noteq> [], s))"

end
