(* ===== verification/Scheduler_Inv.thy ===== *)
theory Scheduler_Inv
  imports Scheduler_Ops "HOL-Library.Sublist"
begin

text \<open>
  The invariant that ties the scheduler's queues, its reservations and the block pool to the work
  items in flight. \<open>fl\<close> lists the items handed to the executor and not yet returned, oldest first,
  followed by those of the batch being built; \<open>X\<close> is the multiset of blocks held by a table that
  is local to the running function, and \<open>C\<close> the requests it has taken out of a queue.
\<close>

section \<open>What the invariant reads\<close>

definition sched_of :: "Scheduler \<Rightarrow> RequestPtr \<Rightarrow> SequenceSchedulingState" where
  "sched_of s r = the (scheduling (sc_heap s r))"

definition seq_of :: "Scheduler \<Rightarrow> RequestPtr \<Rightarrow> SequenceId" where
  "seq_of s r = ss_seq_id (sched_of s r)"

definition tab_of :: "Scheduler \<Rightarrow> RequestPtr \<Rightarrow> BlockId list" where
  "tab_of s r = block_ids (ss_block_table (sched_of s r))"

definition live :: "Scheduler \<Rightarrow> RequestPtr set" where
  "live s = set (sc_skip s) \<union> set (sc_running s)"

definition held :: "Scheduler \<Rightarrow> BlockId multiset" where
  "held s = (\<Sum>r \<in> live s. mset (tab_of s r))"

definition items_of :: "SequenceId \<Rightarrow> WorkItem list \<Rightarrow> WorkItem list" where
  "items_of q fl = filter (\<lambda>w. work_sequence_id w = q) fl"

fun prompt_token_count :: "WorkItem \<Rightarrow> int" where
  "prompt_token_count (Prefill_Work w) = span_length (pc_prompt_span w)"
| "prompt_token_count (Decode_Work w) = 0"

fun samples :: "WorkItem \<Rightarrow> bool" where
  "samples (Prefill_Work w) = pc_needs_sample w"
| "samples (Decode_Work w) = True"

fun item_table :: "WorkItem \<Rightarrow> BlockId list" where
  "item_table (Prefill_Work w) = block_ids (pc_block_table w)"
| "item_table (Decode_Work w) = block_ids (dt_block_table w)"

fun is_prefill_work :: "WorkItem \<Rightarrow> bool" where
  "is_prefill_work (Prefill_Work w) = True"
| "is_prefill_work (Decode_Work w) = False"

section \<open>One sequence and its items in flight\<close>

text \<open>\<open>ctx_chain f ws\<close>: the items continue each other's context, starting at \<open>f\<close>.\<close>

fun ctx_chain :: "int \<Rightarrow> WorkItem list \<Rightarrow> bool" where
  "ctx_chain f [] = True"
| "ctx_chain f (w # ws) \<longleftrightarrow> context_before_of w = f \<and> ctx_chain (f + kv_token_count w) ws"

definition item_wf :: "WorkItem \<Rightarrow> bool" where
  "item_wf w = (case w of
     Prefill_Work c \<Rightarrow> 0 < span_length (pc_prompt_span c) \<and> int (length (pc_tokens c)) = span_length (pc_prompt_span c) \<and>
       pc_expected_context_len c = Some (span_start (pc_prompt_span c))
   | Decode_Work d \<Rightarrow> dt_expected_context_len d \<noteq> None)"

definition item_fits :: "int \<Rightarrow> BlockId list \<Rightarrow> WorkItem \<Rightarrow> bool" where
  "item_fits bs table w \<longleftrightarrow> prefix (item_table w) table \<and> 0 \<le> context_before_of w \<and>
     context_before_of w + kv_token_count w \<le> int (length (item_table w)) * bs"

definition ledger :: "SequenceReservation \<Rightarrow> WorkItem list \<Rightarrow> bool" where
  "ledger rv ws \<longleftrightarrow>
     execution_leases rv = int (length ws) \<and>
     reserved_kv_tokens rv = sum_list (map kv_token_count ws) \<and>
     reserved_prompt_tokens rv = sum_list (map prompt_token_count ws) \<and>
     reserved_generation_tokens rv = int (length (filter samples ws))"

definition token_limit :: "RequestState \<Rightarrow> int" where
  "token_limit st = max 0 (max_tokens (rs_sampling st))"

definition committed_context :: "RequestState \<Rightarrow> SequenceSchedulingState \<Rightarrow> int" where
  "committed_context st sch =
     int (length (prompt_tokens st)) + generated_token_count st - generated_tokens_in_prompt (cursor sch)"

definition parked_ok :: "RequestState \<Rightarrow> bool" where
  "parked_ok st \<longleftrightarrow> scheduling st = None \<and> generated_token_count st \<le> token_limit st"

definition seq_ok :: "int \<Rightarrow> int \<Rightarrow> WorkItem list \<Rightarrow> RequestState \<Rightarrow> SequenceSchedulingState \<Rightarrow> bool" where
  "seq_ok cap bs ws st sch \<longleftrightarrow>
     ledger (reservation sch) ws \<and>
     (\<forall>w \<in> set ws. item_wf w \<and> item_fits bs (block_ids (ss_block_table sch)) w) \<and>
     (status st = Active \<longrightarrow> ctx_chain (executed_frontier sch) ws) \<and>
     0 \<le> executed_frontier sch \<and>
     executed_frontier sch + reserved_kv_tokens (reservation sch) \<le> table_size (ss_block_table sch) * bs \<and>
     int (length (pending_hash_tokens sch)) < bs \<and>
     (is_prefill_phase (phase (cursor sch)) \<longrightarrow>
        (\<forall>w \<in> set ws. is_prefill_work w) \<and>
        int (length (prompt_tokens st)) \<le> table_size (ss_block_table sch) * bs \<and>
        (status st = Active \<longrightarrow> prefill_cursor (cursor sch) = executed_frontier sch \<and>
           executed_frontier sch + reserved_kv_tokens (reservation sch) \<le> int (length (prompt_tokens st)) \<and>
           (0 < reserved_generation_tokens (reservation sch) \<longrightarrow>
              executed_frontier sch + reserved_kv_tokens (reservation sch) = int (length (prompt_tokens st))))) \<and>
     (is_decode_phase (phase (cursor sch)) \<longrightarrow> (\<forall>w \<in> set ws. \<not> is_prefill_work w)) \<and>
     (phase (cursor sch) = Bootstrap \<longrightarrow> prompt_tokens st \<noteq> []) \<and>
     generated_token_count st \<le> token_limit st \<and>
     (status st = Active \<longrightarrow>
        generated_token_count st + reserved_generation_tokens (reservation sch) \<le> token_limit st) \<and>
     rs_max_context_len st \<le> cap \<and>
     (status st = Active \<and> phase (cursor sch) = Bootstrap \<longrightarrow>
        executed_frontier sch + reserved_kv_tokens (reservation sch) \<le> committed_context st sch) \<and>
     (status st = Active \<and> phase (cursor sch) = Decode \<longrightarrow>
        executed_frontier sch + reserved_kv_tokens (reservation sch) <
          committed_context st sch + reserved_generation_tokens (reservation sch)) \<and>
     (status st = Active \<and> is_prefill_phase (phase (cursor sch)) \<longrightarrow>
        int (length (prompt_tokens st)) \<le> committed_context st sch - (if generated_tokens st = [] then 0 else 1)) \<and>
     (status st = Active \<and> phase (cursor sch) = Prefill \<and>
        executed_frontier sch + reserved_kv_tokens (reservation sch) = int (length (prompt_tokens st)) \<longrightarrow>
        0 < reserved_generation_tokens (reservation sch)) \<and>
     (phase (cursor sch) = ReplayPrefill \<longrightarrow> generated_tokens st \<noteq> []) \<and>
     (status st = Active \<and> is_prefill_phase (phase (cursor sch)) \<longrightarrow>
        (\<forall>w \<in> set ws. samples w \<longrightarrow> context_before_of w + kv_token_count w = int (length (prompt_tokens st))))"

section \<open>The invariant\<close>

definition cfg_inv :: "Scheduler \<Rightarrow> bool" where
  "cfg_inv s \<longleftrightarrow> validate (sc_config s) = Inr () \<and>
     max_blocks (sc_config s) * kv_block_size (sc_config s) + kv_block_size (sc_config s) - 1 \<le> INT_MAX \<and>
     max_sequences (sc_config s) \<le> INT_MAX \<and> max_pending_requests (sc_config s) \<le> INT_MAX \<and>
     pool_geom (sc_block_pool s) = (max_blocks (sc_config s), kv_block_size (sc_config s)) \<and>
     sc_freed_node s = Some"

definition queue_inv :: "RequestPtr set \<Rightarrow> Scheduler \<Rightarrow> bool" where
  "queue_inv C s \<longleftrightarrow> distinct (sc_waiting s @ sc_skip s @ sc_running s) \<and>
     C \<inter> (set (sc_waiting s) \<union> live s) = {} \<and>
     (\<forall>r \<in> set (sc_waiting s) \<union> C. parked_ok (sc_heap s r) \<and> r < sc_next_ptr s) \<and>
     (\<forall>r \<in> live s. scheduling (sc_heap s r) \<noteq> None \<and> r < sc_next_ptr s)"

definition seq_inv :: "Scheduler \<Rightarrow> bool" where
  "seq_inv s \<longleftrightarrow> inj_on (seq_of s) (live s) \<and> (\<forall>r \<in> live s. seq_of s r < sc_next_seq_id s) \<and>
     (\<forall>q r. sc_by_seq_id s q = Some r \<longleftrightarrow> r \<in> set (sc_running s) \<and> seq_of s r = q) \<and>
     (\<forall>r \<in> live s. seq_of s r \<in> sc_exec_failed s \<longrightarrow> status (sc_heap s r) \<noteq> Active) \<and>
     (\<forall>q \<in> sc_exec_failed s. q < sc_next_seq_id s)"

definition reg_inv :: "RequestPtr set \<Rightarrow> Scheduler \<Rightarrow> bool" where
  "reg_inv C s \<longleftrightarrow> (\<forall>i r. sc_requests s i = Some r \<longleftrightarrow>
     r \<in> set (sc_waiting s) \<union> C \<union> live s \<and> rs_request_id (sc_heap s r) = i)"

definition kv_inv :: "BlockId multiset \<Rightarrow> Scheduler \<Rightarrow> bool" where
  "kv_inv X s \<longleftrightarrow> cache_wf (sc_block_pool s) (sc_block_cache s) \<and> owned (refs (sc_block_pool s)) (held s + X)"

abbreviation ctx_capacity :: "Scheduler \<Rightarrow> int" where
  "ctx_capacity s \<equiv> max_blocks (sc_config s) * kv_block_size (sc_config s)"

definition flight_inv :: "WorkItem list \<Rightarrow> Scheduler \<Rightarrow> bool" where
  "flight_inv fl s \<longleftrightarrow>
     (\<forall>r \<in> live s. seq_ok (ctx_capacity s) (kv_block_size (sc_config s)) (items_of (seq_of s r) fl) (sc_heap s r) (sched_of s r)) \<and>
     (\<forall>w \<in> set fl. sc_by_seq_id s (work_sequence_id w) \<noteq> None)"

definition sched_inv_at :: "RequestPtr set \<Rightarrow> WorkItem list \<Rightarrow> BlockId multiset \<Rightarrow> Scheduler \<Rightarrow> bool" where
  "sched_inv_at C fl X s \<longleftrightarrow>
     cfg_inv s \<and> queue_inv C s \<and> seq_inv s \<and> reg_inv C s \<and> kv_inv X s \<and> flight_inv fl s"

definition sched_inv :: "WorkItem list \<Rightarrow> Scheduler \<Rightarrow> bool" where
  "sched_inv fl s = sched_inv_at {} fl {#} s"

lemmas inv_defs [sched_defs] = cfg_inv_def queue_inv_def seq_inv_def reg_inv_def kv_inv_def flight_inv_def

text \<open>The fields the invariant depends on.\<close>

definition core where
  "core s = (sc_config s, sc_heap s, sc_next_ptr s, sc_requests s, sc_waiting s, sc_skip s, sc_running s,
     sc_by_seq_id s, sc_next_seq_id s, sc_block_pool s, sc_block_cache s, sc_freed_node s, sc_exec_failed s)"

lemma core_cong:
  assumes "core s' = core s"
  shows "sched_of s' = sched_of s" "seq_of s' = seq_of s" "tab_of s' = tab_of s" "live s' = live s"
    "held s' = held s"
  using assms by (simp_all add: core_def sched_of_def seq_of_def tab_of_def live_def held_def fun_eq_iff)

lemma sched_inv_core: "core s' = core s \<Longrightarrow> sched_inv_at C fl X s' = sched_inv_at C fl X s"
  using core_cong [of s' s] by (simp add: sched_inv_at_def inv_defs core_def)

lemma core_simps [simp]:
  "core (s\<lparr>sc_admission_paused := a\<rparr>) = core s"
  "core (s\<lparr>sc_block_shortage_pending := a\<rparr>) = core s"
  "core (s\<lparr>sc_accepting := a\<rparr>) = core s"
  "core (s\<lparr>sc_next_batch_id := n\<rparr>) = core s"
  "core (s\<lparr>sc_stop_in := so\<rparr>) = core s"
  "core (s\<lparr>sc_expires_in := e\<rparr>) = core s"
  "core (s\<lparr>sc_events := ev\<rparr>) = core s"
  "core (s\<lparr>sc_released := rl\<rparr>) = core s"
  "core (s\<lparr>sc_shutdown_requested := a\<rparr>) = core s"
  "core (s\<lparr>sc_shutdown_done_sent := a\<rparr>) = core s"
  by (simp_all add: core_def)

lemma core_accepting_load [simp]: "core (snd (accepting_load s)) = core s"
  by (simp add: accepting_load_def split: option.split nat.split)

lemma core_send_event [simp]: "core (snd (send_event k ev s)) = core s"
  by (simp add: send_event_def channel_expired_def split: option.split nat.split prod.split bool.split)

lemma core_release_sequence_of [simp]: "core (release_sequence_of r s) = core s"
  by (simp add: release_sequence_of_def split: option.split)

section \<open>Parts of the invariant\<close>

lemma sched_inv_atD:
  assumes "sched_inv_at C fl X s"
  shows "cfg_inv s" "queue_inv C s" "seq_inv s" "reg_inv C s" "kv_inv X s" "flight_inv fl s"
  using assms by (simp_all add: sched_inv_at_def)

lemma sched_inv_atI:
  "cfg_inv s \<Longrightarrow> queue_inv C s \<Longrightarrow> seq_inv s \<Longrightarrow> reg_inv C s \<Longrightarrow> kv_inv X s \<Longrightarrow> flight_inv fl s \<Longrightarrow>
     sched_inv_at C fl X s"
  by (simp add: sched_inv_at_def)

lemma live_finite [simp]: "finite (live s)"
  by (simp add: live_def)

lemma cfg_invD:
  assumes "cfg_inv s"
  shows "bp_block_size (sc_block_pool s) = kv_block_size (sc_config s)"
    "bp_max_blocks (sc_block_pool s) = max_blocks (sc_config s)"
    "0 < kv_block_size (sc_config s)" "0 < max_blocks (sc_config s)" "0 < max_token_budget (sc_config s)"
    "max_blocks (sc_config s) * kv_block_size (sc_config s) + kv_block_size (sc_config s) - 1 \<le> INT_MAX"
    "size_cast (max_running_requests (sc_config s)) = max_running_requests (sc_config s)"
    "size_cast (max_sequences (sc_config s)) = max_sequences (sc_config s)"
    "size_cast (max_pending_requests (sc_config s)) = max_pending_requests (sc_config s)"
    "sc_freed_node s r = Some r"
proof -
  have v: "validate (sc_config s) = Inr ()"
    using assms by (simp add: cfg_inv_def)
  note V = validate_ok [OF v]
  show "bp_block_size (sc_block_pool s) = kv_block_size (sc_config s)"
    "bp_max_blocks (sc_block_pool s) = max_blocks (sc_config s)"
    "max_blocks (sc_config s) * kv_block_size (sc_config s) + kv_block_size (sc_config s) - 1 \<le> INT_MAX"
    "sc_freed_node s r = Some r"
    using assms by (simp_all add: cfg_inv_def pool_geom_def)
  show "0 < kv_block_size (sc_config s)" "0 < max_blocks (sc_config s)" "0 < max_token_budget (sc_config s)"
    using V by simp_all
  show "size_cast (max_running_requests (sc_config s)) = max_running_requests (sc_config s)"
    "size_cast (max_sequences (sc_config s)) = max_sequences (sc_config s)"
    "size_cast (max_pending_requests (sc_config s)) = max_pending_requests (sc_config s)"
    using assms V by (auto simp: cfg_inv_def intro!: size_cast_nonneg)
qed

lemma queue_invD:
  assumes "queue_inv C s"
  shows "distinct (sc_waiting s)" "distinct (sc_skip s)" "distinct (sc_running s)"
    "set (sc_skip s) \<inter> set (sc_running s) = {}" "set (sc_waiting s) \<inter> live s = {}" "C \<inter> live s = {}"
    "C \<inter> set (sc_waiting s) = {}"
    "r \<in> set (sc_waiting s) \<union> C \<Longrightarrow> parked_ok (sc_heap s r)" "r \<in> set (sc_waiting s) \<union> C \<Longrightarrow> r < sc_next_ptr s"
    "r \<in> live s \<Longrightarrow> \<exists>sch. scheduling (sc_heap s r) = Some sch" "r \<in> live s \<Longrightarrow> r < sc_next_ptr s"
  using assms by (auto simp: queue_inv_def live_def)

lemma seq_invD:
  assumes "seq_inv s"
  shows "sc_by_seq_id s q = Some r \<longleftrightarrow> r \<in> set (sc_running s) \<and> seq_of s r = q"
    "r \<in> live s \<Longrightarrow> seq_of s r < sc_next_seq_id s"
    "r \<in> live s \<Longrightarrow> r' \<in> live s \<Longrightarrow> seq_of s r = seq_of s r' \<Longrightarrow> r = r'"
    "r \<in> live s \<Longrightarrow> seq_of s r \<in> sc_exec_failed s \<Longrightarrow> status (sc_heap s r) \<noteq> Active"
    "q \<in> sc_exec_failed s \<Longrightarrow> q < sc_next_seq_id s"
  using assms by (auto simp: seq_inv_def inj_on_def)

lemma flight_invD:
  assumes "flight_inv fl s"
  shows "r \<in> live s \<Longrightarrow> seq_ok (ctx_capacity s) (kv_block_size (sc_config s)) (items_of (seq_of s r) fl) (sc_heap s r) (sched_of s r)"
    "w \<in> set fl \<Longrightarrow> sc_by_seq_id s (work_sequence_id w) \<noteq> None"
  using assms by (simp_all add: flight_inv_def)

lemma items_of_Nil [simp]: "items_of q [] = []"
  by (simp add: items_of_def)

lemma items_of_append [simp]: "items_of q (xs @ ys) = items_of q xs @ items_of q ys"
  by (simp add: items_of_def)

lemma items_of_Cons: "items_of q (w # ws) = (if work_sequence_id w = q then w # items_of q ws else items_of q ws)"
  by (simp add: items_of_def)

lemma items_of_empty_iff: "items_of q fl = [] \<longleftrightarrow> (\<forall>w \<in> set fl. work_sequence_id w \<noteq> q)"
  by (auto simp: items_of_def filter_empty_conv)

text \<open>Requests outside the running list have nothing in flight.\<close>

lemma no_items_unless_running:
  assumes inv: "sched_inv_at C fl X s" and r: "r \<in> live s" "r \<notin> set (sc_running s)"
  shows "items_of (seq_of s r) fl = []"
proof -
  have "work_sequence_id w \<noteq> seq_of s r" if w: "w \<in> set fl" for w
  proof
    assume eq: "work_sequence_id w = seq_of s r"
    obtain r' where "sc_by_seq_id s (work_sequence_id w) = Some r'"
      using flight_invD(2) [OF sched_inv_atD(6) [OF inv] w] by blast
    then have "r' \<in> set (sc_running s)" "seq_of s r' = seq_of s r"
      using seq_invD(1) [OF sched_inv_atD(3) [OF inv]] eq by auto
    then show False
      using seq_invD(3) [OF sched_inv_atD(3) [OF inv] r(1), of r'] r(2) by (auto simp: live_def)
  qed
  then show ?thesis by (simp add: items_of_empty_iff)
qed

lemma held_remove:
  assumes "r \<in> live s"
  shows "held s = mset (tab_of s r) + (\<Sum>r' \<in> live s - {r}. mset (tab_of s r'))"
  unfolding held_def using sum.remove [OF live_finite assms] by simp

section \<open>Elementary changes of state\<close>

text \<open>
  The operations change the state in four ways: they rewrite a live request (possibly with its
  blocks and the items in flight), rewrite a parked one, detach a live request from its queue, and
  attach a parked one with a new sequence. Each lemma gives the new state by its fields.
\<close>

lemma inv_upd_live:
  assumes inv: "sched_inv_at C fl X s" and r: "r \<in> live s"
    and st': "scheduling st' = Some sch'" "ss_seq_id sch' = seq_of s r"
      "rs_request_id st' = rs_request_id (sc_heap s r)"
      "status (sc_heap s r) \<noteq> Active \<Longrightarrow> status st' \<noteq> Active"
    and fl': "\<And>q. q \<noteq> seq_of s r \<Longrightarrow> items_of q fl' = items_of q fl"
      "\<And>w. w \<in> set fl' \<Longrightarrow> w \<in> set fl \<or> work_sequence_id w = seq_of s r \<and> r \<in> set (sc_running s)"
    and ok: "seq_ok (ctx_capacity s) (kv_block_size (sc_config s)) (items_of (seq_of s r) fl') st' sch'"
    and kv: "cache_wf p c" "pool_geom p = pool_geom (sc_block_pool s)"
      "owned (refs p) (mset (block_ids (ss_block_table sch')) + (\<Sum>r' \<in> live s - {r}. mset (tab_of s r')) + X)"
    and s': "core s' = core (s\<lparr>sc_heap := (sc_heap s)(r := st'), sc_block_pool := p, sc_block_cache := c\<rparr>)"
  shows "sched_inv_at C fl' X s'"
proof -
  note I = sched_inv_atD [OF inv]
  let ?s = "s\<lparr>sc_heap := (sc_heap s)(r := st'), sc_block_pool := p, sc_block_cache := c\<rparr>"
  have sched: "sched_of ?s r' = (if r' = r then sch' else sched_of s r')" for r'
    by (simp add: sched_of_def st'(1))
  have seq: "seq_of ?s = seq_of s"
    by (auto simp: seq_of_def sched st'(2) fun_eq_iff)
  have tab: "tab_of ?s r' = (if r' = r then block_ids (ss_block_table sch') else tab_of s r')" for r'
    by (simp add: tab_of_def sched)
  have live: "live ?s = live s"
    by (simp add: live_def)
  have nw: "r \<notin> set (sc_waiting s)" "r \<notin> C"
    using queue_invD(5,6) [OF I(2)] r by auto
  have "held ?s = mset (block_ids (ss_block_table sch')) + (\<Sum>r' \<in> live s - {r}. mset (tab_of s r'))"
    using held_remove [of r ?s] r unfolding live by (simp add: tab)
  then have "kv_inv X ?s"
    using kv by (simp add: kv_inv_def)
  moreover have "cfg_inv ?s"
    using I(1) kv(2) by (simp add: cfg_inv_def)
  moreover have "queue_inv C ?s"
    using I(2) nw st'(1) unfolding queue_inv_def live by auto
  moreover have "seq_inv ?s"
    using I(3) st'(4) unfolding seq_inv_def live seq by auto
  moreover have "reg_inv C ?s"
  proof -
    have "rs_request_id (sc_heap ?s r') = rs_request_id (sc_heap s r')" for r'
      by (simp add: st'(3))
    then show ?thesis
      using I(4) unfolding reg_inv_def live by simp
  qed
  moreover have "flight_inv fl' ?s"
  proof -
    have "seq_ok (ctx_capacity ?s) (kv_block_size (sc_config ?s)) (items_of (seq_of ?s r') fl') (sc_heap ?s r') (sched_of ?s r')"
      if "r' \<in> live s" for r'
    proof (cases "r' = r")
      case True
      then show ?thesis using ok by (simp add: sched seq)
    next
      case False
      then have "seq_of s r' \<noteq> seq_of s r"
        using seq_invD(3) [OF I(3) that r] by blast
      then show ?thesis
        using False that flight_invD(1) [OF I(6) that] fl'(1) by (simp add: sched seq)
    qed
    moreover have "sc_by_seq_id ?s (work_sequence_id w) \<noteq> None" if "w \<in> set fl'" for w
      using fl'(2) [OF that] flight_invD(2) [OF I(6)] seq_invD(1) [OF I(3), of "work_sequence_id w" r] by auto
    ultimately show ?thesis
      by (simp add: flight_inv_def live)
  qed
  ultimately show ?thesis
    using sched_inv_core [OF s'] by (simp add: sched_inv_atI)
qed

lemma inv_detach:
  assumes inv: "sched_inv_at C fl X s" and r: "r \<in> live s" and none: "items_of (seq_of s r) fl = []"
    and st': "parked_ok st'" "rs_request_id st' = rs_request_id (sc_heap s r)"
    and kv: "cache_wf p c" "pool_geom p = pool_geom (sc_block_pool s)"
      "owned (refs p) ((\<Sum>r' \<in> live s - {r}. mset (tab_of s r')) + X)"
    and s': "core s' = core (s\<lparr>sc_heap := (sc_heap s)(r := st'), sc_skip := remove1 r (sc_skip s),
      sc_running := remove1 r (sc_running s), sc_by_seq_id := (sc_by_seq_id s)(seq_of s r := None),
      sc_block_pool := p, sc_block_cache := c\<rparr>)"
  shows "sched_inv_at (insert r C) fl X s'"
proof -
  note I = sched_inv_atD [OF inv]
  note Q = queue_invD [OF I(2)]
  let ?s = "s\<lparr>sc_heap := (sc_heap s)(r := st'), sc_skip := remove1 r (sc_skip s),
      sc_running := remove1 r (sc_running s), sc_by_seq_id := (sc_by_seq_id s)(seq_of s r := None),
      sc_block_pool := p, sc_block_cache := c\<rparr>"
  have qs: "set (sc_skip ?s) = set (sc_skip s) - {r}" "set (sc_running ?s) = set (sc_running s) - {r}"
    using Q(2,3) by simp_all
  have live: "live ?s = live s - {r}"
    unfolding live_def qs by blast
  have same: "sched_of ?s r' = sched_of s r'" "seq_of ?s r' = seq_of s r'" "tab_of ?s r' = tab_of s r'"
    if "r' \<noteq> r" for r'
    using that by (simp_all add: sched_of_def seq_of_def tab_of_def)
  have "held ?s = (\<Sum>r' \<in> live s - {r}. mset (tab_of s r'))"
    unfolding held_def live by (rule sum.cong) (use same in auto)
  then have "kv_inv X ?s"
    using kv by (simp add: kv_inv_def)
  moreover have "cfg_inv ?s"
    using I(1) kv(2) by (simp add: cfg_inv_def)
  moreover have "queue_inv (insert r C) ?s"
  proof -
    have "distinct (sc_waiting ?s @ sc_skip ?s @ sc_running ?s)"
      using I(2) by (auto simp: queue_inv_def)
    moreover have "insert r C \<inter> (set (sc_waiting ?s) \<union> live ?s) = {}"
      unfolding live using Q(5,6,7) r by auto
    moreover have "\<forall>r' \<in> set (sc_waiting ?s) \<union> insert r C. parked_ok (sc_heap ?s r') \<and> r' < sc_next_ptr ?s"
      using Q(8,9) st'(1) Q(11) [OF r] by auto
    moreover have "\<forall>r' \<in> live ?s. scheduling (sc_heap ?s r') \<noteq> None \<and> r' < sc_next_ptr ?s"
      unfolding live using Q(10,11) by fastforce
    ultimately show ?thesis by (simp add: queue_inv_def)
  qed
  moreover have "seq_inv ?s"
  proof -
    have "inj_on (seq_of ?s) (live ?s)"
      unfolding live using seq_invD(3) [OF I(3)] same(2) by (auto simp: inj_on_def)
    moreover have "sc_by_seq_id ?s q = Some r' \<longleftrightarrow> r' \<in> set (sc_running ?s) \<and> seq_of ?s r' = q" for q r'
    proof (cases "r' = r")
      case True
      then show ?thesis
        using seq_invD(1) [OF I(3), of q r] unfolding qs by auto
    next
      case False
      have "seq_of s r' \<noteq> seq_of s r" if "r' \<in> set (sc_running s)"
        using that seq_invD(3) [OF I(3), of r' r] r False by (auto simp: live_def)
      then show ?thesis
        using False seq_invD(1) [OF I(3), of q r'] same(2) [OF False] unfolding qs by auto
    qed
    ultimately show ?thesis
      using seq_invD(2,4,5) [OF I(3)] same(2) live by (auto simp: seq_inv_def)
  qed
  moreover have "reg_inv (insert r C) ?s"
  proof -
    have "rs_request_id (sc_heap ?s r') = rs_request_id (sc_heap s r')" for r'
      by (simp add: st'(2))
    moreover have "set (sc_waiting ?s) \<union> insert r C \<union> live ?s = set (sc_waiting s) \<union> C \<union> live s"
      unfolding live using r by auto
    ultimately show ?thesis
      using I(4) unfolding reg_inv_def by simp
  qed
  moreover have "flight_inv fl ?s"
  proof -
    have "seq_ok (ctx_capacity ?s) (kv_block_size (sc_config ?s)) (items_of (seq_of ?s r') fl) (sc_heap ?s r') (sched_of ?s r')"
      if "r' \<in> live s - {r}" for r'
      using flight_invD(1) [OF I(6), of r'] that same [of r'] by simp
    moreover have "sc_by_seq_id ?s (work_sequence_id w) \<noteq> None" if "w \<in> set fl" for w
      using that none flight_invD(2) [OF I(6) that] by (auto simp: items_of_empty_iff)
    ultimately show ?thesis by (simp add: flight_inv_def live)
  qed
  ultimately show ?thesis
    using sched_inv_core [OF s'] by (simp add: sched_inv_atI)
qed

lemma inv_park:
  assumes inv: "sched_inv_at (insert r C) fl X s" "r \<notin> C"
    and s': "core s' = core (s\<lparr>sc_waiting := r # sc_waiting s\<rparr>)"
  shows "sched_inv_at C fl X s'"
proof -
  note I = sched_inv_atD [OF inv(1)]
  let ?s = "s\<lparr>sc_waiting := r # sc_waiting s\<rparr>"
  have same: "live ?s = live s" "seq_of ?s = seq_of s" "sched_of ?s = sched_of s" "held ?s = held s"
    by (simp_all add: live_def seq_of_def sched_of_def held_def tab_of_def fun_eq_iff)
  have "queue_inv C ?s"
    using I(2) inv(2) unfolding queue_inv_def same by (auto simp: live_def)
  moreover have "reg_inv C ?s"
    using I(4) unfolding reg_inv_def same by simp
  ultimately show ?thesis
    using I sched_inv_core [OF s'] same
    by (simp add: sched_inv_at_def cfg_inv_def seq_inv_def kv_inv_def flight_inv_def)
qed

lemma inv_unpark_at:
  assumes inv: "sched_inv_at C fl X s" and w: "sc_waiting s = pre @ r # ws"
    and s': "core s' = core (s\<lparr>sc_waiting := pre @ ws\<rparr>)"
  shows "sched_inv_at (insert r C) fl X s'" "r \<notin> C"
proof -
  note I = sched_inv_atD [OF inv(1)]
  let ?s = "s\<lparr>sc_waiting := pre @ ws\<rparr>"
  have same: "live ?s = live s" "seq_of ?s = seq_of s" "sched_of ?s = sched_of s" "held ?s = held s"
    by (simp_all add: live_def seq_of_def sched_of_def held_def tab_of_def fun_eq_iff)
  show "r \<notin> C"
    using queue_invD(7) [OF I(2)] w by auto
  have "queue_inv (insert r C) ?s"
    using I(2) w unfolding queue_inv_def same by (auto simp: live_def)
  moreover have "reg_inv (insert r C) ?s"
    using I(4) w unfolding reg_inv_def same by simp
  ultimately show "sched_inv_at (insert r C) fl X s'"
    using I sched_inv_core [OF s'] same
    by (simp add: sched_inv_at_def cfg_inv_def seq_inv_def kv_inv_def flight_inv_def)
qed

lemma inv_unpark:
  assumes inv: "sched_inv_at C fl X s" and w: "sc_waiting s = r # ws"
    and s': "core s' = core (s\<lparr>sc_waiting := ws\<rparr>)"
  shows "sched_inv_at (insert r C) fl X s'" "r \<notin> C"
  using inv_unpark_at [OF inv, of "[]" r ws s'] w s' by simp_all

lemma inv_erase:
  assumes inv: "sched_inv_at (insert r C) fl X s" "r \<notin> C"
    and s': "core s' = core (s\<lparr>sc_requests := (sc_requests s)(rs_request_id (sc_heap s r) := None)\<rparr>)"
  shows "sched_inv_at C fl X s'"
proof -
  note I = sched_inv_atD [OF inv(1)]
  let ?s = "s\<lparr>sc_requests := (sc_requests s)(rs_request_id (sc_heap s r) := None)\<rparr>"
  have same: "live ?s = live s" "seq_of ?s = seq_of s" "sched_of ?s = sched_of s" "held ?s = held s"
    by (simp_all add: live_def seq_of_def sched_of_def held_def tab_of_def fun_eq_iff)
  have reg: "sc_requests s i = Some r' \<longleftrightarrow>
      r' \<in> set (sc_waiting s) \<union> insert r C \<union> live s \<and> rs_request_id (sc_heap s r') = i" for i r'
    using I(4) by (simp add: reg_inv_def)
  have out: "r \<notin> set (sc_waiting s) \<union> C \<union> live s"
    using queue_invD(6,7) [OF I(2)] inv(2) by auto
  have "sc_requests ?s i = Some r' \<longleftrightarrow>
      r' \<in> set (sc_waiting ?s) \<union> C \<union> live ?s \<and> rs_request_id (sc_heap ?s r') = i" for i r'
  proof (cases "i = rs_request_id (sc_heap s r)")
    case True
    have "sc_requests s i = Some r"
      using reg [of i r] True by simp
    then show ?thesis
      using reg [of i r'] out True unfolding same by auto
  next
    case False
    then show ?thesis
      using reg [of i r'] unfolding same by auto
  qed
  then have "reg_inv C ?s"
    by (simp add: reg_inv_def)
  moreover have "queue_inv C ?s"
    using I(2) unfolding queue_inv_def same by auto
  ultimately show ?thesis
    using I sched_inv_core [OF s'] same
    by (simp add: sched_inv_at_def cfg_inv_def seq_inv_def kv_inv_def flight_inv_def)
qed

lemma inv_attach:
  assumes inv: "sched_inv_at (insert r C) fl (mset (block_ids (ss_block_table sch')) + X) s" "r \<notin> C"
    and st': "scheduling st' = Some sch'" "ss_seq_id sch' = sc_next_seq_id s"
      "rs_request_id st' = rs_request_id (sc_heap s r)"
    and ok: "seq_ok (ctx_capacity s) (kv_block_size (sc_config s)) [] st' sch'"
    and s': "core s' = core (s\<lparr>sc_heap := (sc_heap s)(r := st'), sc_running := sc_running s @ [r],
      sc_by_seq_id := (sc_by_seq_id s)(sc_next_seq_id s \<mapsto> r), sc_next_seq_id := Suc (sc_next_seq_id s)\<rparr>)"
  shows "sched_inv_at C fl X s'"
proof -
  note I = sched_inv_atD [OF inv(1)]
  note Q = queue_invD [OF I(2)]
  define s1 where "s1 = s\<lparr>sc_heap := (sc_heap s)(r := st'), sc_running := sc_running s @ [r],
      sc_by_seq_id := (sc_by_seq_id s)(sc_next_seq_id s \<mapsto> r), sc_next_seq_id := Suc (sc_next_seq_id s)\<rparr>"
  have P: "sc_heap s1 = (sc_heap s)(r := st')" "sc_running s1 = sc_running s @ [r]"
      "sc_by_seq_id s1 = (sc_by_seq_id s)(sc_next_seq_id s \<mapsto> r)" "sc_next_seq_id s1 = Suc (sc_next_seq_id s)"
      "sc_skip s1 = sc_skip s" "sc_waiting s1 = sc_waiting s" "sc_requests s1 = sc_requests s"
      "sc_next_ptr s1 = sc_next_ptr s" "sc_config s1 = sc_config s" "sc_block_pool s1 = sc_block_pool s"
      "sc_block_cache s1 = sc_block_cache s" "sc_freed_node s1 = sc_freed_node s" "sc_exec_failed s1 = sc_exec_failed s"
    by (simp_all add: s1_def)
  have out: "r \<notin> live s" "r \<notin> set (sc_waiting s)"
    using Q(6,7) by auto
  have live: "live s1 = insert r (live s)"
    by (auto simp: live_def P)
  have sched: "sched_of s1 r' = (if r' = r then sch' else sched_of s r')" for r'
    by (simp add: sched_of_def st'(1) P)
  have seq: "seq_of s1 r' = (if r' = r then sc_next_seq_id s else seq_of s r')" for r'
    by (simp add: seq_of_def sched st'(2))
  have tab: "tab_of s1 r' = (if r' = r then block_ids (ss_block_table sch') else tab_of s r')" for r'
    by (simp add: tab_of_def sched)
  have fresh: "sc_by_seq_id s (sc_next_seq_id s) = None"
  proof (rule ccontr)
    assume "sc_by_seq_id s (sc_next_seq_id s) \<noteq> None"
    then obtain r' where "sc_by_seq_id s (sc_next_seq_id s) = Some r'" by blast
    then show False
      using seq_invD(1) [OF I(3), of "sc_next_seq_id s" r'] seq_invD(2) [OF I(3), of r'] by (auto simp: live_def)
  qed
  have none: "items_of (sc_next_seq_id s) fl = []"
    using flight_invD(2) [OF I(6)] fresh unfolding items_of_empty_iff by metis
  have "held s1 = mset (block_ids (ss_block_table sch')) + held s"
  proof -
    have t: "tab_of s1 r = block_ids (ss_block_table sch')"
      by (simp only: tab simp_thms if_True)
    have "held s1 = mset (tab_of s1 r) + (\<Sum>r' \<in> live s. mset (tab_of s1 r'))"
      unfolding held_def live using out(1) by (simp only: sum.insert [OF live_finite] not_False_eq_True)
    also have "(\<Sum>r' \<in> live s. mset (tab_of s1 r')) = held s"
      unfolding held_def using out(1) by (intro sum.cong) (auto simp: tab)
    finally show ?thesis unfolding t .
  qed
  then have "kv_inv X s1"
    using I(5) by (simp add: kv_inv_def P add.assoc add.left_commute add.commute)
  moreover have "cfg_inv s1"
    using I(1) by (simp add: cfg_inv_def P)
  moreover have "queue_inv C s1"
    using I(2) inv(2) out st'(1) unfolding queue_inv_def live P by (auto simp: live_def)
  moreover have "seq_inv s1"
  proof -
    have new: "seq_of s r' \<noteq> sc_next_seq_id s" if "r' \<in> live s" for r'
      using seq_invD(2) [OF I(3) that] by simp
    have "inj_on (seq_of s1) (live s1)"
    proof (rule inj_onI)
      fix a b assume "a \<in> live s1" "b \<in> live s1" "seq_of s1 a = seq_of s1 b"
      then show "a = b"
        using seq_invD(3) [OF I(3), of a b] new [of a] new [of b]
        by (cases "a = r"; cases "b = r") (auto simp: seq live)
    qed
    moreover have "sc_by_seq_id s1 q = Some r' \<longleftrightarrow> r' \<in> set (sc_running s1) \<and> seq_of s1 r' = q" for q r'
      using seq_invD(1) [OF I(3), of q r'] seq_invD(2) [OF I(3), of r'] out(1)
      by (auto simp: seq live_def P)
    moreover have "seq_of s1 r' < sc_next_seq_id s1" if "r' \<in> live s1" for r'
      using that seq_invD(2) [OF I(3), of r'] unfolding live by (auto simp: seq P)
    moreover have "status (sc_heap s1 r') \<noteq> Active" if "r' \<in> live s1" "seq_of s1 r' \<in> sc_exec_failed s1" for r'
      using that seq_invD(4) [OF I(3), of r'] seq_invD(5) [OF I(3), of "sc_next_seq_id s"] by (cases "r' = r") (auto simp: seq live P)
    moreover have "q < sc_next_seq_id s1" if "q \<in> sc_exec_failed s1" for q
      using that seq_invD(5) [OF I(3), of q] by (simp add: P)
    ultimately show ?thesis by (simp add: seq_inv_def)
  qed
  moreover have "reg_inv C s1"
  proof -
    have "rs_request_id (sc_heap s1 r') = rs_request_id (sc_heap s r')" for r'
      by (simp add: st'(3) P)
    moreover have "set (sc_waiting s1) \<union> C \<union> live s1 = set (sc_waiting s) \<union> insert r C \<union> live s"
      unfolding live P by auto
    ultimately show ?thesis
      using I(4) unfolding reg_inv_def by (simp add: P)
  qed
  moreover have "flight_inv fl s1"
  proof -
    have "seq_ok (ctx_capacity s1) (kv_block_size (sc_config s1)) (items_of (seq_of s1 r') fl) (sc_heap s1 r') (sched_of s1 r')"
      if "r' \<in> insert r (live s)" for r'
      using flight_invD(1) [OF I(6), of r'] that out(1) ok none by (cases "r' = r") (auto simp: sched seq P)
    moreover have "sc_by_seq_id s1 (work_sequence_id w) \<noteq> None" if "w \<in> set fl" for w
      using flight_invD(2) [OF I(6) that] by (simp add: P)
    ultimately show ?thesis by (simp add: flight_inv_def live)
  qed
  ultimately show ?thesis
    using sched_inv_core [OF s'] unfolding s1_def [symmetric] by (simp add: sched_inv_atI)
qed

lemma inv_upd_parked:
  assumes inv: "sched_inv_at C fl X s" and r: "r \<in> set (sc_waiting s) \<union> C"
    and st': "parked_ok st'" "rs_request_id st' = rs_request_id (sc_heap s r)"
    and s': "core s' = core (s\<lparr>sc_heap := (sc_heap s)(r := st')\<rparr>)"
  shows "sched_inv_at C fl X s'"
proof -
  note I = sched_inv_atD [OF inv]
  note Q = queue_invD [OF I(2)]
  let ?s = "s\<lparr>sc_heap := (sc_heap s)(r := st')\<rparr>"
  have out: "r \<notin> live s"
    using Q(5,6) r by auto
  have live: "live ?s = live s"
    by (simp add: live_def)
  have same: "sched_of ?s r' = sched_of s r'" "seq_of ?s r' = seq_of s r'" "tab_of ?s r' = tab_of s r'"
      "sc_heap ?s r' = sc_heap s r'" if "r' \<in> live s" for r'
    using that out by (auto simp: sched_of_def seq_of_def tab_of_def)
  have "held ?s = held s"
    unfolding held_def live using same(3) by (intro sum.cong) auto
  then have "kv_inv X ?s" "cfg_inv ?s"
    using I(1,5) by (simp_all add: kv_inv_def cfg_inv_def)
  moreover have "queue_inv C ?s"
    using I(2) st'(1) out unfolding queue_inv_def live by auto
  moreover have "seq_inv ?s"
  proof -
    have "inj_on (seq_of ?s) (live s)"
      using seq_invD(3) [OF I(3)] same(2) by (auto simp: inj_on_def)
    moreover have "sc_by_seq_id ?s q = Some r' \<longleftrightarrow> r' \<in> set (sc_running ?s) \<and> seq_of ?s r' = q" for q r'
      using seq_invD(1) [OF I(3), of q r'] same(2) [of r'] by (auto simp: live_def)
    moreover have "status (sc_heap ?s r') \<noteq> Active" if "r' \<in> live s" "seq_of ?s r' \<in> sc_exec_failed s" for r'
      using that seq_invD(4) [OF I(3), of r'] same(2) [of r'] out by (cases "r' = r") auto
    ultimately show ?thesis
      using seq_invD(2,5) [OF I(3)] same(2) by (simp add: seq_inv_def live)
  qed
  moreover have "reg_inv C ?s"
  proof -
    have "rs_request_id (sc_heap ?s r') = rs_request_id (sc_heap s r')" for r'
      by (simp add: st'(2))
    then show ?thesis
      using I(4) unfolding reg_inv_def live by simp
  qed
  moreover have "flight_inv fl ?s"
    using I(6) same unfolding flight_inv_def live by simp
  ultimately show ?thesis
    using sched_inv_core [OF s'] by (simp add: sched_inv_atI)
qed

lemma inv_requeue:
  assumes inv: "sched_inv_at C fl X s"
    and q: "distinct (sc_waiting s @ skip' @ running')" "set skip' \<union> set running' = live s"
    and by': "\<And>q r. by' q = Some r \<longleftrightarrow> r \<in> set running' \<and> seq_of s r = q"
    and fl: "\<And>w. w \<in> set fl \<Longrightarrow> by' (work_sequence_id w) \<noteq> None"
    and s': "core s' = core (s\<lparr>sc_skip := skip', sc_running := running', sc_by_seq_id := by'\<rparr>)"
  shows "sched_inv_at C fl X s'"
proof -
  note I = sched_inv_atD [OF inv]
  let ?s = "s\<lparr>sc_skip := skip', sc_running := running', sc_by_seq_id := by'\<rparr>"
  have live: "live ?s = live s"
    using q(2) by (simp add: live_def)
  have same: "sched_of ?s = sched_of s" "seq_of ?s = seq_of s" "tab_of ?s = tab_of s"
    by (simp_all add: sched_of_def seq_of_def tab_of_def fun_eq_iff)
  have "held ?s = held s"
    by (simp add: held_def live same)
  then have "kv_inv X ?s" "cfg_inv ?s" "reg_inv C ?s"
    using I(1,4,5) by (simp_all add: kv_inv_def cfg_inv_def reg_inv_def live)
  moreover have "queue_inv C ?s"
    using I(2) q(1) unfolding queue_inv_def live by auto
  moreover have "seq_inv ?s"
    using I(3) by' unfolding seq_inv_def live same by simp
  moreover have "flight_inv fl ?s"
    using I(6) fl unfolding flight_inv_def live same by simp
  ultimately show ?thesis
    using sched_inv_core [OF s'] by (simp add: sched_inv_atI)
qed

lemma inv_kv:
  assumes inv: "sched_inv_at C fl X s"
    and kv: "cache_wf p c" "pool_geom p = pool_geom (sc_block_pool s)" "owned (refs p) (held s + X')"
    and s': "core s' = core (s\<lparr>sc_block_pool := p, sc_block_cache := c\<rparr>)"
  shows "sched_inv_at C fl X' s'"
proof -
  note I = sched_inv_atD [OF inv]
  let ?s = "s\<lparr>sc_block_pool := p, sc_block_cache := c\<rparr>"
  have same: "live ?s = live s" "seq_of ?s = seq_of s" "sched_of ?s = sched_of s" "held ?s = held s"
    by (simp_all add: live_def seq_of_def sched_of_def held_def tab_of_def fun_eq_iff)
  show ?thesis
    using I kv sched_inv_core [OF s'] same
    by (simp add: sched_inv_at_def cfg_inv_def queue_inv_def seq_inv_def reg_inv_def kv_inv_def flight_inv_def)
qed

lemma inv_exec_failed:
  assumes inv: "sched_inv_at C fl X s"
    and F: "\<And>r. r \<in> live s \<Longrightarrow> seq_of s r \<in> F \<Longrightarrow> status (sc_heap s r) \<noteq> Active" "\<And>q. q \<in> F \<Longrightarrow> q < sc_next_seq_id s"
  shows "sched_inv_at C fl X (s\<lparr>sc_exec_failed := F\<rparr>)"
proof -
  note I = sched_inv_atD [OF inv]
  let ?s = "s\<lparr>sc_exec_failed := F\<rparr>"
  have same: "sched_of ?s = sched_of s" "seq_of ?s = seq_of s" "tab_of ?s = tab_of s" "live ?s = live s" "held ?s = held s"
    by (simp_all add: sched_of_def seq_of_def tab_of_def live_def held_def fun_eq_iff)
  show ?thesis
    using I F unfolding sched_inv_at_def cfg_inv_def queue_inv_def seq_inv_def reg_inv_def kv_inv_def flight_inv_def same
    by simp
qed

end
