(* ===== verification/Scheduler_Build.thy ===== *)
theory Scheduler_Build
  imports Scheduler_Inv
begin

text \<open>
  Building a batch keeps the invariant: \<^verbatim>\<open>build_state_work\<close> and \<^verbatim>\<open>build_running_batch\<close> return, every
  item they add fits the block table it carries, and the reservations account for it.
\<close>

section \<open>Adding one item to a sequence\<close>

lemma phase_simps [simp]:
  "is_prefill_phase Prefill" "is_prefill_phase ReplayPrefill" "\<not> is_prefill_phase Bootstrap" "\<not> is_prefill_phase Decode"
  "is_decode_phase Bootstrap" "is_decode_phase Decode" "\<not> is_decode_phase Prefill" "\<not> is_decode_phase ReplayPrefill"
  by (simp_all add: is_prefill_phase_def is_decode_phase_def)

lemma ctx_chain_snoc: "ctx_chain f (ws @ [w]) \<longleftrightarrow> ctx_chain f ws \<and> context_before_of w = f + sum_list (map kv_token_count ws)"
  by (induction ws arbitrary: f) (auto simp: add.assoc)

lemma kv_eq_prompt: "\<forall>w \<in> set ws. is_prefill_work w \<Longrightarrow>
    sum_list (map kv_token_count ws) = sum_list (map prompt_token_count ws)"
proof (induction ws)
  case (Cons w ws)
  then show ?case by (cases w) auto
qed simp

lemma prompt_zero: "\<forall>w \<in> set ws. \<not> is_prefill_work w \<Longrightarrow> sum_list (map prompt_token_count ws) = 0"
proof (induction ws)
  case (Cons w ws)
  then show ?case by (cases w) auto
qed simp

lemma seq_okD:
  assumes "seq_ok cap bs ws st sch"
  shows "ledger (reservation sch) ws"
    "w \<in> set ws \<Longrightarrow> item_wf w \<and> item_fits bs (block_ids (ss_block_table sch)) w"
    "status st = Active \<Longrightarrow> ctx_chain (executed_frontier sch) ws"
    "0 \<le> executed_frontier sch"
    "executed_frontier sch + reserved_kv_tokens (reservation sch) \<le> table_size (ss_block_table sch) * bs"
    "int (length (pending_hash_tokens sch)) < bs"
    "is_prefill_phase (phase (cursor sch)) \<Longrightarrow> \<forall>w \<in> set ws. is_prefill_work w"
    "is_prefill_phase (phase (cursor sch)) \<Longrightarrow> int (length (prompt_tokens st)) \<le> table_size (ss_block_table sch) * bs"
    "is_prefill_phase (phase (cursor sch)) \<Longrightarrow> status st = Active \<Longrightarrow> prefill_cursor (cursor sch) = executed_frontier sch"
    "is_prefill_phase (phase (cursor sch)) \<Longrightarrow> status st = Active \<Longrightarrow>
       executed_frontier sch + reserved_kv_tokens (reservation sch) \<le> int (length (prompt_tokens st))"
    "is_prefill_phase (phase (cursor sch)) \<Longrightarrow> status st = Active \<Longrightarrow> 0 < reserved_generation_tokens (reservation sch) \<Longrightarrow>
       executed_frontier sch + reserved_kv_tokens (reservation sch) = int (length (prompt_tokens st))"
    "is_decode_phase (phase (cursor sch)) \<Longrightarrow> \<forall>w \<in> set ws. \<not> is_prefill_work w"
    "phase (cursor sch) = Bootstrap \<Longrightarrow> prompt_tokens st \<noteq> []"
    "generated_token_count st \<le> token_limit st"
    "status st = Active \<Longrightarrow> generated_token_count st + reserved_generation_tokens (reservation sch) \<le> token_limit st"
    "rs_max_context_len st \<le> cap"
    "status st = Active \<Longrightarrow> phase (cursor sch) = Bootstrap \<Longrightarrow>
       executed_frontier sch + reserved_kv_tokens (reservation sch) \<le> committed_context st sch"
    "status st = Active \<Longrightarrow> phase (cursor sch) = Decode \<Longrightarrow>
       executed_frontier sch + reserved_kv_tokens (reservation sch) <
         committed_context st sch + reserved_generation_tokens (reservation sch)"
    "status st = Active \<Longrightarrow> is_prefill_phase (phase (cursor sch)) \<Longrightarrow>
       int (length (prompt_tokens st)) \<le> committed_context st sch - (if generated_tokens st = [] then 0 else 1)"
    "status st = Active \<Longrightarrow> phase (cursor sch) = Prefill \<Longrightarrow>
       executed_frontier sch + reserved_kv_tokens (reservation sch) = int (length (prompt_tokens st)) \<Longrightarrow>
       0 < reserved_generation_tokens (reservation sch)"
    "phase (cursor sch) = ReplayPrefill \<Longrightarrow> generated_tokens st \<noteq> []"
    "status st = Active \<Longrightarrow> is_prefill_phase (phase (cursor sch)) \<Longrightarrow> w \<in> set ws \<Longrightarrow> samples w \<Longrightarrow>
       context_before_of w + kv_token_count w = int (length (prompt_tokens st))"
  using assms by (simp_all add: seq_ok_def)

lemma ledgerD:
  assumes "ledger rv ws"
  shows "execution_leases rv = int (length ws)" "reserved_kv_tokens rv = sum_list (map kv_token_count ws)"
    "reserved_prompt_tokens rv = sum_list (map prompt_token_count ws)"
    "reserved_generation_tokens rv = int (length (filter samples ws))" "0 \<le> reserved_generation_tokens rv"
  using assms by (simp_all add: ledger_def)

lemma item_wf_kv: "item_wf w \<Longrightarrow> 0 \<le> kv_token_count w"
  by (cases w) (simp_all add: item_wf_def)

lemma seq_ok_kv_nonneg:
  assumes "seq_ok cap bs ws st sch"
  shows "0 \<le> reserved_kv_tokens (reservation sch)"
proof -
  have "\<forall>w \<in> set ws. 0 \<le> kv_token_count w"
    using seq_okD(2) [OF assms] item_wf_kv by blast
  then have "0 \<le> sum_list (map kv_token_count ws)"
    by (intro sum_list_nonneg) auto
  then show ?thesis
    using ledgerD(2) [OF seq_okD(1) [OF assms]] by simp
qed

lemma item_fits_mono: "item_fits bs t w \<Longrightarrow> prefix t t' \<Longrightarrow> item_fits bs t' w"
  unfolding item_fits_def by (meson prefix_order.trans)

lemma seq_ok_push:
  assumes ok: "seq_ok cap bs ws st sch" and act: "status st = Active"
    and tab: "prefix (block_ids (ss_block_table sch)) (block_ids t)" "0 < bs"
    and w: "item_wf w" "item_table w = block_ids t"
      "context_before_of w = executed_frontier sch + reserved_kv_tokens (reservation sch)" "0 \<le> kv_token_count w"
    and cap: "context_before_of w + kv_token_count w \<le> table_size t * bs"
    and ph: "is_prefill_phase (phase (cursor sch)) = is_prefill_work w"
    and pre: "is_prefill_work w \<Longrightarrow> context_before_of w + kv_token_count w \<le> int (length (prompt_tokens st)) \<and>
      (samples w \<or> 0 < reserved_generation_tokens (reservation sch) \<longrightarrow>
         context_before_of w + kv_token_count w = int (length (prompt_tokens st))) \<and>
      (phase (cursor sch) = Prefill \<and> context_before_of w + kv_token_count w = int (length (prompt_tokens st)) \<longrightarrow> samples w)"
    and dec: "\<not> is_prefill_work w \<Longrightarrow> samples w \<and>
      kv_token_count w = (if phase (cursor sch) = Bootstrap then 0 else 1)"
    and gen: "samples w \<Longrightarrow> generated_token_count st + reserved_generation_tokens (reservation sch) < token_limit st"
    and rv': "execution_leases rv' = execution_leases (reservation sch) + 1"
      "reserved_kv_tokens rv' = reserved_kv_tokens (reservation sch) + kv_token_count w"
      "reserved_prompt_tokens rv' = reserved_prompt_tokens (reservation sch) + prompt_token_count w"
      "reserved_generation_tokens rv' = reserved_generation_tokens (reservation sch) + (if samples w then 1 else 0)"
  shows "seq_ok cap bs (ws @ [w]) st (sch\<lparr>ss_block_table := t, reservation := rv'\<rparr>)"
proof -
  note D = seq_okD [OF ok]
  note L = ledgerD [OF D(1)]
  let ?sch = "sch\<lparr>ss_block_table := t, reservation := rv'\<rparr>"
  have kv: "0 \<le> reserved_kv_tokens (reservation sch)"
    using seq_ok_kv_nonneg [OF ok] .
  have len: "table_size (ss_block_table sch) \<le> table_size t"
    using prefix_length_le [OF tab(1)] by (simp add: table_size_def)
  then have grow: "table_size (ss_block_table sch) * bs \<le> table_size t * bs"
    using tab(2) by (intro mult_right_mono) auto
  have "int (length (prompt_tokens st)) \<le> table_size t * bs" if "is_prefill_phase (phase (cursor sch))"
    using order_trans [OF D(8) [OF that] grow] .
  moreover have "ledger rv' (ws @ [w])"
    using L rv' by (simp add: ledger_def)
  moreover have "item_wf v \<and> item_fits bs (block_ids t) v" if "v \<in> set (ws @ [w])" for v
    using that D(2) [of v] item_fits_mono [OF _ tab(1), of bs v] w cap D(4) kv
    by (auto simp: item_fits_def table_size_def)
  moreover have "ctx_chain (executed_frontier sch) (ws @ [w])"
    using D(3) [OF act] w(3) L(2) by (simp add: ctx_chain_snoc)
  ultimately have F: "ledger rv' (ws @ [w])" "\<forall>v \<in> set (ws @ [w]). item_wf v \<and> item_fits bs (block_ids t) v"
      "ctx_chain (executed_frontier sch) (ws @ [w])"
      "is_prefill_phase (phase (cursor sch)) \<Longrightarrow> int (length (prompt_tokens st)) \<le> table_size t * bs"
    by blast+
  have R: "executed_frontier sch + reserved_kv_tokens rv' = context_before_of w + kv_token_count w"
    using w(3) rv'(2) by simp
  show ?thesis
  proof (cases "is_prefill_work w")
    case True
    then have P: "is_prefill_phase (phase (cursor sch))" "phase (cursor sch) \<noteq> Bootstrap" "phase (cursor sch) \<noteq> Decode"
      using ph by (auto simp: is_prefill_phase_def)
    then have nd: "\<not> is_decode_phase (phase (cursor sch))"
      by (simp add: is_decode_phase_def)
    have s: "samples w \<or> reserved_generation_tokens rv' = reserved_generation_tokens (reservation sch)"
      using rv'(4) by simp
    note pre [OF True]
    then show ?thesis
      using F(1-3) F(4) [OF P(1)] D(4,6,14,16,21) D(7,9) [OF P(1)] D(9) [OF P(1) act] D(15) [OF act] D(19) [OF act P(1)]
        D(22) [OF act P(1)] cap s rv'(4) gen True L(5)
      unfolding seq_ok_def committed_context_def by (auto simp: P nd R act)
  next
    case False
    then have P: "\<not> is_prefill_phase (phase (cursor sch))" "phase (cursor sch) \<noteq> Prefill" "phase (cursor sch) \<noteq> ReplayPrefill"
      using ph by (auto simp: is_prefill_phase_def)
    then have Q: "phase (cursor sch) = Bootstrap \<or> phase (cursor sch) = Decode"
      by (cases "phase (cursor sch)") simp_all
    then have d: "is_decode_phase (phase (cursor sch))"
      by (simp add: is_decode_phase_def)
    from Q show ?thesis
      using F(1-3) D(4,6,13,14,16) D(12) [OF d] D(15,17,18) [OF act] dec [OF False] gen cap rv'(2,4) False L(5)
      unfolding seq_ok_def committed_context_def by (elim disjE) (simp_all add: P d R act w(3))
  qed
qed

section \<open>Frame of the building functions\<close>

text \<open>What the building functions leave alone.\<close>

definition queues where
  "queues s = (sc_waiting s, sc_skip s, sc_running s, sc_by_seq_id s, sc_next_seq_id s, sc_requests s,
     sc_config s, sc_next_ptr s, sc_admission_paused s)"

lemma queues_simps [simp]:
  "queues (upd_req r f s) = queues s" "queues (upd_sched r g s) = queues s"
  "queues (s\<lparr>sc_block_pool := p\<rparr>) = queues s" "queues (s\<lparr>sc_block_cache := c\<rparr>) = queues s"
  "queues (s\<lparr>sc_block_shortage_pending := b\<rparr>) = queues s"
  "queues (s\<lparr>sc_heap := h\<rparr>) = queues s"
  by (simp_all add: queues_def upd_req_def upd_sched_def)

lemma queues_send_event [simp]: "queues (snd (send_event k ev s)) = queues s"
  by (simp add: queues_def send_event_def channel_expired_def split: option.split nat.split prod.split bool.split)

lemma queues_terminal [simp]: "queues (snd (send_terminal_event r s)) = queues s"
  by (simp add: send_terminal_event_def)

definition ctx_items :: "BatchBuildContext \<Rightarrow> WorkItem list" where
  "ctx_items ctx = sb_items (ctx_batch ctx)"

text \<open>The budget of a batch is spent exactly by the tokens of its items.\<close>

definition budget_ok :: "int \<Rightarrow> BatchBuildContext \<Rightarrow> bool" where
  "budget_ok B ctx \<longleftrightarrow> 0 \<le> token_budget ctx \<and> token_budget ctx + sum_list (map work_token_count (ctx_items ctx)) = B"

definition built :: "RequestPtr set \<Rightarrow> WorkItem list \<Rightarrow> BlockId multiset \<Rightarrow> int \<Rightarrow> Scheduler \<Rightarrow>
    BatchBuildContext \<times> Scheduler \<Rightarrow> bool" where
  "built C fl X B s = (\<lambda>(ctx', s'). sched_inv_at C (fl @ ctx_items ctx') X s' \<and> queues s' = queues s \<and> budget_ok B ctx')"

lemma built_refl: "sched_inv_at C (fl @ ctx_items ctx) X s \<Longrightarrow> budget_ok B ctx \<Longrightarrow> built C fl X B s (ctx, s)"
  by (simp add: built_def)

lemma ctx_items_simps [simp]:
  "ctx_items (push_item w ctx) = ctx_items ctx @ [w]" "ctx_items (select_sampling st ctx) = ctx_items ctx"
  "ctx_items (ctx\<lparr>token_budget := b\<rparr>) = ctx_items ctx"
  by (simp_all add: ctx_items_def push_item_def select_sampling_def)

lemma select_sampling_budget [simp]: "token_budget (select_sampling st ctx) = token_budget ctx"
  by (simp add: select_sampling_def)

lemma budget_select [simp]: "budget_ok B (select_sampling st ctx) = budget_ok B ctx"
  by (simp add: budget_ok_def)

lemma upd_sched_core:
  assumes "scheduling (sc_heap s r) = Some sch"
  shows "upd_sched r g s = s\<lparr>sc_heap := (sc_heap s)(r := (sc_heap s r)\<lparr>scheduling := Some (g sch)\<rparr>)\<rparr>"
  using assms by (simp add: upd_sched_def upd_req_def)

lemma seq_ok_status:
  assumes "seq_ok cap bs ws st sch" "status st' \<noteq> Active \<or> status st = Active"
    "prompt_tokens st' = prompt_tokens st" "generated_tokens st' = generated_tokens st" "rs_sampling st' = rs_sampling st"
    "rs_max_context_len st' = rs_max_context_len st"
  shows "seq_ok cap bs ws st' sch"
  using assms unfolding seq_ok_def token_limit_def generated_token_count_def committed_context_def by auto

text \<open>Changing the status of a live request away from active.\<close>

lemma inv_upd_status:
  assumes inv: "sched_inv_at C fl X s" and r: "r \<in> live s" and act: "a \<noteq> Active \<or> status (sc_heap s r) = Active"
    and s': "core s' = core (upd_req r (\<lambda>st. st\<lparr>status := a\<rparr>) s)"
  shows "sched_inv_at C fl X s'"
proof -
  note I = sched_inv_atD [OF inv]
  obtain sch where sch: "scheduling (sc_heap s r) = Some sch"
    using queue_invD(10) [OF I(2) r] by blast
  have so: "sched_of s r = sch" "seq_of s r = ss_seq_id sch"
    by (simp_all add: sched_of_def seq_of_def sch)
  let ?st = "(sc_heap s r)\<lparr>status := a\<rparr>"
  have ok: "seq_ok (ctx_capacity s) (kv_block_size (sc_config s)) (items_of (seq_of s r) fl) ?st sch"
    using flight_invD(1) [OF I(6) r] act unfolding so by (auto elim: seq_ok_status)
  have kv: "owned (refs (sc_block_pool s)) (mset (block_ids (ss_block_table sch)) +
      (\<Sum>r' \<in> live s - {r}. mset (tab_of s r')) + X)"
    using I(5) held_remove [OF r] by (simp add: kv_inv_def tab_of_def so)
  show ?thesis
    by (rule inv_upd_live [OF inv r, where st' = ?st and p = "sc_block_pool s" and c = "sc_block_cache s"])
      (use sch so ok kv I(5) s' act in \<open>auto simp: kv_inv_def upd_req_def core_def\<close>)
qed

lemma inv_terminal:
  assumes inv: "sched_inv_at C fl X s" and r: "r \<in> live s"
  shows "sched_inv_at C fl X (snd (send_terminal_event r s))"
  by (rule inv_upd_status [OF inv r, of Finished]) (simp_all add: send_terminal_event_def)

lemma inv_push:
  assumes inv: "sched_inv_at C fl X s" and r: "r \<in> set (sc_running s)"
    and sch: "scheduling (sc_heap s r) = Some sch" "ss_seq_id sch' = ss_seq_id sch" "work_sequence_id w = ss_seq_id sch"
    and ok: "seq_ok (ctx_capacity s) (kv_block_size (sc_config s)) (items_of (ss_seq_id sch) fl @ [w]) (sc_heap s r) sch'"
    and kv: "cache_wf p c" "pool_geom p = pool_geom (sc_block_pool s)"
      "owned (refs p) (mset (block_ids (ss_block_table sch')) + (\<Sum>r' \<in> live s - {r}. mset (tab_of s r')) + X)"
    and s': "core s' = core (s\<lparr>sc_heap := (sc_heap s)(r := (sc_heap s r)\<lparr>scheduling := Some sch'\<rparr>),
      sc_block_pool := p, sc_block_cache := c\<rparr>)"
  shows "sched_inv_at C (fl @ [w]) X s'"
proof (rule inv_upd_live [OF inv _ _ _ _ _ _ _ _ kv s'])
  have q: "seq_of s r = ss_seq_id sch"
    by (simp add: seq_of_def sched_of_def sch(1))
  show "r \<in> live s"
    using r by (simp add: live_def)
  show "seq_ok (ctx_capacity s) (kv_block_size (sc_config s)) (items_of (seq_of s r) (fl @ [w])) ((sc_heap s r)\<lparr>scheduling := Some sch'\<rparr>) sch'"
    using ok sch(3) by (auto simp: q items_of_def elim: seq_ok_status)
  show "items_of q (fl @ [w]) = items_of q fl" if "q \<noteq> seq_of s r" for q
    using that sch(3) by (simp add: items_of_def \<open>seq_of s r = ss_seq_id sch\<close>)
qed (use r sch in \<open>auto simp: seq_of_def sched_of_def\<close>)

lemma inv_own_parts:
  assumes "kv_inv X s" "r \<in> live s"
  shows "owned (refs (sc_block_pool s)) (mset (tab_of s r) + (\<Sum>r' \<in> live s - {r}. mset (tab_of s r')) + X)"
  using assms held_remove [OF assms(2)] by (simp add: kv_inv_def)

lemma build_prefill_ok:
  assumes inv: "sched_inv_at C (fl @ ctx_items ctx) X s" and r: "r \<in> set (sc_running s)"
    and sch: "scheduling (sc_heap s r) = Some sch" and act: "status (sc_heap s r) = Active"
    and ph: "is_prefill_phase (phase (cursor sch))" and bud: "budget_ok B ctx"
    and lim: "generated_token_count (sc_heap s r) < max_tokens (rs_sampling (sc_heap s r))"
  shows "yields (build_prefill_work ctx r sch s) (built C fl X B s)"
proof -
  note I = sched_inv_atD [OF inv]
  let ?st = "sc_heap s r" and ?rv = "reservation sch" and ?bs = "kv_block_size (sc_config s)"
  let ?ws = "items_of (ss_seq_id sch) (fl @ ctx_items ctx)"
  have live: "r \<in> live s" using r by (simp add: live_def)
  have so: "sched_of s r = sch" "seq_of s r = ss_seq_id sch"
    by (simp_all add: sched_of_def seq_of_def sch)
  have ok: "seq_ok (ctx_capacity s) ?bs ?ws ?st sch"
    using flight_invD(1) [OF I(6) live] unfolding so .
  note D = seq_okD [OF ok]
  note L = ledgerD [OF D(1)]
  have start: "prefill_cursor (cursor sch) + reserved_prompt_tokens ?rv = executed_frontier sch + reserved_kv_tokens ?rv"
    using D(9) [OF ph act] L(2,3) kv_eq_prompt [OF D(7) [OF ph]] by simp
  define ps where "ps = executed_frontier sch + reserved_kv_tokens ?rv"
  define len where "len = min (if max_seq_prefill_tokens (sc_config s) > 0
      then min (int (length (prompt_tokens ?st)) - ps) (max_seq_prefill_tokens (sc_config s))
      else int (length (prompt_tokens ?st)) - ps) (token_budget ctx)"
  show ?thesis
  proof (cases "ps \<ge> int (length (prompt_tokens ?st)) \<or> len \<le> 0")
    case True
    then have "build_prefill_work ctx r sch s = Some (ctx, s)"
      unfolding build_prefill_work_def Let_def start ps_def [symmetric] len_def [symmetric] by auto
    then show ?thesis using built_refl [OF inv bud] by simp
  next
    case False
    then have lt: "ps < int (length (prompt_tokens ?st))" and pos: "0 < len" by simp_all
    have ps0: "0 \<le> ps" using D(4) seq_ok_kv_nonneg [OF ok] by (simp add: ps_def)
    have le: "ps + len \<le> int (length (prompt_tokens ?st))" "len \<le> token_budget ctx"
      by (auto simp: len_def)
    define ns where "ns \<longleftrightarrow> ps + len \<ge> int (length (prompt_tokens ?st)) \<and>
      \<not> (phase (cursor sch) = ReplayPrefill \<and> generated_tokens ?st \<noteq> [])"
    define w where "w = \<lparr>pc_seq_id = ss_seq_id sch, pc_prompt_span = \<lparr>span_start = ps, span_length = len\<rparr>,
      pc_expected_context_len = Some ps, pc_needs_sample = ns,
      pc_tokens = take (nat len) (drop (nat ps) (prompt_tokens ?st)), pc_block_table = ss_block_table sch\<rparr>"
    define rv' where "rv' = ?rv\<lparr>reserved_prompt_tokens := reserved_prompt_tokens ?rv + len,
      reserved_kv_tokens := reserved_kv_tokens ?rv + len,
      reserved_generation_tokens := reserved_generation_tokens ?rv + (if ns then 1 else 0),
      execution_leases := execution_leases ?rv + 1\<rparr>"
    define ctx' where "ctx' = (push_item (Prefill_Work w) (select_sampling ?st ctx))\<lparr>token_budget := token_budget ctx - len\<rparr>"
    have run: "build_prefill_work ctx r sch s = Some (ctx', upd_sched r (\<lambda>sch. sch\<lparr>reservation := rv'\<rparr>) s)"
      using lt pos ps0
      unfolding build_prefill_work_def Let_def start ps_def [symmetric] len_def [symmetric] ns_def [symmetric]
        w_def [symmetric] rv'_def [symmetric] ctx'_def
      by (simp add: ns_def w_def rv'_def cong: if_cong)
    have g0: "reserved_generation_tokens ?rv = 0"
      using D(11) [OF ph act] lt L(5) unfolding ps_def by linarith
    have wf: "item_wf (Prefill_Work w)"
      using pos ps0 le(1) by (simp add: item_wf_def w_def)
    have bs: "0 < ?bs" using cfg_invD(3) [OF I(1)] .
    have ok': "seq_ok (ctx_capacity s) ?bs (?ws @ [Prefill_Work w]) ?st
        (sch\<lparr>ss_block_table := ss_block_table sch, reservation := rv'\<rparr>)"
      using le(1) D(8) [OF ph] ph pos lim g0
      by (intro seq_ok_push [OF ok act _ bs wf])
        (auto simp: w_def rv'_def ps_def ns_def token_limit_def)
    have "sched_inv_at C ((fl @ ctx_items ctx) @ [Prefill_Work w]) X (upd_sched r (\<lambda>sch. sch\<lparr>reservation := rv'\<rparr>) s)"
      by (rule inv_push [OF inv r sch, where sch' = "sch\<lparr>reservation := rv'\<rparr>" and p = "sc_block_pool s" and c = "sc_block_cache s"])
        (use ok' inv_own_parts [OF I(5) live] I(5) in \<open>auto simp: w_def kv_inv_def tab_of_def so upd_sched_core [OF sch]\<close>)
    moreover have "budget_ok B ctx'"
      using bud le pos by (auto simp: budget_ok_def ctx'_def w_def)
    ultimately show ?thesis
      unfolding run by (simp add: built_def ctx'_def)
  qed
qed

lemma seq_ok_grow:
  assumes ok: "seq_ok cap bs ws st sch" and t: "prefix (block_ids (ss_block_table sch)) (block_ids t)" "0 < bs"
  shows "seq_ok cap bs ws st (sch\<lparr>ss_block_table := t\<rparr>)"
proof -
  note D = seq_okD [OF ok]
  have "table_size (ss_block_table sch) \<le> table_size t"
    using prefix_length_le [OF t(1)] by (simp add: table_size_def)
  then have grow: "table_size (ss_block_table sch) * bs \<le> table_size t * bs"
    using t(2) by (intro mult_right_mono) auto
  have "int (length (prompt_tokens st)) \<le> table_size t * bs" if "is_prefill_phase (phase (cursor sch))"
    using order_trans [OF D(8) [OF that] grow] .
  moreover have "executed_frontier sch + reserved_kv_tokens (reservation sch) \<le> table_size t * bs"
    using order_trans [OF D(5) grow] .
  moreover have "item_wf v \<and> item_fits bs (block_ids t) v" if "v \<in> set ws" for v
    using D(2) [OF that] item_fits_mono [OF _ t(1)] by blast
  ultimately show ?thesis
    using ok unfolding seq_ok_def committed_context_def by auto
qed

lemma push_all_ids: "block_ids (foldl table_push_back t xs) = block_ids t @ xs"
  by (induction xs arbitrary: t) (simp_all add: table_push_back_def)

lemma grow_table_ok:
  assumes inv: "sched_inv_at C fl X s" and r: "r \<in> live s" and sch: "scheduling (sc_heap s r) = Some sch"
  shows "yields (grow_table dbg n r sch s) (\<lambda>(grown, s'). queues s' = queues s \<and> sched_inv_at C fl X s' \<and>
    (case grown of None \<Rightarrow> True
     | Some sch' \<Rightarrow> (\<exists>t. sch' = sch\<lparr>ss_block_table := t\<rparr> \<and> prefix (block_ids (ss_block_table sch)) (block_ids t) \<and>
         n \<le> table_size t \<and> sc_heap s' = (sc_heap s)(r := (sc_heap s r)\<lparr>scheduling := Some sch'\<rparr>))))"
proof (cases "n > table_size (ss_block_table sch)")
  case False
  have "(sc_heap s r)\<lparr>scheduling := Some sch\<rparr> = sc_heap s r"
    using sch by simp
  then have "sc_heap s = (sc_heap s)(r := (sc_heap s r)\<lparr>scheduling := Some sch\<rparr>)"
    by simp
  then show ?thesis
    using False inv by (simp add: grow_table_def exI [of _ "ss_block_table sch"])
next
  case True
  note I = sched_inv_atD [OF inv]
  let ?old = "ss_block_table sch" and ?n = "n - table_size (ss_block_table sch)"
  have so: "sched_of s r = sch" "seq_of s r = ss_seq_id sch" "tab_of s r = block_ids ?old"
    by (simp_all add: sched_of_def seq_of_def tab_of_def sch)
  have "yields (allocate_kv_blocks dbg ?n (sc_block_pool s) (sc_block_cache s)) (\<lambda>(res, p', c'). cache_wf p' c' \<and>
      pool_geom p' = pool_geom (sc_block_pool s) \<and>
      (case res of Inl e \<Rightarrow> e = KVBlockExhausted \<and> owned (refs p') (held s + X)
       | Inr t \<Rightarrow> length (block_ids t) = nat ?n \<and> owned (refs p') (mset (block_ids t) + (held s + X))))"
    using I(5) True by (intro allocate_kv_owned) (auto simp: kv_inv_def)
  then obtain res p c where a: "allocate_kv_blocks dbg ?n (sc_block_pool s) (sc_block_cache s) = Some (res, p, c)"
      "cache_wf p c" "pool_geom p = pool_geom (sc_block_pool s)"
      and res: "case res of Inl e \<Rightarrow> e = KVBlockExhausted \<and> owned (refs p) (held s + X)
       | Inr t \<Rightarrow> length (block_ids t) = nat ?n \<and> owned (refs p) (mset (block_ids t) + (held s + X))"
    by (auto elim!: yieldsE)
  show ?thesis
  proof (cases res)
    case (Inl e)
    let ?s = "s\<lparr>sc_block_pool := p, sc_block_cache := c, sc_block_shortage_pending := True\<rparr>"
    have "sched_inv_at C fl X ?s"
      by (rule inv_kv [OF inv a(2,3)]) (use res Inl in \<open>simp_all add: core_def\<close>)
    then show ?thesis
      using True a(1) Inl by (simp add: grow_table_def)
  next
    case (Inr blocks)
    define t where "t = foldl table_push_back ?old (block_ids blocks)"
    let ?sch = "sch\<lparr>ss_block_table := t\<rparr>"
    let ?st = "(sc_heap s r)\<lparr>scheduling := Some ?sch\<rparr>"
    let ?s = "s\<lparr>sc_heap := (sc_heap s)(r := ?st), sc_block_pool := p, sc_block_cache := c\<rparr>"
    have ids: "block_ids t = block_ids ?old @ block_ids blocks"
      by (simp add: t_def push_all_ids)
    have n: "n \<le> table_size t"
      using res Inr True by (simp add: table_size_def ids)
    have bs: "0 < kv_block_size (sc_config s)"
      using cfg_invD(3) [OF I(1)] .
    have "seq_ok (ctx_capacity s) (kv_block_size (sc_config s)) (items_of (seq_of s r) fl) ?st ?sch"
      using seq_ok_grow [OF flight_invD(1) [OF I(6) r, unfolded so(1)], of t] ids bs
      by (auto elim: seq_ok_status)
    moreover have "owned (refs p) (mset (block_ids t) + (\<Sum>r' \<in> live s - {r}. mset (tab_of s r')) + X)"
      using res Inr held_remove [OF r] by (simp add: ids so ac_simps)
    ultimately have "sched_inv_at C fl X ?s"
      by (intro inv_upd_live [OF inv r, where st' = ?st and sch' = ?sch and p = p and c = c] a(2,3)) (simp_all add: so)
    moreover have "grow_table dbg n r sch s = Some (Some ?sch, ?s)"
      using True a(1) Inr sch by (simp add: grow_table_def t_def upd_sched_def upd_req_def Let_def)
    ultimately show ?thesis
      using n ids by (auto simp: intro!: exI [of _ t])
  qed
qed

lemma div_up_ok:
  assumes "0 < d" "n + d - 1 \<le> INT_MAX"
  shows "\<exists>q. div_up n d = Some q \<and> n \<le> q * d"
proof -
  have "n \<le> (n + d - 1) div d * d"
    using assms(1) by (smt (verit) div_mult_mod_eq pos_mod_bound)
  then show ?thesis
    using assms(2) by (simp add: div_up_def)
qed

lemma inv_live_seq:
  assumes "sched_inv_at C fl X s" "r \<in> live s" "scheduling (sc_heap s r) = Some sch"
  shows "seq_ok (ctx_capacity s) (kv_block_size (sc_config s)) (items_of (ss_seq_id sch) fl) (sc_heap s r) sch"
  using flight_invD(1) [OF sched_inv_atD(6) [OF assms(1)] assms(2)] by (simp add: seq_of_def sched_of_def assms(3))

lemma push_decode_ok:
  assumes inv: "sched_inv_at C (fl @ ctx_items ctx) X s" and r: "r \<in> set (sc_running s)"
    and sch: "scheduling (sc_heap s r) = Some sch" and act: "status (sc_heap s r) = Active"
    and ph: "is_decode_phase (phase (cursor sch))" and bud: "budget_ok B ctx" "0 < token_budget ctx"
    and lim: "generated_token_count (sc_heap s r) + reserved_generation_tokens (reservation sch) < token_limit (sc_heap s r)"
    and wkv: "wkv \<longleftrightarrow> phase (cursor sch) \<noteq> Bootstrap"
    and cl: "cl = executed_frontier sch + reserved_kv_tokens (reservation sch)"
    and cap: "cl + (if wkv then 1 else 0) \<le> table_size (ss_block_table sch) * kv_block_size (sc_config s)"
    and w: "w = \<lparr>dt_seq_id = ss_seq_id sch, dt_input_token = tok, dt_expected_context_len = Some cl,
      dt_write_kv = wkv, dt_late_bind = lb, dt_block_table = ss_block_table sch\<rparr>"
    and rv': "rv' = (reservation sch)\<lparr>reserved_generation_tokens := reserved_generation_tokens (reservation sch) + 1,
      reserved_kv_tokens := reserved_kv_tokens (reservation sch) + (if wkv then 1 else 0),
      execution_leases := execution_leases (reservation sch) + 1\<rparr>"
  shows "built C fl X B s ((push_item (Decode_Work w) ctx)\<lparr>token_budget := token_budget ctx - 1\<rparr>,
    upd_sched r (\<lambda>sch. sch\<lparr>reservation := rv'\<rparr>) s)"
proof -
  note I = sched_inv_atD [OF inv]
  have live: "r \<in> live s" using r by (simp add: live_def)
  note ok = inv_live_seq [OF inv live sch]
  have ph': "is_prefill_phase (phase (cursor sch)) = is_prefill_work (Decode_Work w)"
    using ph by (auto simp: is_prefill_phase_def is_decode_phase_def)
  have "seq_ok (ctx_capacity s) (kv_block_size (sc_config s))
      (items_of (ss_seq_id sch) (fl @ ctx_items ctx) @ [Decode_Work w]) (sc_heap s r)
      (sch\<lparr>ss_block_table := ss_block_table sch, reservation := rv'\<rparr>)"
    by (rule seq_ok_push [OF ok act _ cfg_invD(3) [OF I(1)] _ _ _ _ _ ph'])
      (use lim cap wkv in \<open>auto simp: w rv' cl item_wf_def\<close>)
  then have "sched_inv_at C ((fl @ ctx_items ctx) @ [Decode_Work w]) X (upd_sched r (\<lambda>sch. sch\<lparr>reservation := rv'\<rparr>) s)"
    by (intro inv_push [OF inv r sch, where sch' = "sch\<lparr>reservation := rv'\<rparr>" and p = "sc_block_pool s" and c = "sc_block_cache s"])
      (use inv_own_parts [OF I(5) live] I(5) in
        \<open>auto simp: w kv_inv_def tab_of_def sched_of_def sch upd_sched_core [OF sch]\<close>)
  then show ?thesis
    using bud by (simp add: built_def budget_ok_def)
qed

lemma build_decode_ok:
  assumes inv: "sched_inv_at C (fl @ ctx_items ctx) X s" and r: "r \<in> set (sc_running s)"
    and sch: "scheduling (sc_heap s r) = Some sch" and act: "status (sc_heap s r) = Active"
    and ph: "is_decode_phase (phase (cursor sch))" and bud: "budget_ok B ctx" "0 < token_budget ctx"
  shows "yields (build_decode_work dbg ctx r sch s) (built C fl X B s)"
proof -
  note I = sched_inv_atD [OF inv]
  let ?st = "sc_heap s r" and ?rv = "reservation sch" and ?bs = "kv_block_size (sc_config s)"
  let ?boot = "phase (cursor sch) = Bootstrap"
  define ctx1 where "ctx1 = select_sampling ?st ctx"
  have inv1: "sched_inv_at C (fl @ ctx_items ctx1) X s" and bud1: "budget_ok B ctx1" "0 < token_budget ctx1"
    using inv bud by (simp_all add: ctx1_def)
  have live: "r \<in> live s" using r by (simp add: live_def)
  note D = seq_okD [OF inv_live_seq [OF inv live sch]]
  have cc: "int (length (prompt_tokens ?st)) + generated_token_count ?st - generated_tokens_in_prompt (cursor sch) =
      committed_context ?st sch"
    by (simp add: committed_context_def)
  define cl where "cl = executed_frontier sch + reserved_kv_tokens ?rv"
  define need where "need = cl + (if \<not> ?boot then 1 else 0)"
  consider (quiet) "build_decode_work dbg ctx r sch s = Some (ctx1, s)"
    | (full) "build_decode_work dbg ctx r sch s = Some (ctx1, snd (send_terminal_event r s))"
    | (work) "generated_token_count ?st + reserved_generation_tokens ?rv < max_tokens (rs_sampling ?st)"
        "?boot \<longrightarrow> reserved_generation_tokens ?rv \<le> 0"
        "committed_context ?st sch + reserved_generation_tokens ?rv < rs_max_context_len ?st"
    unfolding build_decode_work_def Let_def cc ctx1_def using D(13) by (fastforce split: if_splits)
  then show ?thesis
  proof cases
    case quiet
    then show ?thesis using built_refl [OF inv1 bud1(1)] by simp
  next
    case full
    then show ?thesis using inv_terminal [OF inv1 live] bud1(1) by (simp add: built_def)
  next
    case work
    have bs: "0 < ?bs" "bp_block_size (sc_block_pool s) = ?bs"
      using cfg_invD [OF I(1)] by simp_all
    have "need \<le> committed_context ?st sch + reserved_generation_tokens ?rv"
      using D(17,18) act ph work(2) ledgerD(5) [OF D(1)] unfolding need_def cl_def
      by (cases "phase (cursor sch)") auto
    then have "need + ?bs - 1 \<le> INT_MAX"
      using work(3) D(16) cfg_invD(6) [OF I(1)] by linarith
    then obtain q where q: "div_up need ?bs = Some q" "need \<le> q * ?bs"
      using div_up_ok [OF bs(1)] by blast
    obtain grown s1 where g: "grow_table dbg q r sch s = Some (grown, s1)" "queues s1 = queues s"
        "sched_inv_at C (fl @ ctx_items ctx1) X s1"
      and grown: "case grown of None \<Rightarrow> True
       | Some sch' \<Rightarrow> (\<exists>t. sch' = sch\<lparr>ss_block_table := t\<rparr> \<and> prefix (block_ids (ss_block_table sch)) (block_ids t) \<and>
           q \<le> table_size t \<and> sc_heap s1 = (sc_heap s)(r := ?st\<lparr>scheduling := Some sch'\<rparr>))"
      using grow_table_ok [OF inv1 live sch, of dbg q] by (auto elim!: yieldsE)
    have pt: "?boot \<longrightarrow> prompt_tokens ?st \<noteq> []"
      using D(13) by blast
    have nb: "(?boot \<and> reserved_generation_tokens ?rv > 0) = False"
      using work(2) by auto
    show ?thesis
    proof (cases grown)
      case None
      have "build_decode_work dbg ctx r sch s = Some (ctx1, s1)"
        using work g(1) q(1) None pt unfolding build_decode_work_def Let_def cc ctx1_def cl_def need_def bs(2)
        by (simp add: nb cong: if_cong)
      then show ?thesis using g bud1(1) by (simp add: built_def)
    next
      case (Some sch')
      then obtain t where t: "sch' = sch\<lparr>ss_block_table := t\<rparr>" "q \<le> table_size t"
          "sc_heap s1 = (sc_heap s)(r := ?st\<lparr>scheduling := Some sch'\<rparr>)"
        using grown by auto
      have q1: "r \<in> set (sc_running s1)" "sc_config s1 = sc_config s"
        using r g(2) by (simp_all add: queues_def)
      have "need \<le> table_size t * ?bs"
        using q(2) t(2) bs(1) by (meson mult_right_mono order_trans less_imp_le)
      then have cap: "cl + (if \<not> ?boot then 1 else 0) \<le> table_size (ss_block_table sch') * kv_block_size (sc_config s1)"
        by (simp add: need_def t(1) q1(2))
      have lim: "generated_token_count (sc_heap s1 r) + reserved_generation_tokens (reservation sch') < token_limit (sc_heap s1 r)"
        using work(1) by (simp add: t generated_token_count_def token_limit_def)
      have h: "scheduling (sc_heap s1 r) = Some sch'" "status (sc_heap s1 r) = Active" "is_decode_phase (phase (cursor sch'))"
        using act ph by (simp_all add: t)
      have "built C fl X B s1 ((push_item (Decode_Work \<lparr>dt_seq_id = ss_seq_id sch',
          dt_input_token = (if ?boot then last (prompt_tokens ?st) else 0), dt_expected_context_len = Some cl,
          dt_write_kv = (\<not> ?boot), dt_late_bind = (\<not> ?boot), dt_block_table = ss_block_table sch'\<rparr>) ctx1)
            \<lparr>token_budget := token_budget ctx1 - 1\<rparr>,
          upd_sched r (\<lambda>sch. sch\<lparr>reservation := ?rv\<lparr>reserved_generation_tokens := reserved_generation_tokens ?rv + 1,
            reserved_kv_tokens := reserved_kv_tokens ?rv + (if \<not> ?boot then 1 else 0),
            execution_leases := execution_leases ?rv + 1\<rparr>\<rparr>) s1)"
        by (rule push_decode_ok [OF g(3) q1(1) h bud1 lim _ _ cap refl]) (simp_all add: t(1) cl_def)
      then show ?thesis
        using work g(1,2) q(1) Some pt
        unfolding build_decode_work_def Let_def cc ctx1_def cl_def need_def bs(2)
        by (simp add: built_def t(1) nb cong: if_cong)
    qed
  qed
qed

section \<open>Whole building functions\<close>

lemma build_state_work_ok:
  assumes inv: "sched_inv_at C (fl @ ctx_items ctx) X s" and r: "r \<in> set (sc_running s)" and bud: "budget_ok B ctx"
  shows "yields (build_state_work dbg ctx r s) (built C fl X B s)"
proof -
  have live: "r \<in> live s" using r by (simp add: live_def)
  obtain sch where sch: "scheduling (sc_heap s r) = Some sch"
    using queue_invD(10) [OF sched_inv_atD(2) [OF inv] live] by blast
  have "built C fl X B s (ctx, snd (send_terminal_event r s))"
    using inv_terminal [OF inv live] bud by (simp add: built_def)
  then show ?thesis
    using built_refl [OF inv bud] build_prefill_ok [OF inv r sch _ _ bud] build_decode_ok [OF inv r sch _ _ bud, of dbg]
    by (simp add: build_state_work_def sch is_schedulable_state_def not_le Let_def)
qed

lemma built_trans: "built C fl X B s (ctx', s') \<Longrightarrow> built C fl X B s' x \<Longrightarrow> built C fl X B s x"
  by (auto simp: built_def)

lemma build_running_loop_ok:
  assumes "sched_inv_at C (fl @ ctx_items ctx) X s" "set rs \<subseteq> set (sc_running s)" "budget_ok B ctx"
  shows "yields (build_running_loop dbg rs ctx s) (built C fl X B s)"
  using assms
proof (induction rs arbitrary: ctx s)
  case Nil
  then show ?case by (simp add: built_refl)
next
  case (Cons r rs)
  show ?case
  proof (cases "token_budget ctx \<le> 0")
    case True
    then show ?thesis using built_refl [OF Cons.prems(1,3)] by simp
  next
    case False
    obtain ctx' s' where b: "build_state_work dbg ctx r s = Some (ctx', s')" "built C fl X B s (ctx', s')"
      using build_state_work_ok [OF Cons.prems(1) _ Cons.prems(3), of r dbg] Cons.prems(2) by (auto elim!: yieldsE)
    then have "sc_running s' = sc_running s" "sched_inv_at C (fl @ ctx_items ctx') X s'" "budget_ok B ctx'"
      by (simp_all add: built_def queues_def)
    then have "yields (build_running_loop dbg rs ctx' s') (built C fl X B s')"
      using Cons.IH [of ctx' s'] Cons.prems(2) by simp
    then show ?thesis
      using False b by (auto intro: yields_mono built_trans)
  qed
qed

end
