(* ===== verification/Scheduler_Admit.thy ===== *)
theory Scheduler_Admit
  imports Scheduler_Build
begin

text \<open>
  Admission keeps the invariant and terminates: releasing, suspending and evicting sequences,
  admitting skipped and waiting requests, and \<^verbatim>\<open>schedule_step\<close> as a whole.
\<close>

section \<open>Taking a sequence apart\<close>

lemma release_detach:
  assumes inv: "sched_inv_at C fl X s" and r: "r \<in> live s" and none: "items_of (seq_of s r) fl = []"
    and s0: "sc_block_pool s0 = sc_block_pool s" "sc_block_cache s0 = sc_block_cache s" "sc_config s0 = sc_config s"
      "sc_heap s0 = (sc_heap s)(r := st0)" "sc_by_seq_id s0 = sc_by_seq_id s" "sc_next_seq_id s0 = sc_next_seq_id s"
      "sc_requests s0 = sc_requests s" "sc_next_ptr s0 = sc_next_ptr s" "sc_waiting s0 = sc_waiting s"
      "sc_freed_node s0 = sc_freed_node s" "sc_exec_failed s0 = sc_exec_failed s"
    and st0: "scheduling st0 = scheduling (sc_heap s r)" "rs_request_id st0 = rs_request_id (sc_heap s r)"
      "generated_tokens st0 = generated_tokens (sc_heap s r)" "rs_sampling st0 = rs_sampling (sc_heap s r)"
  shows "\<exists>p c. release_scheduling_blocks dbg r s0 = Some (s0\<lparr>sc_heap := (sc_heap s)(r := st0\<lparr>scheduling := None\<rparr>),
      sc_by_seq_id := (sc_by_seq_id s)(seq_of s r := None), sc_block_pool := p, sc_block_cache := c\<rparr>) \<and>
    (\<forall>s'. core s' = core (s0\<lparr>sc_heap := (sc_heap s)(r := st0\<lparr>scheduling := None\<rparr>),
      sc_by_seq_id := (sc_by_seq_id s)(seq_of s r := None), sc_block_pool := p, sc_block_cache := c,
      sc_skip := remove1 r (sc_skip s), sc_running := remove1 r (sc_running s)\<rparr>) \<longrightarrow> sched_inv_at (insert r C) fl X s')"
proof -
  note I = sched_inv_atD [OF inv]
  obtain sch where sch: "scheduling (sc_heap s r) = Some sch"
    using queue_invD(10) [OF I(2) r] by blast
  have so: "sched_of s r = sch" "seq_of s r = ss_seq_id sch" "tab_of s r = block_ids (ss_block_table sch)"
    by (simp_all add: sched_of_def seq_of_def tab_of_def sch)
  have own: "owned (refs (sc_block_pool s)) (mset (block_ids (ss_block_table sch)) +
      ((\<Sum>r' \<in> live s - {r}. mset (tab_of s r')) + X))"
    using inv_own_parts [OF I(5) r] by (simp add: so add.assoc)
  obtain p c where pc: "release_request_blocks dbg (ss_block_table sch) (sc_block_pool s) (sc_block_cache s) = Some (p, c)"
      "cache_wf p c" "pool_geom p = pool_geom (sc_block_pool s)"
      "owned (refs p) ((\<Sum>r' \<in> live s - {r}. mset (tab_of s r')) + X)"
    using release_request_owned [OF _ own, of "sc_block_cache s" dbg] I(5) by (auto simp: kv_inv_def elim!: yieldsE)
  have park: "parked_ok (st0\<lparr>scheduling := None\<rparr>)"
    using seq_okD(14) [OF inv_live_seq [OF inv r sch]] st0(3,4)
    by (simp add: parked_ok_def generated_token_count_def token_limit_def)
  have "release_scheduling_blocks dbg r s0 = Some (s0\<lparr>sc_heap := (sc_heap s)(r := st0\<lparr>scheduling := None\<rparr>),
      sc_by_seq_id := (sc_by_seq_id s)(seq_of s r := None), sc_block_pool := p, sc_block_cache := c\<rparr>)"
    using pc(1) st0(1) sch by (simp add: release_scheduling_blocks_def upd_req_def s0 so(2))
  moreover have "sched_inv_at (insert r C) fl X s'"
    if s': "core s' = core (s0\<lparr>sc_heap := (sc_heap s)(r := st0\<lparr>scheduling := None\<rparr>),
      sc_by_seq_id := (sc_by_seq_id s)(seq_of s r := None), sc_block_pool := p, sc_block_cache := c,
      sc_skip := remove1 r (sc_skip s), sc_running := remove1 r (sc_running s)\<rparr>)" for s'
    by (rule inv_detach [OF inv r none park _ pc(2,3,4)]) (use s' st0(2) in \<open>simp_all add: core_def s0\<close>)
  ultimately show ?thesis by blast
qed

text \<open>The fields that tell how far the admission loop has come.\<close>

definition backlog :: "Scheduler \<Rightarrow> nat" where
  "backlog s = length (sc_skip s) + length (sc_waiting s)"

lemma drop_request_ok:
  assumes inv: "sched_inv_at (insert r C) fl X s" "r \<notin> C"
  shows "yields (drop_request dbg ev r s) (\<lambda>s'. sched_inv_at C fl X s' \<and> sc_waiting s' = sc_waiting s \<and>
    sc_skip s' = sc_skip s \<and> sc_running s' = sc_running s \<and> sc_config s' = sc_config s)"
proof -
  have none: "scheduling (sc_heap s r) = None"
    using queue_invD(8) [OF sched_inv_atD(2) [OF inv(1)], of r] by (simp add: parked_ok_def)
  let ?s = "snd (send_event (rs_sink (sc_heap s r)) ev s)"
  have c: "core ?s = core s" by simp
  then have eq: "sc_heap ?s = sc_heap s" "sc_requests ?s = sc_requests s" "sc_waiting ?s = sc_waiting s"
      "sc_skip ?s = sc_skip s" "sc_running ?s = sc_running s" "sc_config ?s = sc_config s"
    by (simp_all add: core_def)
  let ?s' = "?s\<lparr>sc_requests := (sc_requests s)(rs_request_id (sc_heap s r) := None)\<rparr>"
  have "core ?s' = core (s\<lparr>sc_requests := (sc_requests s)(rs_request_id (sc_heap s r) := None)\<rparr>)"
    using c by (simp add: core_def)
  from inv_erase [OF inv this] show ?thesis
    using none by (simp add: drop_request_def erase_request_def eq)
qed

lemma release_skipped:
  assumes inv: "sched_inv_at C fl X s" and skip: "sc_skip s = r # rest"
    and s0: "core s0 = core (s\<lparr>sc_skip := rest, sc_heap := (sc_heap s)(r := st0)\<rparr>)"
    and st0: "scheduling st0 = scheduling (sc_heap s r)" "rs_request_id st0 = rs_request_id (sc_heap s r)"
      "generated_tokens st0 = generated_tokens (sc_heap s r)" "rs_sampling st0 = rs_sampling (sc_heap s r)"
  shows "yields (release_scheduling_blocks dbg r s0) (\<lambda>s1. sched_inv_at (insert r C) fl X s1 \<and>
    sc_waiting s1 = sc_waiting s \<and> sc_skip s1 = rest \<and> sc_running s1 = sc_running s \<and> sc_config s1 = sc_config s)"
proof -
  note Q = queue_invD [OF sched_inv_atD(2) [OF inv]]
  have r: "r \<in> live s" "r \<notin> set (sc_running s)"
    using skip Q(4) by (auto simp: live_def)
  have "remove1 r (sc_skip s) = rest" "remove1 r (sc_running s) = sc_running s"
    using skip r(2) by (simp_all add: remove1_idem)
  then show ?thesis
    using release_detach [OF inv r(1) no_items_unless_running [OF inv r], of s0 st0 dbg] s0 st0
    by (fastforce simp: core_def yields_def)
qed

lemma release_running:
  assumes inv: "sched_inv_at C fl X s" and r: "r \<in> set (sc_running s)" and none: "items_of (seq_of s r) fl = []"
    and s0: "core s0 = core (s\<lparr>sc_heap := (sc_heap s)(r := st0)\<rparr>)"
    and st0: "scheduling st0 = scheduling (sc_heap s r)" "rs_request_id st0 = rs_request_id (sc_heap s r)"
      "generated_tokens st0 = generated_tokens (sc_heap s r)" "rs_sampling st0 = rs_sampling (sc_heap s r)"
  shows "yields (release_scheduling_blocks dbg r s0) (\<lambda>s1.
    sched_inv_at (insert r C) fl X (s1\<lparr>sc_running := remove1 r (sc_running s1)\<rparr>) \<and>
    sc_waiting s1 = sc_waiting s \<and> sc_skip s1 = sc_skip s \<and> sc_running s1 = sc_running s \<and> sc_config s1 = sc_config s \<and>
    sc_heap s1 = (sc_heap s)(r := st0\<lparr>scheduling := None\<rparr>))"
proof -
  have l: "r \<in> live s" and "r \<notin> set (sc_skip s)"
    using r queue_invD(4) [OF sched_inv_atD(2) [OF inv]] by (auto simp: live_def)
  then have "remove1 r (sc_skip s) = sc_skip s"
    by (simp add: remove1_idem)
  then show ?thesis
    using release_detach [OF inv l none, of s0 st0 dbg] s0 st0
    by (fastforce simp: core_def yields_def)
qed

definition admits :: "bool \<Rightarrow> WorkItem list \<Rightarrow> int \<Rightarrow> Scheduler \<Rightarrow> bool \<times> BatchBuildContext \<times> Scheduler \<Rightarrow> bool" where
  "admits le fl B s = (\<lambda>(again, ctx', s'). sched_inv (fl @ ctx_items ctx') s' \<and> budget_ok B ctx' \<and>
     sc_config s' = sc_config s \<and> (again \<longrightarrow> backlog s' < backlog s) \<and> (le \<longrightarrow> backlog s' \<le> backlog s))"

lemma core_resume:
  assumes inv: "sched_inv_at C fl X s" and skip: "sc_skip s = r # rest" and sch: "scheduling (sc_heap s r) = Some sch"
    and s': "core s' = core (s\<lparr>sc_skip := rest, sc_running := sc_running s @ [r],
      sc_by_seq_id := (sc_by_seq_id s)(ss_seq_id sch \<mapsto> r)\<rparr>)"
  shows "sched_inv_at C fl X s'"
proof (rule inv_requeue [OF inv _ _ _ _ s'])
  note I = sched_inv_atD [OF inv]
  have live: "r \<in> live s" and q: "seq_of s r = ss_seq_id sch"
    using skip by (simp_all add: live_def seq_of_def sched_of_def sch)
  show "distinct (sc_waiting s @ rest @ sc_running s @ [r])"
    using I(2) skip by (auto simp: queue_inv_def)
  show "set rest \<union> set (sc_running s @ [r]) = live s"
    using skip by (auto simp: live_def)
  show "((sc_by_seq_id s)(ss_seq_id sch \<mapsto> r)) q' = Some r' \<longleftrightarrow> r' \<in> set (sc_running s @ [r]) \<and> seq_of s r' = q'" for q' r'
    using seq_invD(1) [OF I(3), of q' r'] seq_invD(3) [OF I(3) live, of r'] q by (auto simp: live_def)
  show "((sc_by_seq_id s)(ss_seq_id sch \<mapsto> r)) (work_sequence_id w) \<noteq> None" if "w \<in> set fl" for w
    using flight_invD(2) [OF I(6) that] by simp
qed

lemma drop_and_continue:
  assumes "sched_inv_at {r} (fl @ ctx_items ctx) {#} s2" "budget_ok B ctx"
    and "sc_config s2 = sc_config s" "backlog s2 < backlog s"
  shows "yields (drop_request dbg ev r s2 \<bind> (\<lambda>s. Some (True, ctx, s))) (admits le fl B s)"
  by (rule yields_bind [OF drop_request_ok [OF assms(1)]])
    (use assms(2-4) in \<open>simp_all add: admits_def sched_inv_def backlog_def\<close>)

lemma release_and_drop:
  assumes inv: "sched_inv (fl @ ctx_items ctx) s" and skip: "sc_skip s = r # rest" and bud: "budget_ok B ctx"
    and s0: "core s0 = core (s\<lparr>sc_skip := rest\<rparr>)"
  shows "yields (release_scheduling_blocks dbg r s0 \<bind> (\<lambda>s. drop_request dbg ev r s \<bind> (\<lambda>s. Some (True, ctx, s))))
    (admits le fl B s)"
proof -
  have s0': "core s0 = core (s\<lparr>sc_skip := rest, sc_heap := (sc_heap s)(r := sc_heap s r)\<rparr>)"
    using s0 by (simp add: core_def)
  show ?thesis
    by (rule yields_bind [OF release_skipped [OF inv [unfolded sched_inv_def] skip s0' refl refl refl refl]],
        rule drop_and_continue) (simp_all add: backlog_def skip bud)
qed

lemma finish_parked:
  assumes inv: "sched_inv_at (insert r C) fl X s"
  shows "sched_inv_at (insert r C) fl X (upd_req r (\<lambda>st. st\<lparr>status := v\<rparr>) s)"
proof (rule inv_upd_parked [OF inv])
  show "r \<in> set (sc_waiting s) \<union> insert r C" by simp
  show "parked_ok ((sc_heap s r)\<lparr>status := v\<rparr>)"
    using queue_invD(8) [OF sched_inv_atD(2) [OF inv], of r]
    by (simp add: parked_ok_def generated_token_count_def token_limit_def)
qed (simp_all add: upd_req_def)

lemma release_and_finish:
  assumes inv: "sched_inv (fl @ ctx_items ctx) s" and skip: "sc_skip s = r # rest" and bud: "budget_ok B ctx"
    and s0: "core s0 = core (s\<lparr>sc_skip := rest\<rparr>)"
  shows "yields (release_scheduling_blocks dbg r s0 \<bind>
      (\<lambda>s. erase_request dbg r (snd (send_terminal_event r s)) \<bind> (\<lambda>s. Some (True, ctx, s)))) (admits le fl B s)"
proof -
  have s0': "core s0 = core (s\<lparr>sc_skip := rest, sc_heap := (sc_heap s)(r := sc_heap s r)\<rparr>)"
    using s0 by (simp add: core_def)
  have eq: "erase_request dbg r (snd (send_terminal_event r s')) =
      drop_request dbg (Inr terminal_token) r (upd_req r (\<lambda>st. st\<lparr>status := Finished\<rparr>) s')" for s'
    by (simp add: drop_request_def send_terminal_event_def upd_req_def)
  show ?thesis unfolding eq
    by (rule yields_bind [OF release_skipped [OF inv [unfolded sched_inv_def] skip s0' refl refl refl refl]],
        rule drop_and_continue) (auto simp: backlog_def skip bud upd_req_def [symmetric] intro!: finish_parked, simp_all add: upd_req_def)
qed

lemma resume_skipped:
  assumes inv: "sched_inv (fl @ ctx_items ctx) s" and skip: "sc_skip s = r # rest" and bud: "budget_ok B ctx"
    and sch: "scheduling (sc_heap s r) = Some sch"
    and s0: "core s0 = core (s\<lparr>sc_skip := rest\<rparr>)"
  shows "yields (build_state_work dbg ctx r
      (s0\<lparr>sc_by_seq_id := (sc_by_seq_id s0)(ss_seq_id sch \<mapsto> r), sc_running := sc_running s0 @ [r]\<rparr>) \<bind>
      (\<lambda>(ctx, s). Some (True, ctx, s))) (admits le fl B s)"
proof -
  define s2 where "s2 = s0\<lparr>sc_by_seq_id := (sc_by_seq_id s0)(ss_seq_id sch \<mapsto> r), sc_running := sc_running s0 @ [r]\<rparr>"
  have inv2: "sched_inv_at {} (fl @ ctx_items ctx) {#} s2"
    by (rule core_resume [OF inv [unfolded sched_inv_def] skip sch]) (use s0 in \<open>simp add: core_def s2_def\<close>)
  have r: "r \<in> set (sc_running s2)"
    by (simp add: s2_def)
  have q: "sc_config s2 = sc_config s" "sc_waiting s2 = sc_waiting s" "sc_skip s2 = rest"
    using s0 by (simp_all add: s2_def core_def)
  show ?thesis unfolding s2_def [symmetric]
    by (rule yields_bind [OF build_state_work_ok [OF inv2 r bud]])
      (use q in \<open>auto simp: built_def admits_def sched_inv_def queues_def backlog_def skip\<close>)
qed

lemma admit_one_skipped_ok:
  assumes inv: "sched_inv (fl @ ctx_items ctx) s" and bud: "budget_ok B ctx"
  shows "yields (admit_one_skipped dbg ctx s) (admits le fl B s)"
proof (cases "token_budget ctx \<le> 0 \<or> sc_skip s = [] \<or>
    int (length (sc_running s)) \<ge> size_cast (max_running_requests (sc_config s))")
  case True
  then have "admit_one_skipped dbg ctx s = Some (False, ctx, s)"
    by (auto simp: admit_one_skipped_def)
  then show ?thesis using inv bud by (simp add: admits_def)
next
  case False
  then obtain r rest where skip: "sc_skip s = r # rest" by (cases "sc_skip s") auto
  obtain sch where sch: "scheduling (sc_heap s r) = Some sch"
    using queue_invD(10) [OF sched_inv_atD(2) [OF inv [unfolded sched_inv_def]], of r] skip by (auto simp: live_def)
  obtain acc s1 where acc: "accepting_load (s\<lparr>sc_skip := rest\<rparr>) = (acc, s1)"
    by (cases "accepting_load (s\<lparr>sc_skip := rest\<rparr>)")
  have c1: "core s1 = core (s\<lparr>sc_skip := rest\<rparr>)"
    using core_accepting_load [of "s\<lparr>sc_skip := rest\<rparr>"] acc by simp
  note R = release_and_drop [OF inv skip bud refl] release_and_drop [OF inv skip bud c1]
    release_and_finish [OF inv skip bud c1] resume_skipped [OF inv skip bud sch c1]
  show ?thesis
    using False skip R by (simp add: admit_one_skipped_def Let_def sch acc split: bool.split)
qed

section \<open>Making room\<close>

lemma prepare_for_wait_simps [simp]:
  "scheduling (prepare_for_wait st) = scheduling st" "rs_request_id (prepare_for_wait st) = rs_request_id st"
  "generated_tokens (prepare_for_wait st) = generated_tokens st" "rs_sampling (prepare_for_wait st) = rs_sampling st"
  by (simp_all add: prepare_for_wait_def)

definition kept :: "RequestPtr set \<Rightarrow> WorkItem list \<Rightarrow> BlockId multiset \<Rightarrow> Scheduler \<Rightarrow> Scheduler \<Rightarrow> bool" where
  "kept C fl X s s' \<longleftrightarrow> sched_inv_at C fl X s' \<and> sc_config s' = sc_config s"

lemma evict_one_skipped_ok:
  assumes inv: "sched_inv_at C fl X s"
  shows "yields (evict_one_skipped dbg s) (\<lambda>(_, s'). kept C fl X s s')"
proof (cases "sc_skip s")
  case Nil
  then show ?thesis using inv by (simp add: evict_one_skipped_def kept_def)
next
  case (Cons r rest)
  have r: "r \<notin> C" "scheduling (sc_heap s r) \<noteq> None"
    using queue_invD(6) [OF sched_inv_atD(2) [OF inv]] queue_invD(10) [OF sched_inv_atD(2) [OF inv], of r] Cons by (auto simp: live_def)
  let ?s0 = "upd_req r prepare_for_wait (s\<lparr>sc_skip := rest\<rparr>)"
  have c0: "core ?s0 = core (s\<lparr>sc_skip := rest, sc_heap := (sc_heap s)(r := prepare_for_wait (sc_heap s r))\<rparr>)"
    by (simp add: core_def upd_req_def)
  have "yields (release_scheduling_blocks dbg r ?s0 \<bind> (\<lambda>s. Some (True, s\<lparr>sc_waiting := r # sc_waiting s\<rparr>)))
      (\<lambda>(_, s'). kept C fl X s s')"
    by (rule yields_bind [OF release_skipped [OF inv Cons c0]]) (auto simp: kept_def core_def intro!: inv_park [OF _ r(1)])
  then show ?thesis
    using r(2) by (auto simp: evict_one_skipped_def Cons Let_def)
qed

lemma find_smallest_loop_in:
  "find_smallest_loop s b rs best k = Some r \<Longrightarrow> r \<in> set rs \<and> suspendable b (sc_heap s r) \<or> best = Some r"
  by (induction rs arbitrary: best k) (auto split: if_splits)

lemma find_smallest_in:
  "find_smallest s b = Some r \<Longrightarrow> r \<in> set (sc_running s) \<and> suspendable b (sc_heap s r)"
  unfolding find_smallest_def by (drule find_smallest_loop_in) simp

lemma leases_zero_no_items:
  assumes inv: "sched_inv_at C fl X s" and r: "r \<in> live s"
    and sch: "scheduling (sc_heap s r) = Some sch" "execution_leases (reservation sch) = 0"
  shows "items_of (seq_of s r) fl = []"
  using ledgerD(1) [OF seq_okD(1) [OF inv_live_seq [OF inv r sch(1)]]] sch
  by (simp add: seq_of_def sched_of_def)

lemma release_and_move_to_wait_ok:
  assumes inv: "sched_inv_at C fl X s" and r: "r \<in> set (sc_running s)"
    and none: "items_of (seq_of s r) fl = []"
  shows "yields (release_and_move_to_wait dbg r s) (kept C fl X s)"
proof -
  have r': "r \<notin> C" "scheduling (sc_heap s r) \<noteq> None"
    using queue_invD(6) [OF sched_inv_atD(2) [OF inv]] queue_invD(10) [OF sched_inv_atD(2) [OF inv], of r] r by (auto simp: live_def)
  have c0: "core (upd_req r prepare_for_wait s) = core (s\<lparr>sc_heap := (sc_heap s)(r := prepare_for_wait (sc_heap s r))\<rparr>)"
    by (simp add: core_def upd_req_def)
  have "yields (release_scheduling_blocks dbg r (upd_req r prepare_for_wait s) \<bind> (\<lambda>s. sc_freed_node s r \<bind>
      (\<lambda>request. Some (s\<lparr>sc_running := remove1 r (sc_running s), sc_waiting := request # sc_waiting s\<rparr>)))) (kept C fl X s)"
  proof (rule yields_bind [OF release_running [OF inv r none c0 prepare_for_wait_simps]])
    fix s1 assume s1: "sched_inv_at (insert r C) fl X (s1\<lparr>sc_running := remove1 r (sc_running s1)\<rparr>) \<and>
      sc_waiting s1 = sc_waiting s \<and> sc_skip s1 = sc_skip s \<and> sc_running s1 = sc_running s \<and> sc_config s1 = sc_config s \<and>
      sc_heap s1 = (sc_heap s)(r := prepare_for_wait (sc_heap s r)\<lparr>scheduling := None\<rparr>)"
    then have "cfg_inv (s1\<lparr>sc_running := remove1 r (sc_running s1)\<rparr>)"
      by (blast dest: sched_inv_atD(1))
    from cfg_invD(10) [OF this, of r] have "sc_freed_node s1 r = Some r" by simp
    then show "yields (sc_freed_node s1 r \<bind> (\<lambda>request.
        Some (s1\<lparr>sc_running := remove1 r (sc_running s1), sc_waiting := request # sc_waiting s1\<rparr>))) (kept C fl X s)"
      using s1 by (auto simp: kept_def core_def intro!: inv_park [OF _ r'(1)])
  qed
  then show ?thesis
    using r'(2) by (auto simp: release_and_move_to_wait_def)
qed

lemma suspend_one_running_ok:
  assumes inv: "sched_inv_at C fl X s"
  shows "yields (suspend_one_running dbg s) (\<lambda>(_, s'). kept C fl X s s')"
proof -
  have *: "yields (release_and_move_to_wait dbg r s \<bind> (\<lambda>s. Some (True, s\<lparr>sc_admission_paused := (sc_running s \<noteq> [])\<rparr>)))
      (\<lambda>(_, s'). kept C fl X s s')" if r: "r \<in> set (sc_running s)" "suspendable b (sc_heap s r)" for r b
  proof -
    obtain sch where sch: "scheduling (sc_heap s r) = Some sch" "execution_leases (reservation sch) = 0"
      using r(2) by (auto simp: suspendable_def split: option.splits)
    have "r \<in> live s" using r(1) by (simp add: live_def)
    from release_and_move_to_wait_ok [OF inv r(1) leases_zero_no_items [OF inv this sch], of dbg]
    show ?thesis
      by (rule yields_bind) (auto simp: kept_def sched_inv_core [OF core_simps(1)])
  qed
  show ?thesis
    using inv find_smallest_in [of s True] find_smallest_in [of s False] *
    by (auto simp: suspend_one_running_def kept_def split: option.split)
qed

lemma make_room_ok:
  assumes inv: "sched_inv_at C fl X s"
  shows "yields (make_room dbg s) (kept C fl X s)"
  unfolding make_room_def
proof (rule yields_bind [OF evict_one_skipped_ok [OF inv]], clarsimp)
  fix s' assume s': "kept C fl X s s'"
  then have "sched_inv_at C fl X s'" by (simp add: kept_def)
  from suspend_one_running_ok [OF this, of dbg]
  show "yields (suspend_one_running dbg s' \<bind> (\<lambda>(_, s). Some s)) (kept C fl X s)"
    by (rule yields_bind) (use s' in \<open>auto simp: kept_def\<close>)
qed

section \<open>Admitting a waiting request\<close>

lemma admitted_ok:
  assumes "parked_ok st" "prompt_tokens st \<noteq> []" "rs_max_context_len st \<le> cap" "0 < bs"
    "0 \<le> prefix_hit_blocks lk" "prefix_hit_blocks lk * bs \<le> int (length (prompt_tokens st))"
    "int (length (prompt_tokens st)) \<le> table_size table * bs"
  shows "seq_ok cap bs [] (st\<lparr>scheduling := v\<rparr>) (admitted_state st sid lk table bs)"
proof -
  define F and n and m where "F = prefix_hit_blocks lk * bs" and "n = int (length (prompt_tokens st))"
    and "m = table_size table * bs"
  have "0 \<le> F" "0 < n" "F \<le> n" "n \<le> m"
    using assms by (simp_all add: F_def n_def m_def)
  then show ?thesis
    using assms(1-4) unfolding admitted_state_def F_def [symmetric] n_def [symmetric]
    by (auto simp: seq_ok_def ledger_def parked_ok_def Let_def committed_context_def n_def [symmetric] m_def [symmetric]
        generated_token_count_def token_limit_def phase_simps)
qed

lemma start_sequence_ok:
  assumes inv: "sched_inv_at {r} (fl @ ctx_items ctx) (mset (block_ids table)) s" and bud: "budget_ok B ctx"
    and st: "prompt_tokens (sc_heap s r) \<noteq> []" "rs_max_context_len (sc_heap s r) \<le> ctx_capacity s"
      "0 \<le> prefix_hit_blocks lk"
      "prefix_hit_blocks lk * kv_block_size (sc_config s) \<le> int (length (prompt_tokens (sc_heap s r)))"
      "int (length (prompt_tokens (sc_heap s r))) \<le> table_size table * kv_block_size (sc_config s)"
    and less: "sc_config s = sc_config s0" "backlog s < backlog s0"
  shows "yields (start_sequence dbg ctx r lk table s) (admits le fl B s0)"
proof -
  note I = sched_inv_atD [OF inv] and G = cfg_invD [OF sched_inv_atD(1) [OF inv]]
  define sch where "sch = admitted_state (sc_heap s r) (sc_next_seq_id s) lk table (bp_block_size (sc_block_pool s))"
  define s1 where "s1 = upd_req r (\<lambda>st. st\<lparr>scheduling := Some sch\<rparr>) (s\<lparr>sc_next_seq_id := sc_next_seq_id s + 1,
    sc_by_seq_id := (sc_by_seq_id s)(sc_next_seq_id s \<mapsto> r), sc_running := sc_running s @ [r]\<rparr>)"
  have ok: "seq_ok (ctx_capacity s) (kv_block_size (sc_config s)) [] ((sc_heap s r)\<lparr>scheduling := Some sch\<rparr>) sch"
    unfolding sch_def G(1) by (rule admitted_ok [OF _ st(1,2) G(3) st(3-5)]) (use queue_invD(8) [OF I(2), of r] in simp)
  have t: "ss_block_table sch = table" "ss_seq_id sch = sc_next_seq_id s"
    by (simp_all add: sch_def admitted_state_def Let_def)
  have inv1: "sched_inv_at {} (fl @ ctx_items ctx) {#} s1"
    by (rule inv_attach [where sch' = sch and st' = "(sc_heap s r)\<lparr>scheduling := Some sch\<rparr>", OF _ _ _ t(2) _ ok])
      (use inv in \<open>simp_all add: t s1_def upd_req_def core_def\<close>)
  have "r \<in> set (sc_running s1)" "sc_config s1 = sc_config s0" "backlog s1 = backlog s"
    using less by (simp_all add: s1_def upd_req_def backlog_def)
  then have "yields (build_state_work dbg ctx r s1 \<bind> (\<lambda>(ctx, s). Some (True, ctx, s))) (admits le fl B s0)"
    by (intro yields_bind [OF build_state_work_ok [OF inv1 _ bud]])
      (use less(2) in \<open>auto simp: built_def admits_def sched_inv_def queues_def backlog_def\<close>)
  then show ?thesis
    by (simp add: start_sequence_def Let_def s1_def sch_def)
qed

lemma put_back_ok:
  assumes inv: "sched_inv_at {r} (fl @ ctx_items ctx) {#} s" and bud: "budget_ok B ctx" and cfg: "sc_config s = sc_config s0"
  shows "yields (make_room dbg s \<bind> (\<lambda>s. Some (False, ctx,
    s\<lparr>sc_block_shortage_pending := False, sc_waiting := r # sc_waiting s\<rparr>))) (admits False fl B s0)"
proof (rule yields_bind [OF make_room_ok [OF inv]])
  fix s1 assume s1: "kept {r} (fl @ ctx_items ctx) {#} s s1"
  then have "sched_inv_at {} (fl @ ctx_items ctx) {#} (s1\<lparr>sc_block_shortage_pending := False, sc_waiting := r # sc_waiting s1\<rparr>)"
    by (intro inv_park [of r "{}" _ _ s1]) (simp_all add: kept_def core_def)
  then show "yields (Some (False, ctx, s1\<lparr>sc_block_shortage_pending := False, sc_waiting := r # sc_waiting s1\<rparr>)) (admits False fl B s0)"
    using s1 bud cfg by (simp add: admits_def sched_inv_def kept_def)
qed

lemma admit_with_table_ok:
  assumes inv: "sched_inv_at {r} (fl @ ctx_items ctx) (mset (block_ids table)) s" and bud: "budget_ok B ctx"
    and st: "prompt_tokens (sc_heap s r) \<noteq> []" "rs_max_context_len (sc_heap s r) \<le> ctx_capacity s"
      "0 \<le> prefix_hit_blocks lk"
      "prefix_hit_blocks lk * kv_block_size (sc_config s) \<le> int (length (prompt_tokens (sc_heap s r)))"
      "int (length (prompt_tokens (sc_heap s r))) \<le> table_size table * kv_block_size (sc_config s)"
    and less: "sc_config s = sc_config s0" "backlog s < backlog s0"
  shows "yields (case accepting_load s of
           (False, s) \<Rightarrow> do {
             (p, c) \<leftarrow> release_request_blocks dbg table (sc_block_pool s) (sc_block_cache s);
             s \<leftarrow> drop_request dbg (Inl ServerShuttingDown) r (s\<lparr>sc_block_pool := p, sc_block_cache := c\<rparr>);
             Some (True, ctx, s)
           }
         | (True, s) \<Rightarrow> start_sequence dbg ctx r lk table s) (admits le fl B s0)"
proof -
  obtain acc s1 where acc: "accepting_load s = (acc, s1)" by (cases "accepting_load s")
  have c1: "core s1 = core s"
    using core_accepting_load [of s] acc by simp
  have inv1: "sched_inv_at {r} (fl @ ctx_items ctx) (mset (block_ids table)) s1"
    using inv sched_inv_core [OF c1] by simp
  have e1: "sc_heap s1 = sc_heap s" "sc_config s1 = sc_config s" "backlog s1 = backlog s"
    using c1 by (simp_all add: core_def backlog_def)
  have own: "owned (refs (sc_block_pool s1)) (mset (block_ids table) + held s1)" and wf: "cache_wf (sc_block_pool s1) (sc_block_cache s1)"
    using sched_inv_atD(5) [OF inv1] by (simp_all add: kv_inv_def add.commute)
  have "yields (do {
             (p, c) \<leftarrow> release_request_blocks dbg table (sc_block_pool s1) (sc_block_cache s1);
             s \<leftarrow> drop_request dbg (Inl ServerShuttingDown) r (s1\<lparr>sc_block_pool := p, sc_block_cache := c\<rparr>);
             Some (True, ctx, s)
           }) (admits le fl B s0)"
  proof (rule yields_bind [OF release_request_owned [OF wf own]], clarsimp)
    fix p c assume pc: "cache_wf p c" "pool_geom p = pool_geom (sc_block_pool s1)" "owned (refs p) (held s1)"
    then have "sched_inv_at {r} (fl @ ctx_items ctx) {#} (s1\<lparr>sc_block_pool := p, sc_block_cache := c\<rparr>)"
      by (intro inv_kv [OF inv1 pc(1,2) _ refl]) simp
    then show "yields (drop_request dbg (Inl ServerShuttingDown) r (s1\<lparr>sc_block_pool := p, sc_block_cache := c\<rparr>) \<bind>
        (\<lambda>s. Some (True, ctx, s))) (admits le fl B s0)"
      by (rule drop_and_continue [OF _ bud]) (use e1 less in \<open>simp_all add: backlog_def\<close>)
  qed
  moreover have "yields (start_sequence dbg ctx r lk table s1) (admits le fl B s0)"
    by (rule start_sequence_ok [OF inv1 bud]) (use e1 st less in simp_all)
  ultimately show ?thesis by (simp add: acc split: bool.split)
qed

lemma table_size_nonneg: "0 \<le> table_size t"
  by (simp add: table_size_def)

lemma no_blocks_ok:
  assumes inv: "sched_inv_at {r} (fl @ ctx_items ctx) {#} s" and bud: "budget_ok B ctx" and cfg: "sc_config s = sc_config s0"
    and kv: "cache_wf p c" "pool_geom p = pool_geom (sc_block_pool s)" "owned (refs p) (mset (block_ids t) + held s)"
  shows "yields (release_request_blocks dbg t p c \<bind> (\<lambda>(p, c). make_room dbg (s\<lparr>sc_block_pool := p, sc_block_cache := c\<rparr>) \<bind>
    (\<lambda>s. Some (False, ctx, s\<lparr>sc_block_shortage_pending := False, sc_waiting := r # sc_waiting s\<rparr>)))) (admits False fl B s0)"
proof (rule yields_bind [OF release_request_owned [OF kv(1,3)]], clarsimp)
  fix p2 c2 assume "cache_wf p2 c2" "pool_geom p2 = pool_geom p" "owned (refs p2) (held s)"
  then show "yields (make_room dbg (s\<lparr>sc_block_pool := p2, sc_block_cache := c2\<rparr>) \<bind> (\<lambda>s. Some (False, ctx,
      s\<lparr>sc_block_shortage_pending := False, sc_waiting := r # sc_waiting s\<rparr>))) (admits False fl B s0)"
    using kv(2) cfg by (intro put_back_ok [OF inv_kv [OF inv _ _ _ refl] bud]) simp_all
qed

lemma admit_with_blocks_ok:
  assumes inv: "sched_inv_at {r} (fl @ ctx_items ctx) {#} s" and bud: "budget_ok B ctx"
    and st: "prompt_tokens (sc_heap s r) \<noteq> []" "rs_max_context_len (sc_heap s r) \<le> ctx_capacity s"
      "int (length (prompt_tokens (sc_heap s r))) \<le> ctx_capacity s"
    and less: "sc_config s = sc_config s0" "backlog s < backlog s0" and dbg: "\<not> dbg"
  shows "yields (admit_with_blocks dbg ctx r s) (admits False fl B s0)"
proof -
  note G = cfg_invD [OF sched_inv_atD(1) [OF inv]]
  let ?n = "int (length (prompt_tokens (sc_heap s r)))" and ?bs = "kv_block_size (sc_config s)"
  have own: "owned (refs (sc_block_pool s)) (held s)" and wf: "cache_wf (sc_block_pool s) (sc_block_cache s)"
    using sched_inv_atD(5) [OF inv] by (simp_all add: kv_inv_def)
  obtain q where q: "div_up ?n ?bs = Some q" "?n \<le> q * ?bs"
    using div_up_ok [OF G(3), of ?n] st(3) G(6) by auto
  obtain lk p c where lk: "lookup_prefix_cache dbg (prompt_tokens (sc_heap s r)) 0 (sc_block_pool s) (sc_block_cache s) = Some (lk, p, c)"
      and kv1: "cache_wf p c" "pool_geom p = pool_geom (sc_block_pool s)"
        "owned (refs p) (mset (block_ids (pl_block_table lk)) + held s)"
      and hit: "prefix_hit_blocks lk = table_size (pl_block_table lk)"
        "prefix_hit_blocks lk * bp_block_size (sc_block_pool s) \<le> ?n"
    using lookup_owned [OF wf own st(1) dbg, of 0] by (elim yieldsE) auto
  have bs: "bp_block_size p = ?bs" using kv1(2) G(1) by (simp add: pool_geom_def)
  define miss where "miss = q - table_size (pl_block_table lk)"
  obtain res p2 c2 where alloc: "(if miss > 0 then allocate_kv_blocks dbg miss p c else Some (Inr empty_table, p, c)) = Some (res, p2, c2)"
      and kv2: "cache_wf p2 c2" "pool_geom p2 = pool_geom (sc_block_pool s)"
      and res: "case res of Inl e \<Rightarrow> e = KVBlockExhausted \<and> owned (refs p2) (mset (block_ids (pl_block_table lk)) + held s)
        | Inr t \<Rightarrow> miss \<le> int (length (block_ids t)) \<and>
            owned (refs p2) (mset (block_ids t) + (mset (block_ids (pl_block_table lk)) + held s))"
  proof (cases "0 < miss")
    case True
    with allocate_kv_owned [OF kv1(1,3) this, of dbg] that kv1(2) show ?thesis
      by (elim yieldsE) (auto split: sum.splits)
  next
    case False
    then show ?thesis using that [of "Inr empty_table" p c] kv1 by (simp add: empty_table_def)
  qed
  have alloc': "(if table_size (pl_block_table lk) < q then allocate_kv_blocks dbg (q - table_size (pl_block_table lk)) p c
      else Some (Inr empty_table, p, c)) = Some (res, p2, c2)"
    using alloc unfolding miss_def by (simp split: if_splits)
  show ?thesis
  proof (cases res)
    case (Inl e)
    then show ?thesis
      using no_blocks_ok [OF inv bud less(1) kv2, of "pl_block_table lk" dbg] res
      by (simp add: admit_with_blocks_def Let_def lk bs q(1) alloc' del: if_split)
  next
    case (Inr t)
    let ?t = "foldl table_push_back (pl_block_table lk) (block_ids t)"
    have t: "q \<le> table_size ?t" and own2: "owned (refs p2) (held s + mset (block_ids ?t))"
      using res Inr by (auto simp: push_all_ids table_size_def miss_def ac_simps)
    have "q * ?bs \<le> table_size ?t * ?bs" using t G(3) by simp
    then have "?n \<le> table_size ?t * ?bs" using q(2) by simp
    from admit_with_table_ok [OF inv_kv [OF inv kv2 own2 refl] bud, of lk s0 dbg False] this
    show ?thesis
      using Inr st less(1) [symmetric] less(2) hit G(1)
      by (simp add: admit_with_blocks_def Let_def lk bs q(1) alloc' backlog_def table_size_nonneg del: if_split)
  qed
qed

lemma admit_one_waiting_ok:
  assumes inv: "sched_inv (fl @ ctx_items ctx) s" and bud: "budget_ok B ctx" and dbg: "\<not> dbg"
  shows "yields (admit_one_waiting dbg ctx s) (admits False fl B s)"
proof (cases "token_budget ctx \<le> 0 \<or> sc_waiting s = [] \<or>
         int (length (sc_running s)) \<ge> size_cast (max_running_requests (sc_config s)) \<or>
         int (length (sc_running s) + length (sc_skip s)) \<ge> size_cast (max_sequences (sc_config s))")
  case True
  then have "admit_one_waiting dbg ctx s = Some (False, ctx, s)"
    unfolding admit_one_waiting_def by (simp only: if_True)
  then show ?thesis using inv bud by (simp add: admits_def)
next
  case False
  then obtain r ws where w: "sc_waiting s = r # ws" by (cases "sc_waiting s") auto
  define s1 where "s1 = s\<lparr>sc_waiting := ws\<rparr>"
  have inv1: "sched_inv_at {r} (fl @ ctx_items ctx) {#} s1"
    by (rule inv_unpark(1) [OF inv [unfolded sched_inv_def] w]) (simp add: s1_def)
  note G = cfg_invD [OF sched_inv_atD(1) [OF inv1]]
  have e: "sc_config s1 = sc_config s" "backlog s1 < backlog s"
    by (simp_all add: s1_def backlog_def w)
  have eq: "admit_one_waiting dbg ctx s = (let st = sc_heap s1 r in
      if status st = Cancelled then drop_request dbg (Inl RequestCancelled) r s1 \<bind> (\<lambda>s. Some (True, ctx, s))
      else if max_tokens (rs_sampling st) \<le> 0 then drop_request dbg (Inr terminal_token) r s1 \<bind> (\<lambda>s. Some (True, ctx, s))
      else let prompt_len = int (length (prompt_tokens st)); cap = bp_max_blocks (sc_block_pool s1) * bp_block_size (sc_block_pool s1) in
        if prompt_len \<le> 0 \<or> prompt_len > rs_max_context_len st \<or> rs_max_context_len st > cap \<or> prompt_len > cap
        then drop_request dbg (Inl InvalidArgument) r s1 \<bind> (\<lambda>s. Some (True, ctx, s))
        else admit_with_blocks dbg ctx r s1)"
    using False dbg by (simp add: admit_one_waiting_def w s1_def Let_def assert_that_def)
  have D: "yields (drop_request dbg ev r s1 \<bind> (\<lambda>s. Some (True, ctx, s))) (admits False fl B s)" for ev
    by (rule drop_and_continue [OF inv1 bud e])
  show ?thesis unfolding eq Let_def
    using D admit_with_blocks_ok [OF inv1 bud _ _ _ e dbg] G(1,2) by simp
qed

section \<open>The scheduling step\<close>

lemma admission_loop_ok:
  assumes dbg: "\<not> dbg"
  shows "sched_inv (fl @ ctx_items ctx) s \<Longrightarrow> budget_ok B ctx \<Longrightarrow> yields (admission_loop dbg ctx s)
    (\<lambda>(ctx', s'). sched_inv (fl @ ctx_items ctx') s' \<and> budget_ok B ctx' \<and> sc_config s' = sc_config s)"
proof (induction "backlog s" arbitrary: ctx s rule: less_induct)
  case less
  let ?Q = "\<lambda>(ctx', s'). sched_inv (fl @ ctx_items ctx') s' \<and> budget_ok B ctx' \<and> sc_config s' = sc_config s"
  obtain acc s1 where acc: "accepting_load s = (acc, s1)" by (cases "accepting_load s")
  have c1: "core s1 = core s"
    using core_accepting_load [of s] acc by simp
  have inv1: "sched_inv (fl @ ctx_items ctx) s1"
    using less.prems(1) sched_inv_core [OF c1] by (simp add: sched_inv_def)
  have e1: "backlog s1 = backlog s" "sc_config s1 = sc_config s"
    using c1 by (simp_all add: core_def backlog_def)
  have again: "yields (admission_loop dbg ctx' s') ?Q" if "admits le fl B s2 (True, ctx', s')"
      "backlog s2 \<le> backlog s" "sc_config s2 = sc_config s" for le ctx' s' s2
    using less.hyps [of s' ctx'] that by (simp add: admits_def)
  have stop: "?Q (ctx', s')" if "admits le fl B s2 (x, ctx', s')" "sc_config s2 = sc_config s" for le ctx' s' s2 x
    using that by (simp add: admits_def)
  have waiting: "yields (if sc_waiting s2 = [] then Some (ctx2, s2) else do {
           (again, ctx, s) \<leftarrow> admit_one_waiting dbg ctx2 s2;
           if again then admission_loop dbg ctx s else Some (ctx, s) }) ?Q"
    if "admits True fl B s1 (False, ctx2, s2)" for ctx2 s2
  proof (cases "sc_waiting s2 = []")
    case True
    then show ?thesis using stop [OF that e1(2)] by simp
  next
    case False
    have s2: "sched_inv (fl @ ctx_items ctx2) s2" "budget_ok B ctx2" "backlog s2 \<le> backlog s" "sc_config s2 = sc_config s"
      using that e1 by (simp_all add: admits_def)
    have "yields (admit_one_waiting dbg ctx2 s2 \<bind> (\<lambda>(again, ctx, s).
        if again then admission_loop dbg ctx s else Some (ctx, s))) ?Q"
    proof (rule yields_bind [OF admit_one_waiting_ok [OF s2(1,2) dbg]])
      fix x assume x: "admits False fl B s2 x"
      obtain a c t where "x = (a, c, t)" by (cases x)
      then show "yields (case x of (again, ctx, s) \<Rightarrow> if again then admission_loop dbg ctx s else Some (ctx, s)) ?Q"
        using again [of False s2 c t] stop [of False s2 a c t] x s2(3,4) by (cases a) simp_all
    qed
    then show ?thesis using False by simp
  qed
  have skipped: "yields (if sc_skip s1 \<noteq> [] then admit_one_skipped dbg ctx s1 else Some (False, ctx, s1)) (admits True fl B s1)"
    using admit_one_skipped_ok [OF inv1 less.prems(2), of dbg True] inv1 less.prems(2) by (simp add: admits_def)
  have "yields ((if sc_skip s1 \<noteq> [] then admit_one_skipped dbg ctx s1 else Some (False, ctx, s1)) \<bind> (\<lambda>(again, ctx, s).
         if again then admission_loop dbg ctx s
         else if sc_waiting s = [] then Some (ctx, s)
         else do {
           (again, ctx, s) \<leftarrow> admit_one_waiting dbg ctx s;
           if again then admission_loop dbg ctx s else Some (ctx, s)
         })) ?Q"
  proof (rule yields_bind [OF skipped])
    fix x assume x: "admits True fl B s1 x"
    obtain a c t where "x = (a, c, t)" by (cases x)
    then show "yields (case x of (again, ctx, s) \<Rightarrow>
         if again then admission_loop dbg ctx s
         else if sc_waiting s = [] then Some (ctx, s)
         else do {
           (again, ctx, s) \<leftarrow> admit_one_waiting dbg ctx s;
           if again then admission_loop dbg ctx s else Some (ctx, s)
         }) ?Q"
      using again [of True s1 c t] waiting [of c t] x e1 by (cases a) simp_all
  qed
  then show ?case
    using inv1 less.prems(2) e1 by (subst admission_loop.simps) (simp add: acc)
qed

lemma batch_not_filtered:
  assumes "sched_inv (fl @ ws) s"
  shows "filter (\<lambda>w. sc_by_seq_id s (work_sequence_id w) \<noteq> None) ws = ws"
  using flight_invD(2) [OF sched_inv_atD(6) [OF assms [unfolded sched_inv_def]]] by (intro filter_True) auto

lemma schedule_step_ok:
  assumes inv: "sched_inv fl s" and dbg: "\<not> dbg"
  shows "yields (schedule_step dbg s) (\<lambda>(batch, s'). sched_inv (fl @ sb_items batch) s' \<and> sc_config s' = sc_config s \<and>
    sum_list (map work_token_count (sb_items batch)) \<le> max_token_budget (sc_config s))"
proof -
  note G = cfg_invD [OF sched_inv_atD(1) [OF inv [unfolded sched_inv_def]]]
  define ctx where "ctx = \<lparr>ctx_batch = \<lparr>sb_batch_id = sc_next_batch_id s, sb_items = [], sb_sampling = default_sampling\<rparr>,
       token_budget = max_token_budget (sc_config s), ctx_block_size = bp_block_size (sc_block_pool s), sampling_set = False\<rparr>"
  define s1 where "s1 = s\<lparr>sc_next_batch_id := sc_next_batch_id s + 1\<rparr>"
  let ?B = "max_token_budget (sc_config s)"
  have bud: "budget_ok ?B ctx" and nil: "ctx_items ctx = []"
    using G(5) by (simp_all add: budget_ok_def ctx_items_def ctx_def)
  have inv1: "sched_inv_at {} fl {#} s1" and cfg1: "sc_config s1 = sc_config s"
    using inv sched_inv_core [of s1 s] by (simp_all add: s1_def sched_inv_def)
  have room: "yields (if sc_block_shortage_pending s1 then make_room dbg (s1\<lparr>sc_block_shortage_pending := False\<rparr>) else Some s1)
      (kept {} fl {#} s)"
  proof -
    have "sched_inv_at {} fl {#} (s1\<lparr>sc_block_shortage_pending := False\<rparr>)"
      using inv1 sched_inv_core [OF core_simps(2)] by simp
    from make_room_ok [OF this, of dbg] show ?thesis
      using inv1 cfg1 by (auto simp: kept_def elim: yields_mono)
  qed
  have fin: "yields (admission_loop dbg ctx2 s2 \<bind> (\<lambda>(ctx, s). Some (if sc_admission_paused s
           then (ctx_batch ctx)\<lparr>sb_items := filter (\<lambda>w. sc_by_seq_id s (work_sequence_id w) \<noteq> None) (sb_items (ctx_batch ctx))\<rparr>
           else ctx_batch ctx, s)))
      (\<lambda>(batch, s'). sched_inv (fl @ sb_items batch) s' \<and> sc_config s' = sc_config s \<and>
        sum_list (map work_token_count (sb_items batch)) \<le> ?B)"
    if "sched_inv (fl @ ctx_items ctx2) s2" "budget_ok ?B ctx2" "sc_config s2 = sc_config s" for ctx2 s2
    by (rule yields_bind [OF admission_loop_ok [OF dbg that(1,2)]])
      (auto simp: that(3) ctx_items_def budget_ok_def batch_not_filtered [simplified])
  have "yields (schedule_step dbg s) (\<lambda>(batch, s'). sched_inv (fl @ sb_items batch) s' \<and> sc_config s' = sc_config s \<and>
        sum_list (map work_token_count (sb_items batch)) \<le> ?B) =
    yields ((if sc_block_shortage_pending s1 then make_room dbg (s1\<lparr>sc_block_shortage_pending := False\<rparr>) else Some s1) \<bind>
      (\<lambda>s. build_running_batch dbg ctx s \<bind> (\<lambda>(ctx, s). admission_loop dbg ctx s \<bind> (\<lambda>(ctx, s). Some (if sc_admission_paused s
           then (ctx_batch ctx)\<lparr>sb_items := filter (\<lambda>w. sc_by_seq_id s (work_sequence_id w) \<noteq> None) (sb_items (ctx_batch ctx))\<rparr>
           else ctx_batch ctx, s)))))
      (\<lambda>(batch, s'). sched_inv (fl @ sb_items batch) s' \<and> sc_config s' = sc_config s \<and>
        sum_list (map work_token_count (sb_items batch)) \<le> ?B)"
    using dbg by (simp add: schedule_step_def s1_def ctx_def Let_def)
  also have "..."
  proof (rule yields_bind [OF room])
    fix s2 assume s2: "kept {} fl {#} s s2"
    then have inv2: "sched_inv_at {} (fl @ ctx_items ctx) {#} s2" by (simp add: kept_def nil)
    have "yields (build_running_batch dbg ctx s2) (built {} fl {#} ?B s2)"
      unfolding build_running_batch_def by (rule build_running_loop_ok [OF inv2 _ bud]) simp
    then show "yields (build_running_batch dbg ctx s2 \<bind> (\<lambda>(ctx, s). admission_loop dbg ctx s \<bind> (\<lambda>(ctx, s). Some (if sc_admission_paused s
           then (ctx_batch ctx)\<lparr>sb_items := filter (\<lambda>w. sc_by_seq_id s (work_sequence_id w) \<noteq> None) (sb_items (ctx_batch ctx))\<rparr>
           else ctx_batch ctx, s))))
      (\<lambda>(batch, s'). sched_inv (fl @ sb_items batch) s' \<and> sc_config s' = sc_config s \<and>
        sum_list (map work_token_count (sb_items batch)) \<le> ?B)"
      by (rule yields_bind) (use s2 in \<open>auto simp: built_def queues_def kept_def sched_inv_def [symmetric] intro!: fin\<close>)
  qed
  finally show ?thesis .
qed

end
