(* ===== verification/Scheduler_Retire.thy ===== *)
theory Scheduler_Retire
  imports Scheduler_Admit
begin

text \<open>
  Retiring the oldest work item in flight keeps the invariant: the reservation ledger, the cursor,
  the publication of full blocks and the sampled token. \<open>res_ok\<close> is what the scheduler relies on in
  a result of the executor.
\<close>

section \<open>The contract of a result\<close>

definition res_ok :: "WorkItem \<Rightarrow> WorkItemResult \<Rightarrow> bool" where
  "res_ok item res \<longleftrightarrow> wr_seq_id res = work_sequence_id item \<and> wr_kind res = work_kind item \<and>
     (\<not> wr_stale res \<longrightarrow> tokens_consumed res = work_token_count item \<and>
        (sampled_tokens res \<noteq> [] \<longleftrightarrow> samples item) \<and> (wr_eos res \<longrightarrow> samples item))"

section \<open>Reservations\<close>

lemma ledger_retire:
  assumes l: "ledger (reservation sch) (vs @ w # ws)" and wf: "\<forall>v \<in> set (vs @ w # ws). item_wf v"
    and st: "scheduling st = Some sch"
  shows "\<exists>rv. retire_reservation w st = st\<lparr>scheduling := Some (sch\<lparr>reservation := rv\<rparr>)\<rparr> \<and> ledger rv (vs @ ws) \<and>
    reserved_kv_tokens rv = reserved_kv_tokens (reservation sch) - kv_token_count w \<and>
    reserved_generation_tokens rv = reserved_generation_tokens (reservation sch) - (if samples w then 1 else 0)"
proof -
  have "0 \<le> kv_token_count v" "0 \<le> prompt_token_count v" if "v \<in> set (vs @ ws)" for v
    using wf that by (cases v; force simp: item_wf_def)+
  then have "0 \<le> sum_list (map kv_token_count (vs @ ws))" "0 \<le> sum_list (map prompt_token_count (vs @ ws))"
    by (intro sum_list_nonneg; auto)+
  then show ?thesis
    using l wf st by (cases w) (auto simp: retire_reservation_def ledger_def Let_def)
qed

lemmas ledger_retire_head = ledger_retire [where vs = "[]", unfolded append_Nil]

lemma seq_ok_retire_settled:
  assumes ok: "seq_ok cap bs (vs @ w # ws) st sch" and st: "status st \<noteq> Active"
    and rv: "ledger rv (vs @ ws)" "reserved_kv_tokens rv = reserved_kv_tokens (reservation sch) - kv_token_count w"
  shows "seq_ok cap bs (vs @ ws) st (sch\<lparr>reservation := rv\<rparr>)"
proof -
  note D = seq_okD [OF ok]
  have "0 \<le> kv_token_count w"
    using D(2) [of w] item_wf_kv by simp
  then show ?thesis
    using D(4-8,12-14,16,21) D(2) rv st by (auto simp: seq_ok_def)
qed

section \<open>Publishing full blocks\<close>

lemma publish_full_block_ok:
  assumes wf: "cache_wf p c" and i: "0 < refs p i" and len: "bp_block_size p \<le> int (length tokens)" and dbg: "\<not> dbg"
  shows "yields (publish_full_block dbg parent tokens i 0 p c) (\<lambda>(h, c'). cache_wf p c')"
proof (cases "contains i c")
  case True
  then obtain e where "bc_by_block c i = Some e" by (auto simp: contains_def)
  then have "e \<in> set (bc_entries c)" "ce_block_id e = i"
    using index_wf_by_block [OF cache_wfD(2) [OF wf]] by auto
  from publish_again_ok [OF wf len this refl, of dbg 0 parent] show ?thesis
    using wf dbg by simp
next
  case False
  obtain n where "used p i = Some n" "0 < n"
    using i by (auto simp: refs_def split: option.splits)
  note N = publish_new_ok [OF wf this len False refl, where seed = 0 and parent = parent]
  show ?thesis
    using N(1) [of dbg] N(2) by simp
qed

lemma publish_loop_ok:
  assumes "cache_wf p c" "\<forall>i \<in> set (block_ids t). 0 < refs p i" "\<not> dbg" "0 \<le> idx"
    "idx + int (length pending) div bp_block_size p \<le> table_size t"
  shows "yields (publish_loop dbg t p idx pending parent c) (\<lambda>(pending', parent', c').
    int (length pending') < bp_block_size p \<and> cache_wf p c')"
  using assms
proof (induction "length pending" arbitrary: idx pending parent c rule: less_induct)
  case less
  have bs: "0 < bp_block_size p"
    using pool_wf_block_size [OF cache_wfD(1) [OF less.prems(1)]] .
  show ?case
  proof (cases "bp_block_size p \<le> int (length pending)")
    case False
    then show ?thesis
      using less.prems(1) by (subst publish_loop.simps) simp
  next
    case True
    let ?rest = "drop (nat (bp_block_size p)) pending" and ?full = "take (nat (bp_block_size p)) pending"
    have "int (length ?rest) div bp_block_size p = int (length pending) div bp_block_size p - 1"
      using bs True by (simp add: of_nat_diff div_pos_geq)
    moreover have "1 \<le> int (length pending) div bp_block_size p"
      using bs True by (simp add: div_pos_geq pos_imp_zdiv_nonneg_iff)
    ultimately have r: "idx < table_size t" "idx + 1 + int (length ?rest) div bp_block_size p \<le> table_size t"
      using less.prems(5) by linarith+
    have i: "0 < refs p (block_ids t ! nat idx)"
      using less.prems(2,4) r(1) by (auto simp: table_size_def)
    have short: "length ?rest < length pending" using bs True by auto
    have IH: "yields (publish_loop dbg t p (idx + 1) ?rest h c') (\<lambda>(pending', parent', c').
        int (length pending') < bp_block_size p \<and> cache_wf p c')" if "cache_wf p c'" for h c'
      by (rule less.hyps [OF short that less.prems(2,3) _ r(2)]) (use less.prems(4) in simp)
    have "yields (publish_full_block dbg parent ?full (block_ids t ! nat idx) 0 p c \<bind>
        (\<lambda>(parent', c'). publish_loop dbg t p (idx + 1) ?rest parent' c')) (\<lambda>(pending', parent', c').
        int (length pending') < bp_block_size p \<and> cache_wf p c')"
      by (rule yields_bind [OF publish_full_block_ok [OF less.prems(1) i _ less.prems(3)]])
        (use True bs IH in \<open>auto\<close>)
    then show ?thesis
      using True less.prems(4) r(1) by (subst publish_loop.simps) (simp add: Let_def)
  qed
qed

lemma publish_index:
  fixes cb pend w bs n :: int
  assumes "0 < bs" "0 \<le> cb" "0 \<le> pend" "pend < bs" "0 \<le> w" "cb + w \<le> n * bs"
  shows "0 \<le> (cb - pend) sdiv bs" "(cb - pend) sdiv bs + (pend + w) div bs \<le> n"
proof -
  have "(cb - pend) sdiv bs = (if pend \<le> cb then (cb - pend) div bs else 0)"
    using assms(1-4) by (simp add: signed_divide_int_def sgn_if)
  moreover have "(cb - pend) div bs + (pend + w) div bs \<le> n" if "pend \<le> cb"
  proof -
    have "((cb - pend) div bs + (pend + w) div bs) * bs \<le> n * bs"
      using assms(6) minus_mod_eq_div_mult [of "cb - pend" bs] minus_mod_eq_div_mult [of "pend + w" bs]
        pos_mod_sign [OF assms(1), of "cb - pend"] pos_mod_sign [OF assms(1), of "pend + w"]
      by (simp add: distrib_right)
    then show ?thesis using assms(1) by simp
  qed
  moreover have "(pend + w) div bs \<le> n"
  proof -
    have "pend + w < (n + 1) * bs" using assms by (simp add: distrib_right)
    then have "\<not> n + 1 \<le> (pend + w) div bs"
      using pos_mod_sign [OF assms(1), of "pend + w"] minus_mod_eq_div_mult [of "pend + w" bs]
        mult_right_mono [of "n + 1" "(pend + w) div bs" bs] assms(1) by linarith
    then show ?thesis by simp
  qed
  ultimately show "0 \<le> (cb - pend) sdiv bs" "(cb - pend) sdiv bs + (pend + w) div bs \<le> n"
    using assms(1) by (auto simp: pos_imp_zdiv_nonneg_iff)
qed

section \<open>One sequence after its oldest item\<close>

lemma seq_ok_last_prefill:
  assumes ok: "seq_ok cap bs (w # ws) st sch" and act: "status st = Active" and ph: "is_prefill_phase (phase (cursor sch))"
    and fin: "int (length (prompt_tokens st)) \<le> executed_frontier sch + kv_token_count w"
  shows "ws = []"
proof (rule ccontr)
  assume "ws \<noteq> []"
  then obtain v vs where ws: "ws = v # vs" by (cases ws) auto
  note D = seq_okD [OF ok]
  have "0 \<le> kv_token_count u" if "u \<in> set vs" for u
    using D(2) [of u] item_wf_kv that ws by simp
  then have "0 \<le> sum_list (map kv_token_count vs)" by (auto intro!: sum_list_nonneg)
  moreover have "0 < kv_token_count v"
    using D(2) [of v] D(7) [OF ph] ws by (cases v) (auto simp: item_wf_def)
  ultimately show False
    using D(10) [OF ph act] fin ledgerD(2) [OF D(1)] ws by simp
qed

lemma seq_ok_retire:
  assumes ok: "seq_ok cap bs (w # ws) st sch" and act: "status st = Active"
    and rv: "ledger (reservation sch') ws"
      "reserved_kv_tokens (reservation sch') = reserved_kv_tokens (reservation sch) - kv_token_count w"
      "reserved_generation_tokens (reservation sch') = reserved_generation_tokens (reservation sch) - (if samples w then 1 else 0)"
    and sch': "ss_block_table sch' = ss_block_table sch"
      "executed_frontier sch' = executed_frontier sch + kv_token_count w" "int (length (pending_hash_tokens sch')) < bs"
      "generated_tokens_in_prompt (cursor sch') = generated_tokens_in_prompt (cursor sch)"
    and pre: "is_prefill_work w \<Longrightarrow> prefill_cursor (cursor sch') = prefill_cursor (cursor sch) + kv_token_count w \<and>
      phase (cursor sch') = (if int (length (prompt_tokens st)) \<le> prefill_cursor (cursor sch) + kv_token_count w
        then Decode else phase (cursor sch))"
    and dec: "\<not> is_prefill_work w \<Longrightarrow> phase (cursor sch') = Decode"
    and st': "prompt_tokens st' = prompt_tokens st" "rs_sampling st' = rs_sampling st"
      "rs_max_context_len st' = rs_max_context_len st" "generated_tokens st' = generated_tokens st @ (if samples w then [t] else [])"
  shows "seq_ok cap bs ws st' sch'"
proof -
  note D = seq_okD [OF ok]
  note L = ledgerD [OF D(1)] and L' = ledgerD [OF rv(1)]
  have kv: "0 \<le> kv_token_count w" using D(2) [of w] item_wf_kv by simp
  have chain: "context_before_of w = executed_frontier sch" "ctx_chain (executed_frontier sch') ws"
    using D(3) [OF act] sch'(2) by simp_all
  have g: "generated_token_count st' = generated_token_count st + (if samples w then 1 else 0)"
    by (simp add: generated_token_count_def st'(4))
  have lim: "token_limit st' = token_limit st" by (simp add: token_limit_def st'(2))
  have cc: "committed_context st' sch' = committed_context st sch + (if samples w then 1 else 0)"
    by (simp add: committed_context_def st'(1) sch'(4) g)
  have fr: "executed_frontier sch' + reserved_kv_tokens (reservation sch') =
      executed_frontier sch + reserved_kv_tokens (reservation sch)"
    by (simp add: sch'(2) rv(2))
  have gl: "generated_token_count st' + reserved_generation_tokens (reservation sch') \<le> token_limit st"
    using D(15) [OF act] g rv(3) by simp
  have gl': "generated_token_count st' \<le> token_limit st" using gl L'(5) by linarith
  have items: "\<forall>v \<in> set ws. item_wf v \<and> item_fits bs (block_ids (ss_block_table sch')) v"
    using D(2) sch'(1) by simp
  have f0: "0 \<le> executed_frontier sch'" using D(4) kv sch'(2) by simp
  note common = rv(1) items chain(2) D(5,16) f0 fr gl gl' sch'(1,3) st' lim
  have dec_case: "seq_ok cap bs ws st' sch'" if "phase (cursor sch') = Decode" "\<forall>v \<in> set ws. \<not> is_prefill_work v"
      "executed_frontier sch + reserved_kv_tokens (reservation sch) < committed_context st' sch' + reserved_generation_tokens (reservation sch')"
    using common that by (simp add: seq_ok_def)
  show ?thesis
  proof (cases "is_prefill_work w")
    case False
    then have "samples w" by (cases w) simp_all
    have ph: "phase (cursor sch) = Bootstrap \<or> phase (cursor sch) = Decode"
      using D(7) False by (cases "phase (cursor sch)") auto
    have "1 \<le> reserved_generation_tokens (reservation sch)"
      using L(4) \<open>samples w\<close> by simp
    then show ?thesis
      using ph D(12) D(17,18) [OF act] dec [OF False] \<open>samples w\<close> cc rv(3) by (intro dec_case) auto
  next
    case True
    then have ph: "phase (cursor sch) = Prefill \<or> phase (cursor sch) = ReplayPrefill"
      using D(12) by (cases "phase (cursor sch)") auto
    then have pp: "is_prefill_phase (phase (cursor sch))" by auto
    note P = D(9,10) [OF pp act]
    show ?thesis
    proof (cases "int (length (prompt_tokens st)) \<le> executed_frontier sch + kv_token_count w")
      case fin: True
      have ws: "ws = []" using seq_ok_last_prefill [OF ok act pp fin] .
      have len: "executed_frontier sch + reserved_kv_tokens (reservation sch) = int (length (prompt_tokens st))"
        using P(2) fin L(2) ws by simp
      have "phase (cursor sch) = Prefill \<Longrightarrow> samples w"
        using D(20) [OF act _ len] L(4) ws by (cases "samples w") simp_all
      then have "executed_frontier sch + reserved_kv_tokens (reservation sch) < committed_context st' sch'"
        using ph D(19) [OF act pp] D(21) cc len by (auto split: if_splits)
      then show ?thesis
        using pre [OF True] fin P(1) ws L'(4) by (intro dec_case) auto
    next
      case more: False
      have nd: "\<not> is_decode_phase (phase (cursor sch))" "phase (cursor sch) \<noteq> Bootstrap" "phase (cursor sch) \<noteq> Decode"
        using ph by auto
      have tl: "\<forall>v \<in> set ws. is_prefill_work v"
          "\<forall>v \<in> set ws. samples v \<longrightarrow> context_before_of v + kv_token_count v = int (length (prompt_tokens st))"
        using D(7) [OF pp] D(22) [OF act pp] by simp_all
      have ns: "\<not> samples w" using D(22) [OF act pp, of w] chain(1) more by auto
      have ps: "phase (cursor sch') = phase (cursor sch)" "prefill_cursor (cursor sch') = executed_frontier sch'"
        using pre [OF True] more P(1) sch'(2) by simp_all
      have cs: "committed_context st' sch' = committed_context st sch" "generated_tokens st' = generated_tokens st"
          "reserved_generation_tokens (reservation sch') = reserved_generation_tokens (reservation sch)"
        using cc ns st'(4) rv(3) by simp_all
      show ?thesis
        unfolding seq_ok_def ps cs fr st'(1,3) lim sch'(1)
        using rv(1) items [unfolded sch'(1)] nd chain(2) f0 D(5,16) gl [unfolded cs(3)] gl' sch'(3) pp P(2) tl D(8) [OF pp]
          D(11) [OF pp act] D(19) [OF act pp] D(20) [OF act] D(21) by (intro conjI impI) blast+
    qed
  qed
qed

section \<open>The steps of \<open>retire_work\<close>\<close>

lemma retire_cursor_ok:
  assumes ok: "seq_ok cap bs (w # ws) st sch" and act: "status st = Active"
    and res: "res_ok w res" "\<not> wr_stale res"
  shows "\<exists>more cur. retire_cursor dbg w res st (sch\<lparr>reservation := rv\<rparr>) =
      Some (more, sch\<lparr>reservation := rv, cursor := cur, executed_frontier := executed_frontier sch + kv_token_count w\<rparr>) \<and>
    generated_tokens_in_prompt cur = generated_tokens_in_prompt (cursor sch) \<and>
    (more \<or> \<not> samples w) \<and>
    (if is_prefill_work w then prefill_cursor cur = prefill_cursor (cursor sch) + kv_token_count w \<and>
       phase cur = (if int (length (prompt_tokens st)) \<le> prefill_cursor (cursor sch) + kv_token_count w
         then Decode else phase (cursor sch))
     else more \<and> cur = cursor sch)"
proof (cases w)
  case (Decode_Work d)
  have cb: "context_before_of w = executed_frontier sch"
    using seq_okD(3) [OF ok act] by simp
  show ?thesis
    using res cb Decode_Work by (auto simp: retire_cursor_def res_ok_def assert_that_def)
next
  case (Prefill_Work c)
  note D = seq_okD [OF ok]
  have "is_prefill_phase (phase (cursor sch))"
    using D(12) Prefill_Work by (cases "phase (cursor sch)") auto
  note P = D(9,10) [OF this act] and sm = D(22) [OF act this, of w]
  have cb: "context_before_of w = executed_frontier sch"
    using D(3) [OF act] by simp
  have wf: "0 < span_length (pc_prompt_span c)" "context_before_of w = span_start (pc_prompt_span c)"
    using D(2) [of w] Prefill_Work by (auto simp: item_wf_def)
  have le: "prefill_cursor (cursor sch) + span_length (pc_prompt_span c) \<le> int (length (prompt_tokens st))"
  proof -
    have "0 \<le> kv_token_count v" if "v \<in> set ws" for v
      using D(2) [of v] item_wf_kv that by simp
    then have "0 \<le> sum_list (map kv_token_count ws)" by (auto intro!: sum_list_nonneg)
    then show ?thesis using P ledgerD(2) [OF D(1)] Prefill_Work by simp
  qed
  have last: "samples w \<or> phase (cursor sch) = ReplayPrefill \<and> generated_tokens st \<noteq> []"
    if fin: "int (length (prompt_tokens st)) \<le> prefill_cursor (cursor sch) + span_length (pc_prompt_span c)"
  proof -
    have ws: "ws = []"
      using seq_ok_last_prefill [OF ok act \<open>is_prefill_phase (phase (cursor sch))\<close>] fin P(1) Prefill_Work by simp
    have "executed_frontier sch + reserved_kv_tokens (reservation sch) = int (length (prompt_tokens st))"
      using P fin ledgerD(2) [OF D(1)] Prefill_Work ws by simp
    from D(20) [OF act _ this] show ?thesis
      using D(21) ledgerD(4) [OF D(1)] ws \<open>is_prefill_phase (phase (cursor sch))\<close>
      by (auto simp: is_prefill_phase_def split: if_splits)
  qed
  define fin where "fin \<longleftrightarrow> int (length (prompt_tokens st)) \<le> prefill_cursor (cursor sch) + span_length (pc_prompt_span c)"
  define cur where "cur = (cursor sch)\<lparr>prefill_cursor := prefill_cursor (cursor sch) + span_length (pc_prompt_span c)\<rparr>"
  have r: "tokens_consumed res = span_length (pc_prompt_span c)" "wr_kind res = WKPrefillChunk"
      "sampled_tokens res = [] \<longleftrightarrow> \<not> samples w" "wr_eos res \<Longrightarrow> samples w"
    using res Prefill_Work by (auto simp: res_ok_def)
  have ns: "\<not> fin \<Longrightarrow> \<not> samples w"
    using sm cb P(1) Prefill_Work by (auto simp: fin_def)
  have "retire_cursor dbg w res st (sch\<lparr>reservation := rv\<rparr>) = Some (fin, sch\<lparr>reservation := rv,
      cursor := (if fin then cur\<lparr>phase := Decode\<rparr> else cur), executed_frontier := executed_frontier sch + kv_token_count w\<rparr>)"
  proof (cases fin)
    case True
    have "sampled_tokens res \<noteq> [] \<or> wr_eos res \<or>
        phase (cursor sch) = ReplayPrefill \<and> generated_tokens st \<noteq> [] \<and> sampled_tokens res = [] \<and> \<not> wr_eos res"
      using last True r(3,4) unfolding fin_def by blast
    then show ?thesis
      using True le wf cb P(1) r(1,2) Prefill_Work unfolding fin_def
      by (simp add: retire_cursor_def assert_that_def Let_def cur_def)
  next
    case False
    then have "sampled_tokens res = [] \<and> \<not> wr_eos res"
      using ns r(3,4) by blast
    then show ?thesis
      using False le wf cb P(1) r(1,2) Prefill_Work unfolding fin_def
      by (simp add: retire_cursor_def assert_that_def Let_def cur_def)
  qed
  then show ?thesis
    using ns Prefill_Work
    by (intro exI [of _ fin] exI [of _ "if fin then cur\<lparr>phase := Decode\<rparr> else cur"]) (auto simp: cur_def fin_def)
qed

lemma publish_written_ok:
  assumes sch: "scheduling (sc_heap s r) = Some sch" and wf: "cache_wf (sc_block_pool s) (sc_block_cache s)"
    and own: "\<forall>i \<in> set (block_ids (ss_block_table sch)). 0 < refs (sc_block_pool s) i" and dbg: "\<not> dbg"
    and cb: "0 \<le> context_before_of w"
      "context_before_of w + kv_token_count w \<le> table_size (ss_block_table sch) * bp_block_size (sc_block_pool s)"
    and pend: "int (length (pending_hash_tokens sch)) < bp_block_size (sc_block_pool s)"
    and len: "0 < kv_token_count w \<Longrightarrow> int (length (written_tokens_of w (sc_heap s r))) \<le> kv_token_count w"
  shows "yields (publish_written dbg w r sch s) (\<lambda>s'. \<exists>pending parent c. cache_wf (sc_block_pool s) c \<and>
    int (length pending) < bp_block_size (sc_block_pool s) \<and>
    core s' = core (s\<lparr>sc_heap := (sc_heap s)(r := (sc_heap s r)\<lparr>scheduling :=
      Some (sch\<lparr>pending_hash_tokens := pending, ss_parent_hash := parent\<rparr>)\<rparr>), sc_block_cache := c\<rparr>))"
proof (cases "0 < kv_token_count w")
  case False
  have "sch\<lparr>pending_hash_tokens := pending_hash_tokens sch, ss_parent_hash := ss_parent_hash sch\<rparr> = sch" by simp
  moreover have "(sc_heap s r)\<lparr>scheduling := Some sch\<rparr> = sc_heap s r" using sch by simp
  ultimately show ?thesis
    using False wf pend by (auto simp: publish_written_def core_def intro!: exI [of _ "pending_hash_tokens sch"]
        exI [of _ "ss_parent_hash sch"] exI [of _ "sc_block_cache s"])
next
  case True
  let ?bs = "bp_block_size (sc_block_pool s)" and ?pend = "pending_hash_tokens sch" and ?w = "written_tokens_of w (sc_heap s r)"
  let ?idx = "(context_before_of w - int (length ?pend)) sdiv ?bs"
  have bs: "0 < ?bs" using pool_wf_block_size [OF cache_wfD(1) [OF wf]] .
  have "context_before_of w + int (length ?w) \<le> table_size (ss_block_table sch) * ?bs"
    using cb(2) len [OF True] by simp
  then have idx: "0 \<le> ?idx" "?idx + int (length (?pend @ ?w)) div ?bs \<le> table_size (ss_block_table sch)"
    using publish_index [OF bs cb(1) _ pend, of "int (length ?w)" "table_size (ss_block_table sch)"] by simp_all
  have "yields (publish_loop dbg (ss_block_table sch) (sc_block_pool s) ?idx (?pend @ ?w) (ss_parent_hash sch) (sc_block_cache s) \<bind>
      (\<lambda>(pending, parent, c). Some (upd_sched r (\<lambda>sch. sch\<lparr>pending_hash_tokens := pending, ss_parent_hash := parent\<rparr>)
          (s\<lparr>sc_block_cache := c\<rparr>)))) (\<lambda>s'. \<exists>pending parent c. cache_wf (sc_block_pool s) c \<and>
    int (length pending) < ?bs \<and>
    core s' = core (s\<lparr>sc_heap := (sc_heap s)(r := (sc_heap s r)\<lparr>scheduling :=
      Some (sch\<lparr>pending_hash_tokens := pending, ss_parent_hash := parent\<rparr>)\<rparr>), sc_block_cache := c\<rparr>))"
  proof (rule yields_bind [OF publish_loop_ok [OF wf own dbg idx]], clarify)
    fix pending :: "int list" and parent c assume "cache_wf (sc_block_pool s) c" "int (length pending) < ?bs"
    then show "yields (Some (upd_sched r (\<lambda>sch. sch\<lparr>pending_hash_tokens := pending, ss_parent_hash := parent\<rparr>)
        (s\<lparr>sc_block_cache := c\<rparr>))) (\<lambda>s'. \<exists>pending parent c. cache_wf (sc_block_pool s) c \<and> int (length pending) < ?bs \<and>
      core s' = core (s\<lparr>sc_heap := (sc_heap s)(r := (sc_heap s r)\<lparr>scheduling :=
        Some (sch\<lparr>pending_hash_tokens := pending, ss_parent_hash := parent\<rparr>)\<rparr>), sc_block_cache := c\<rparr>))"
      unfolding yields_Some
      by (intro exI [of _ pending] exI [of _ parent] exI [of _ c] conjI)
        (simp_all add: upd_sched_def upd_req_def sch core_def)
  qed
  then show ?thesis using True by (simp add: publish_written_def Let_def)
qed

lemma send_token_ok:
  assumes "generated_tokens (sc_heap s r) \<noteq> []"
  shows "\<exists>s' a. map_option snd (send_token_event r s) = Some s' \<and> (status (sc_heap s r) \<noteq> Active \<longrightarrow> a = status (sc_heap s r)) \<and>
    core s' = core (upd_req r (\<lambda>st. st\<lparr>status := a\<rparr>) s)"
proof -
  let ?ev = "Inr \<lparr>token_id = last (generated_tokens (sc_heap s r)), has_token = True, gt_finished = (status (sc_heap s r) = Finished)\<rparr>"
  obtain sent s1 where ev: "send_event (rs_sink (sc_heap s r)) ?ev s = (sent, s1)"
    by (cases "send_event (rs_sink (sc_heap s r)) ?ev s")
  then have c1: "core s1 = core s"
    using core_send_event [of "rs_sink (sc_heap s r)" ?ev s] by simp
  then have h: "sc_heap s1 = sc_heap s" by (simp add: core_def)
  define a where "a = (if \<not> sent \<and> status (sc_heap s r) = Active then Cancelled else status (sc_heap s r))"
  have id: "(sc_heap s r)\<lparr>status := status (sc_heap s r)\<rparr> = sc_heap s r" by simp
  show ?thesis
    using assms ev c1 h
    by (intro exI [of _ "if \<not> sent \<and> status (sc_heap s r) = Active then upd_req r (\<lambda>st. st\<lparr>status := Cancelled\<rparr>) s1 else s1"]
        exI [of _ a]) (auto simp: send_token_event_def Let_def a_def core_def upd_req_def id)
qed

lemma retire_tokens_ok:
  assumes sch: "scheduling (sc_heap s r) = Some sch"
  shows "yields (retire_tokens res r s) (\<lambda>s'. \<exists>a. (status (sc_heap s r) \<noteq> Active \<longrightarrow> a \<noteq> Active) \<and>
    core s' = core (s\<lparr>sc_heap := (sc_heap s)(r := (sc_heap s r)\<lparr>
      generated_tokens := generated_tokens (sc_heap s r) @ (if sampled_tokens res \<noteq> [] then [hd (sampled_tokens res)] else []),
      status := a,
      scheduling := Some (if sampled_tokens res \<noteq> [] \<and> phase (cursor sch) = Bootstrap
        then sch\<lparr>cursor := (cursor sch)\<lparr>phase := Decode\<rparr>\<rparr> else sch)\<rparr>)\<rparr>))"
proof (cases "sampled_tokens res = []")
  case True
  define v where "v = (if wr_eos res \<or> generated_token_count (sc_heap s r) \<ge> max_tokens (rs_sampling (sc_heap s r))
    then Finished else status (sc_heap s r))"
  have tc: "core (snd (send_terminal_event r s')) = core (upd_req r (\<lambda>st. st\<lparr>status := Finished\<rparr>) s')" for s'
    by (simp add: send_terminal_event_def)
  have id: "(sc_heap s r)\<lparr>scheduling := Some sch\<rparr> = sc_heap s r" "(sc_heap s r)\<lparr>status := status (sc_heap s r)\<rparr> = sc_heap s r"
    using sch by simp_all
  have run: "retire_tokens res r s = Some (if v = Finished then snd (send_terminal_event r (upd_req r (\<lambda>st. st\<lparr>status := v\<rparr>) s)) else s)"
    using True by (auto simp: retire_tokens_def Let_def v_def upd_req_def id send_terminal_event_def)
  have rec: "(sc_heap s r)\<lparr>generated_tokens := generated_tokens (sc_heap s r), status := a, scheduling := Some sch\<rparr> =
      (sc_heap s r)\<lparr>status := a\<rparr>" for a
    using sch by (cases "sc_heap s r") simp
  have "core (if v = Finished then snd (send_terminal_event r (upd_req r (\<lambda>st. st\<lparr>status := v\<rparr>) s)) else s) =
      core (s\<lparr>sc_heap := (sc_heap s)(r := (sc_heap s r)\<lparr>status := v\<rparr>)\<rparr>)"
    by (simp add: tc) (auto simp: upd_req_def core_def v_def id)
  then show ?thesis
    using True run rec [of v] by (auto simp: v_def)
next
  case False
  let ?st = "sc_heap s r"
  let ?boot = "if phase (cursor sch) = Bootstrap then sch\<lparr>cursor := (cursor sch)\<lparr>phase := Decode\<rparr>\<rparr> else sch"
  let ?gen = "generated_tokens ?st @ [hd (sampled_tokens res)]"
  define sA where "sA = s\<lparr>sc_heap := (sc_heap s)(r := ?st\<lparr>generated_tokens := ?gen, scheduling := Some ?boot\<rparr>)\<rparr>"
  define fin where "fin \<longleftrightarrow> wr_eos res \<or> generated_token_count ?st + 1 \<ge> max_tokens (rs_sampling ?st)"
  define sB where "sB = (if fin then upd_req r (\<lambda>st. st\<lparr>status := Finished\<rparr>) sA else sA)"
  have A: "upd_sched r (\<lambda>sch. if phase (cursor sch) = Bootstrap then sch\<lparr>cursor := (cursor sch)\<lparr>phase := Decode\<rparr>\<rparr> else sch)
      (upd_req r (\<lambda>st. st\<lparr>generated_tokens := generated_tokens st @ [hd (sampled_tokens res)]\<rparr>) s) = sA"
    by (simp add: sA_def upd_sched_def upd_req_def sch)
  have F: "(fin \<or> generated_token_count (sc_heap sA r) \<ge> max_tokens (rs_sampling (sc_heap sA r))) = fin"
    by (auto simp: sA_def fin_def generated_token_count_def)
  have B: "generated_tokens (sc_heap sB r) \<noteq> []" "status (sc_heap sB r) = (if fin then Finished else status ?st)"
    by (auto simp: sB_def sA_def upd_req_def)
  obtain s2 a where s2: "map_option snd (send_token_event r sB) = Some s2" "status (sc_heap sB r) \<noteq> Active \<longrightarrow> a = status (sc_heap sB r)"
      "core s2 = core (upd_req r (\<lambda>st. st\<lparr>status := a\<rparr>) sB)"
    using send_token_ok [OF B(1)] by blast
  have "retire_tokens res r s = Some s2"
    using False s2(1) F unfolding sB_def by (cases fin) (auto simp: retire_tokens_def Let_def A fin_def)
  moreover have "upd_req r (\<lambda>st. st\<lparr>status := a\<rparr>) sB =
      s\<lparr>sc_heap := (sc_heap s)(r := ?st\<lparr>generated_tokens := ?gen, status := a, scheduling := Some ?boot\<rparr>)\<rparr>"
    by (cases "sc_heap s r") (simp add: sB_def sA_def upd_req_def)
  moreover have "a \<noteq> Active" if "status ?st \<noteq> Active"
    using s2(2) B(2) that by (cases fin) auto
  ultimately show ?thesis
    using False s2(3) by (simp add: exI [of _ a])
qed

section \<open>Retiring one item\<close>

lemma inv_retire_at:
  assumes inv: "sched_inv_at C (pre @ w # rest) X s" and r: "r \<in> set (sc_running s)"
    and sch: "scheduling (sc_heap s r) = Some sch" "work_sequence_id w = ss_seq_id sch"
    and st': "scheduling st' = Some sch'" "ss_seq_id sch' = ss_seq_id sch" "ss_block_table sch' = ss_block_table sch"
      "rs_request_id st' = rs_request_id (sc_heap s r)" "status (sc_heap s r) \<noteq> Active \<Longrightarrow> status st' \<noteq> Active"
    and ok: "seq_ok (ctx_capacity s) (kv_block_size (sc_config s)) (items_of (ss_seq_id sch) (pre @ rest)) st' sch'"
    and c: "cache_wf (sc_block_pool s) c"
    and s': "core s' = core (s\<lparr>sc_heap := (sc_heap s)(r := st'), sc_block_cache := c\<rparr>)"
  shows "sched_inv_at C (pre @ rest) X s'"
proof (rule inv_upd_live [OF inv _ st'(1) _ st'(4,5) _ _ _ c refl])
  show live: "r \<in> live s" using r by (simp add: live_def)
  have q: "seq_of s r = ss_seq_id sch"
    by (simp add: seq_of_def sched_of_def sch(1))
  then show "ss_seq_id sch' = seq_of s r" using st'(2) by simp
  show "items_of q' (pre @ rest) = items_of q' (pre @ w # rest)" if "q' \<noteq> seq_of s r" for q'
    using that sch(2) q by (simp add: items_of_def)
  show "seq_ok (ctx_capacity s) (kv_block_size (sc_config s)) (items_of (seq_of s r) (pre @ rest)) st' sch'"
    using ok q by simp
  show "owned (refs (sc_block_pool s)) (mset (block_ids (ss_block_table sch')) + (\<Sum>r' \<in> live s - {r}. mset (tab_of s r')) + X)"
    using inv_own_parts [OF sched_inv_atD(5) [OF inv] live] st'(3) by (simp add: tab_of_def sched_of_def sch(1))
  show "core s' = core (s\<lparr>sc_heap := (sc_heap s)(r := st'), sc_block_pool := sc_block_pool s, sc_block_cache := c\<rparr>)"
    using s' by (simp add: core_def)
qed auto

lemmas inv_retire = inv_retire_at [where pre = "[]", unfolded append_Nil]

lemma item_fits_bound:
  assumes "item_fits bs t w" "0 < bs"
  shows "0 \<le> context_before_of w" "context_before_of w + kv_token_count w \<le> int (length t) * bs"
proof -
  have "int (length (item_table w)) * bs \<le> int (length t) * bs"
    using assms prefix_length_le [of "item_table w" t] by (simp add: item_fits_def)
  from order_trans [OF _ this] show "0 \<le> context_before_of w" "context_before_of w + kv_token_count w \<le> int (length t) * bs"
    using assms(1) unfolding item_fits_def by blast+
qed

definition retired :: "WorkItem list \<Rightarrow> Scheduler \<Rightarrow> Scheduler \<Rightarrow> bool" where
  "retired rest s s' \<longleftrightarrow> sched_inv rest s' \<and> sc_config s' = sc_config s \<and> sc_exec_failed s' = sc_exec_failed s"

lemma retire_active_ok:
  assumes inv: "sched_inv (w # rest) s" and r: "r \<in> set (sc_running s)"
    and sch: "scheduling (sc_heap s r) = Some sch" "work_sequence_id w = ss_seq_id sch"
    and act: "status (sc_heap s r) = Active" and res: "res_ok w res" "\<not> wr_stale res" and dbg: "\<not> dbg"
    and rv: "ledger rv (items_of (ss_seq_id sch) rest)"
      "reserved_kv_tokens rv = reserved_kv_tokens (reservation sch) - kv_token_count w"
      "reserved_generation_tokens rv = reserved_generation_tokens (reservation sch) - (if samples w then 1 else 0)"
  defines "st1 \<equiv> (sc_heap s r)\<lparr>scheduling := Some (sch\<lparr>reservation := rv\<rparr>)\<rparr>"
  defines "s1 \<equiv> s\<lparr>sc_heap := (sc_heap s)(r := st1)\<rparr>"
  shows "yields (retire_cursor dbg w res st1 (sch\<lparr>reservation := rv\<rparr>) \<bind> (\<lambda>(more, sch). let s = upd_sched r (\<lambda>_. sch) s1 in
    if \<not> more then Some s else publish_written dbg w r sch s \<bind> retire_tokens res r)) (retired rest s)"
proof -
  note I = sched_inv_atD [OF inv [unfolded sched_inv_def]] and G = cfg_invD [OF sched_inv_atD(1) [OF inv [unfolded sched_inv_def]]]
  let ?st = "sc_heap s r" and ?ws = "items_of (ss_seq_id sch) rest" and ?bs = "kv_block_size (sc_config s)"
  have live: "r \<in> live s" using r by (simp add: live_def)
  have ok: "seq_ok (ctx_capacity s) ?bs (w # ?ws) ?st sch"
    using inv_live_seq [OF inv [unfolded sched_inv_def] live sch(1)] sch(2) by (simp add: items_of_Cons)
  have ok1: "seq_ok (ctx_capacity s) ?bs (w # ?ws) st1 sch"
    using ok by (rule seq_ok_status) (simp_all add: st1_def)
  have act1: "status st1 = Active" by (simp add: st1_def act)
  note D = seq_okD [OF ok]
  obtain more cur where cur: "retire_cursor dbg w res st1 (sch\<lparr>reservation := rv\<rparr>) =
      Some (more, sch\<lparr>reservation := rv, cursor := cur, executed_frontier := executed_frontier sch + kv_token_count w\<rparr>)"
      "generated_tokens_in_prompt cur = generated_tokens_in_prompt (cursor sch)" "more \<or> \<not> samples w"
      "if is_prefill_work w then prefill_cursor cur = prefill_cursor (cursor sch) + kv_token_count w \<and>
         phase cur = (if int (length (prompt_tokens st1)) \<le> prefill_cursor (cursor sch) + kv_token_count w
           then Decode else phase (cursor sch))
       else more \<and> cur = cursor sch"
    using retire_cursor_ok [OF ok1 act1 res, of dbg rv] by blast
  define sch2 where "sch2 = sch\<lparr>reservation := rv, cursor := cur, executed_frontier := executed_frontier sch + kv_token_count w\<rparr>"
  define s2 where "s2 = upd_sched r (\<lambda>_. sch2) s1"
  have h2: "sc_heap s2 r = ?st\<lparr>scheduling := Some sch2\<rparr>" and
      c2: "core s2 = core (s\<lparr>sc_heap := (sc_heap s)(r := ?st\<lparr>scheduling := Some sch2\<rparr>)\<rparr>)"
    by (simp_all add: s2_def upd_sched_def upd_req_def s1_def st1_def core_def)
  show ?thesis
  proof (cases more)
    case False
    have "seq_ok (ctx_capacity s) ?bs ?ws (?st\<lparr>scheduling := Some sch2\<rparr>) sch2"
      by (rule seq_ok_retire [OF ok act]) (use cur False D(6) rv in \<open>auto simp: sch2_def st1_def split: if_splits\<close>)
    then have "sched_inv rest s2"
      unfolding sched_inv_def
      by (rule inv_retire [OF inv [unfolded sched_inv_def] r sch, where c = "sc_block_cache s", rotated 5])
        (use c2 act I(5) in \<open>auto simp: sch2_def core_def kv_inv_def\<close>)
    then show ?thesis
      using False c2 by (simp add: cur(1) sch2_def [symmetric] s2_def [symmetric] retired_def core_def)
  next
    case True
    have pool2: "sc_block_pool s2 = sc_block_pool s" "sc_block_cache s2 = sc_block_cache s"
      using c2 by (simp_all add: core_def)
    have own: "\<forall>i \<in> set (block_ids (ss_block_table sch)). 0 < refs (sc_block_pool s) i"
      using owned_pos [OF inv_own_parts [OF I(5) live]] by (simp add: tab_of_def sched_of_def sch(1))
    have w: "item_wf w" "item_fits ?bs (block_ids (ss_block_table sch)) w" using D(2) [of w] by simp_all
    have cb: "0 \<le> context_before_of w" "context_before_of w + kv_token_count w \<le> table_size (ss_block_table sch) * ?bs"
      using item_fits_bound [OF w(2) G(3)] by (simp_all add: table_size_def)
    have len: "int (length (written_tokens_of w (sc_heap s2 r))) \<le> kv_token_count w" if "0 < kv_token_count w"
      using w(1) that by (cases w) (auto simp: written_tokens_of_def item_wf_def split: if_splits)
    have fin: "yields (retire_tokens res r s3) (retired rest s)" if "cache_wf (sc_block_pool s2) c" "int (length pending) < ?bs"
        and c3: "core s3 = core (s2\<lparr>sc_heap := (sc_heap s2)(r := (sc_heap s2 r)\<lparr>scheduling :=
          Some (sch2\<lparr>pending_hash_tokens := pending, ss_parent_hash := parent\<rparr>)\<rparr>), sc_block_cache := c\<rparr>)" for c pending parent s3
    proof -
      define sch3 where "sch3 = sch2\<lparr>pending_hash_tokens := pending, ss_parent_hash := parent\<rparr>"
      have h3: "sc_heap s3 r = ?st\<lparr>scheduling := Some sch3\<rparr>"
        using c3 h2 by (simp add: core_def sch3_def)
      define t where "t = hd (sampled_tokens res)"
      define sch4 where "sch4 = (if sampled_tokens res \<noteq> [] \<and> phase (cursor sch3) = Bootstrap
        then sch3\<lparr>cursor := (cursor sch3)\<lparr>phase := Decode\<rparr>\<rparr> else sch3)"
      define st4 where "st4 a = ?st\<lparr>generated_tokens := generated_tokens ?st @ (if samples w then [t] else []), status := a, scheduling := Some sch4\<rparr>" for a
      have sm: "sampled_tokens res \<noteq> [] \<longleftrightarrow> samples w" using res by (simp add: res_ok_def)
      have "scheduling (sc_heap s3 r) = Some sch3" by (simp add: h3)
      from retire_tokens_ok [OF this, of res]
      show ?thesis
      proof (rule yields_mono, elim exE conjE)
        fix s4 :: Scheduler and a assume "core s4 = core (s3\<lparr>sc_heap := (sc_heap s3)(r := (sc_heap s3 r)\<lparr>
            generated_tokens := generated_tokens (sc_heap s3 r) @ (if sampled_tokens res \<noteq> [] then [hd (sampled_tokens res)] else []),
            status := a, scheduling := Some (if sampled_tokens res \<noteq> [] \<and> phase (cursor sch3) = Bootstrap
              then sch3\<lparr>cursor := (cursor sch3)\<lparr>phase := Decode\<rparr>\<rparr> else sch3)\<rparr>)\<rparr>)"
        then have c4: "core s4 = core (s3\<lparr>sc_heap := (sc_heap s3)(r := st4 a)\<rparr>)"
          using sm by (cases "samples w") (simp_all add: st4_def sch4_def h3 t_def)
        have dphase: "phase (cursor sch) = Bootstrap \<or> phase (cursor sch) = Decode" if "\<not> is_prefill_work w"
          using D(7) that by (cases "phase (cursor sch)") auto
        have nb: "phase cur \<noteq> Bootstrap" if "is_prefill_work w"
          using cur(4) that D(12) by (auto split: if_splits)
        have ds: "samples w" if "\<not> is_prefill_work w" using that by (cases w) simp_all
        have "seq_ok (ctx_capacity s) ?bs ?ws (st4 a) sch4"
          by (rule seq_ok_retire [OF ok act, where t = t])
            (use cur that(2) rv nb dphase ds sm in \<open>auto simp: sch4_def sch3_def sch2_def st1_def st4_def split: if_splits\<close>)
        then have "sched_inv rest s4"
          unfolding sched_inv_def
          by (rule inv_retire [OF inv [unfolded sched_inv_def] r sch, where c = c, rotated 5])
            (use c4 c3 c2 act that(1) pool2 in \<open>auto simp: sch4_def sch3_def sch2_def st4_def core_def\<close>)
        then show "retired rest s s4"
          using c4 c3 c2 by (simp add: retired_def core_def)
      qed
    qed
    have "yields (publish_written dbg w r sch2 s2 \<bind> retire_tokens res r) (retired rest s)"
    proof (rule yields_bind [OF publish_written_ok [OF _ _ _ dbg]])
      show "yields (retire_tokens res r s3) (retired rest s)" if "\<exists>pending parent c. cache_wf (sc_block_pool s2) c \<and>
        int (length pending) < bp_block_size (sc_block_pool s2) \<and>
        core s3 = core (s2\<lparr>sc_heap := (sc_heap s2)(r := (sc_heap s2 r)\<lparr>scheduling :=
          Some (sch2\<lparr>pending_hash_tokens := pending, ss_parent_hash := parent\<rparr>)\<rparr>), sc_block_cache := c\<rparr>)" for s3
        using that fin G(1) pool2 by auto
    qed (use own cb len D(6) I(5) G(1) in \<open>simp_all add: h2 pool2 sch2_def kv_inv_def\<close>)
    then show ?thesis
      using True by (simp add: cur(1) sch2_def [symmetric] s2_def [symmetric])
  qed
qed

lemma flight_owner:
  assumes inv: "sched_inv_at C (pre @ w # rest) X s"
  obtains r sch where "sc_by_seq_id s (work_sequence_id w) = Some r" "r \<in> set (sc_running s)" "r \<in> live s"
    "scheduling (sc_heap s r) = Some sch" "work_sequence_id w = ss_seq_id sch"
    "seq_ok (ctx_capacity s) (kv_block_size (sc_config s)) (items_of (ss_seq_id sch) pre @ w # items_of (ss_seq_id sch) rest)
      (sc_heap s r) sch"
proof -
  note I = sched_inv_atD [OF inv]
  obtain r where r: "sc_by_seq_id s (work_sequence_id w) = Some r"
    using flight_invD(2) [OF I(6), of w] by auto
  then have run: "r \<in> set (sc_running s)" "seq_of s r = work_sequence_id w"
    using seq_invD(1) [OF I(3)] by auto
  then have live: "r \<in> live s" by (simp add: live_def)
  obtain sch where sch: "scheduling (sc_heap s r) = Some sch"
    using queue_invD(10) [OF I(2) live] by blast
  have q: "work_sequence_id w = ss_seq_id sch"
    using run(2) by (simp add: seq_of_def sched_of_def sch)
  show thesis
    by (rule that [OF r run(1) live sch q]) (use inv_live_seq [OF inv live sch] q in \<open>simp add: items_of_Cons\<close>)
qed

text \<open>Dropping an item of a request that is no longer active.\<close>

lemma inv_retire_settled:
  assumes inv: "sched_inv_at C (pre @ w # rest) X s" and r: "r \<in> set (sc_running s)"
    and sch: "scheduling (sc_heap s r) = Some sch" "work_sequence_id w = ss_seq_id sch"
    and ok: "seq_ok (ctx_capacity s) (kv_block_size (sc_config s)) (items_of (ss_seq_id sch) pre @ w # items_of (ss_seq_id sch) rest)
      (sc_heap s r) sch"
    and a: "a \<noteq> Active"
    and s': "core s' = core (s\<lparr>sc_heap := (sc_heap s)(r := (retire_reservation w (sc_heap s r))\<lparr>status := a\<rparr>)\<rparr>)"
  shows "sched_inv_at C (pre @ rest) X s'"
proof -
  let ?q = "ss_seq_id sch"
  obtain rv where rv: "retire_reservation w (sc_heap s r) = (sc_heap s r)\<lparr>scheduling := Some (sch\<lparr>reservation := rv\<rparr>)\<rparr>"
      "ledger rv (items_of ?q pre @ items_of ?q rest)"
      "reserved_kv_tokens rv = reserved_kv_tokens (reservation sch) - kv_token_count w"
    using ledger_retire [OF seq_okD(1) [OF ok] _ sch(1)] seq_okD(2) [OF ok] by blast
  let ?st = "(sc_heap s r)\<lparr>scheduling := Some (sch\<lparr>reservation := rv\<rparr>), status := a\<rparr>"
  have "seq_ok (ctx_capacity s) (kv_block_size (sc_config s)) (items_of ?q pre @ w # items_of ?q rest) ?st sch"
    using ok by (rule seq_ok_status) (use a in simp_all)
  from seq_ok_retire_settled [OF this _ rv(2,3)] a
  have "seq_ok (ctx_capacity s) (kv_block_size (sc_config s)) (items_of ?q (pre @ rest)) ?st (sch\<lparr>reservation := rv\<rparr>)"
    by simp
  then show ?thesis
    by (rule inv_retire_at [OF inv r sch, where c = "sc_block_cache s", rotated 5])
      (use s' a sched_inv_atD(5) [OF inv] in \<open>auto simp: core_def rv(1) kv_inv_def\<close>)
qed

lemma retire_work_ok:
  assumes inv: "sched_inv (w # rest) s" and res: "res_ok w res" and stale: "wr_stale res \<Longrightarrow> wr_seq_id res \<in> sc_exec_failed s"
    and dbg: "\<not> dbg"
  shows "yields (retire_work dbg w res s) (retired rest s)"
proof -
  note at = inv [unfolded sched_inv_def]
  obtain r sch where r: "sc_by_seq_id s (work_sequence_id w) = Some r" "r \<in> set (sc_running s)" "r \<in> live s"
    and sch: "scheduling (sc_heap s r) = Some sch" "work_sequence_id w = ss_seq_id sch"
    and ok: "seq_ok (ctx_capacity s) (kv_block_size (sc_config s)) (w # items_of (ss_seq_id sch) rest) (sc_heap s r) sch"
    using flight_owner [of _ "[]", simplified, OF at] by blast
  obtain rv where rv: "retire_reservation w (sc_heap s r) = (sc_heap s r)\<lparr>scheduling := Some (sch\<lparr>reservation := rv\<rparr>)\<rparr>"
      "ledger rv (items_of (ss_seq_id sch) rest)"
      "reserved_kv_tokens rv = reserved_kv_tokens (reservation sch) - kv_token_count w"
      "reserved_generation_tokens rv = reserved_generation_tokens (reservation sch) - (if samples w then 1 else 0)"
    using ledger_retire_head [OF seq_okD(1) [OF ok] _ sch(1)] seq_okD(2) [OF ok] by blast
  have id: "wr_seq_id res = work_sequence_id w" using res by (simp add: res_ok_def)
  let ?s1 = "s\<lparr>sc_heap := (sc_heap s)(r := (sc_heap s r)\<lparr>scheduling := Some (sch\<lparr>reservation := rv\<rparr>)\<rparr>)\<rparr>"
  show ?thesis
  proof (cases "status (sc_heap s r) = Active")
    case True
    then have ns: "\<not> wr_stale res"
      using stale seq_invD(4) [OF sched_inv_atD(3) [OF at] r(3)] id sch by (auto simp: seq_of_def sched_of_def)
    show ?thesis
      using retire_active_ok [OF inv r(2) sch True res ns dbg rv(2-4)] ns True
      by (simp add: retire_work_def id r(1) sch(1) upd_req_def rv(1) is_schedulable_state_def Let_def)
  next
    case False
    have "sched_inv rest ?s1"
      unfolding sched_inv_def
      by (rule inv_retire_settled [where pre = "[]", simplified, OF at r(2) sch ok False]) (simp add: rv(1) core_def)
    then show ?thesis
      using False by (simp add: retire_work_def id r(1) sch(1) upd_req_def rv(1) is_schedulable_state_def retired_def)
  qed
qed

section \<open>Whole batches\<close>

text \<open>A batch result as the executor delivers it: one result per item, in the order of the items.\<close>

definition batch_res_ok :: "SequenceId set \<Rightarrow> ScheduledBatch \<Rightarrow> BatchResult \<Rightarrow> bool" where
  "batch_res_ok failed batch result \<longleftrightarrow> br_batch_id result = sb_batch_id batch \<and>
     length (br_items result) = length (sb_items batch) \<and>
     (\<forall>i < length (sb_items batch). let res = br_items result ! i in
        item_index res = int i \<and> res_ok (sb_items batch ! i) res \<and> (wr_stale res \<longrightarrow> wr_seq_id res \<in> failed))"

lemma retire_loop_ok:
  assumes "sched_inv (ws @ rest) s" "list_all2 res_ok ws results" "\<forall>res \<in> set results. wr_stale res \<longrightarrow> wr_seq_id res \<in> sc_exec_failed s"
    "\<forall>i < length ws. item_index (results ! i) = int (k + i)" "drop k (sb_items batch) = ws" "k \<le> length (sb_items batch)" "\<not> dbg"
  shows "yields (retire_loop dbg batch results s) (retired rest s)"
  using assms
proof (induction results arbitrary: ws s k)
  case Nil
  then show ?case by (simp add: retired_def)
next
  case (Cons res results)
  then obtain w ws' where ws: "ws = w # ws'" "res_ok w res" "list_all2 res_ok ws' results"
    by (auto simp: list_all2_Cons2)
  have k: "k < length (sb_items batch)" "sb_items batch ! k = w" "drop (Suc k) (sb_items batch) = ws'"
    using Cons.prems(5,6) ws(1) by (auto simp: drop_Suc tl_drop [symmetric] nth_via_drop intro: ccontr)
  have ix: "item_index res = int k" using Cons.prems(4) ws(1) by force
  have IH: "yields (retire_loop dbg batch results s') (retired rest s)" if s': "retired (ws' @ rest) s s'" for s'
  proof -
    have "yields (retire_loop dbg batch results s') (retired rest s')"
      by (rule Cons.IH [of ws' s' "Suc k"]) (use Cons.prems ws k s' in \<open>fastforce simp: retired_def\<close>)+
    then show ?thesis by (rule yields_mono) (use s' in \<open>simp add: retired_def\<close>)
  qed
  have "yields (retire_work dbg w res s \<bind> retire_loop dbg batch results) (retired rest s)"
    by (rule yields_bind [OF retire_work_ok [of w "ws' @ rest"] IH]) (use Cons.prems ws in auto)
  then show ?case using k ix by simp
qed

lemma update_from_output_ok:
  assumes inv: "sched_inv (sb_items batch @ rest) s" and res: "batch_res_ok (sc_exec_failed s) batch result" and dbg: "\<not> dbg"
  shows "yields (update_from_output dbg batch result s) (retired rest s)"
proof -
  have "list_all2 res_ok (sb_items batch) (br_items result)"
    using res by (auto simp: batch_res_ok_def list_all2_conv_all_nth Let_def)
  moreover have "\<forall>res \<in> set (br_items result). wr_stale res \<longrightarrow> wr_seq_id res \<in> sc_exec_failed s"
    using res by (auto simp: batch_res_ok_def in_set_conv_nth Let_def)
  ultimately show ?thesis
    using retire_loop_ok [OF inv _ _ _ _ _ dbg, of "br_items result" 0 batch] res dbg
    by (simp add: update_from_output_def batch_res_ok_def Let_def)
qed

text \<open>A failed batch: every request with an item in it stops being active.\<close>

lemma fail_items_ok:
  assumes "sched_inv (pre @ ws @ rest) s"
  shows "sched_inv (pre @ rest) (fail_items err ws s) \<and> sc_config (fail_items err ws s) = sc_config s \<and>
    sc_exec_failed (fail_items err ws s) = sc_exec_failed s \<and> sc_next_seq_id (fail_items err ws s) = sc_next_seq_id s \<and>
    live (fail_items err ws s) = live s \<and> seq_of (fail_items err ws s) = seq_of s \<and>
    (\<forall>r \<in> live s. status (sc_heap s r) \<noteq> Active \<or> seq_of s r \<in> work_sequence_id ` set ws \<longrightarrow>
       status (sc_heap (fail_items err ws s) r) \<noteq> Active)"
  using assms
proof (induction ws arbitrary: s)
  case Nil
  then show ?case by simp
next
  case (Cons w ws)
  have at: "sched_inv_at {} (pre @ w # ws @ rest) {#} s" using Cons.prems by (simp add: sched_inv_def)
  obtain r sch where r: "sc_by_seq_id s (work_sequence_id w) = Some r" "r \<in> set (sc_running s)" "r \<in> live s"
    and sch: "scheduling (sc_heap s r) = Some sch" "work_sequence_id w = ss_seq_id sch"
    and ok: "seq_ok (ctx_capacity s) (kv_block_size (sc_config s)) (items_of (ss_seq_id sch) pre @ w # items_of (ss_seq_id sch) (ws @ rest))
      (sc_heap s r) sch"
    using flight_owner [OF at] by blast
  obtain rv where rv: "retire_reservation w (sc_heap s r) = (sc_heap s r)\<lparr>scheduling := Some (sch\<lparr>reservation := rv\<rparr>)\<rparr>"
    using ledger_retire [OF seq_okD(1) [OF ok] _ sch(1)] seq_okD(2) [OF ok] by blast
  define a where "a = (if status (sc_heap s r) = Active then Failed else status (sc_heap s r))"
  define s1 where "s1 = (let s = upd_req r (retire_reservation w) s in
    if status (sc_heap s r) = Active then snd (send_error_event r err s) else s)"
  have c1: "core s1 = core (s\<lparr>sc_heap := (sc_heap s)(r := (retire_reservation w (sc_heap s r))\<lparr>status := a\<rparr>)\<rparr>)"
  proof (cases "status (sc_heap s r) = Active")
    case True
    then show ?thesis by (simp add: s1_def a_def rv upd_req_def send_error_event_def)
  next
    case False
    then show ?thesis by (simp add: s1_def a_def rv upd_req_def core_def)
  qed
  have "sched_inv_at {} (pre @ ws @ rest) {#} s1"
    by (rule inv_retire_settled [OF at r(2) sch ok _ c1]) (simp add: a_def)
  note IH = Cons.IH [unfolded sched_inv_def, OF this]
  have e1: "live s1 = live s" "sc_config s1 = sc_config s" "sc_exec_failed s1 = sc_exec_failed s"
      "sc_next_seq_id s1 = sc_next_seq_id s" and h1: "sc_heap s1 = (sc_heap s)(r := (retire_reservation w (sc_heap s r))\<lparr>status := a\<rparr>)"
    using c1 by (simp_all add: core_def live_def)
  have q1: "seq_of s1 = seq_of s"
    by (auto simp: seq_of_def sched_of_def h1 rv sch(1) fun_eq_iff)
  have st: "status (sc_heap s1 r') \<noteq> Active" if "status (sc_heap s r') \<noteq> Active \<or> r' = r" for r'
    using that by (auto simp: h1 a_def)
  have "r' = r" if "r' \<in> live s" "seq_of s r' = work_sequence_id w" for r'
    using seq_invD(3) [OF sched_inv_atD(3) [OF at] that(1) r(3)] that(2) sch by (simp add: seq_of_def sched_of_def)
  moreover have "fail_items err (w # ws) s = fail_items err ws s1"
    by (simp add: r(1) s1_def)
  ultimately show ?case
    using IH e1 q1 st by (auto simp: sched_inv_def)
qed

lemma fail_batch_ok:
  assumes inv: "sched_inv (pre @ sb_items batch @ rest) s" and F: "F \<subseteq> sc_exec_failed s \<union> work_sequence_id ` set (sb_items batch)"
  shows "sched_inv (pre @ rest) ((fail_batch batch err s)\<lparr>sc_exec_failed := F\<rparr>) \<and> sc_config (fail_batch batch err s) = sc_config s"
proof -
  let ?s = "fail_items err (sb_items batch) s"
  note at = inv [unfolded sched_inv_def]
  note A = fail_items_ok [OF inv, of err]
  have "status (sc_heap ?s r) \<noteq> Active" if "r \<in> live s" "seq_of s r \<in> F" for r
    using that F A seq_invD(4) [OF sched_inv_atD(3) [OF at], of r] by auto
  moreover have "q < sc_next_seq_id s" if "q \<in> F" for q
  proof -
    have "q < sc_next_seq_id s" if q: "q = work_sequence_id w" "w \<in> set (sb_items batch)" for w
    proof -
      obtain r where "sc_by_seq_id s q = Some r"
        using flight_invD(2) [OF sched_inv_atD(6) [OF at], of w] q by auto
      then have "r \<in> live s" "seq_of s r = q"
        using seq_invD(1) [OF sched_inv_atD(3) [OF at], of q r] by (auto simp: live_def)
      then show ?thesis using seq_invD(2) [OF sched_inv_atD(3) [OF at]] by blast
    qed
    then show ?thesis
      using that F seq_invD(5) [OF sched_inv_atD(3) [OF at], of q] by blast
  qed
  ultimately have "sched_inv (pre @ rest) (?s\<lparr>sc_exec_failed := F\<rparr>)"
    using A unfolding sched_inv_def by (intro inv_exec_failed) auto
  then show ?thesis using A by (simp add: fail_batch_def)
qed

end
