(* ===== verification/Scheduler_Cleanup.thy ===== *)
theory Scheduler_Cleanup
  imports Scheduler_Retire
begin

text \<open>
  The remaining steps of the scheduler keep the invariant: cleaning up terminal requests, preempting
  one for admission, failing the waiting queues, the cleanup at shutdown, construction, submission
  and cancellation.
\<close>

section \<open>Terminal requests that run\<close>

lemma erase_request_ok:
  assumes inv: "sched_inv_at (insert r C) fl X s" "r \<notin> C"
  shows "yields (erase_request dbg r s) (\<lambda>s'. sched_inv_at C fl X s' \<and>
    s' = s\<lparr>sc_requests := (sc_requests s)(rs_request_id (sc_heap s r) := None)\<rparr>)"
proof -
  have "scheduling (sc_heap s r) = None"
    using queue_invD(8) [OF sched_inv_atD(2) [OF inv(1)], of r] by (simp add: parked_ok_def)
  then show ?thesis
    using inv_erase [OF inv refl] by (simp add: erase_request_def)
qed

lemma drop_running_ok:
  assumes inv: "sched_inv_at {} fl {#} s" and r: "r \<in> set (sc_running s)" "items_of (seq_of s r) fl = []"
    and s0: "core s0 = core (s\<lparr>sc_heap := (sc_heap s)(r := st0)\<rparr>)"
    and st0: "scheduling st0 = scheduling (sc_heap s r)" "rs_request_id st0 = rs_request_id (sc_heap s r)"
      "generated_tokens st0 = generated_tokens (sc_heap s r)" "rs_sampling st0 = rs_sampling (sc_heap s r)"
  shows "yields (release_scheduling_blocks dbg r s0 \<bind> (\<lambda>s. erase_request dbg r (s\<lparr>sc_running := remove1 r (sc_running s)\<rparr>)))
    (\<lambda>s'. sched_inv_at {} fl {#} s' \<and> sc_config s' = sc_config s \<and> sc_running s' = remove1 r (sc_running s) \<and>
      sc_skip s' = sc_skip s \<and> sc_waiting s' = sc_waiting s \<and> (\<forall>r'. r' \<noteq> r \<longrightarrow> sc_heap s' r' = sc_heap s r'))"
proof (rule yields_bind [OF release_running [OF inv r s0 st0]])
  fix s1 assume s1: "sched_inv_at (insert r {}) fl {#} (s1\<lparr>sc_running := remove1 r (sc_running s1)\<rparr>) \<and>
    sc_waiting s1 = sc_waiting s \<and> sc_skip s1 = sc_skip s \<and> sc_running s1 = sc_running s \<and> sc_config s1 = sc_config s \<and>
    sc_heap s1 = (sc_heap s)(r := st0\<lparr>scheduling := None\<rparr>)"
  show "yields (erase_request dbg r (s1\<lparr>sc_running := remove1 r (sc_running s1)\<rparr>)) (\<lambda>s'. sched_inv_at {} fl {#} s' \<and>
      sc_config s' = sc_config s \<and> sc_running s' = remove1 r (sc_running s) \<and>
      sc_skip s' = sc_skip s \<and> sc_waiting s' = sc_waiting s \<and> (\<forall>r'. r' \<noteq> r \<longrightarrow> sc_heap s' r' = sc_heap s r'))"
    by (rule yields_mono [OF erase_request_ok [of r "{}" fl "{#}"]]) (use s1 in auto)
qed

definition idle_requests :: "RequestPtr list \<Rightarrow> Scheduler \<Rightarrow> bool" where
  "idle_requests rs s \<longleftrightarrow> distinct rs \<and> (\<forall>r \<in> set rs. r \<in> set (sc_running s) \<and> releasable (sc_heap s r))"

lemma releasable_no_items:
  assumes "sched_inv_at C fl X s" "r \<in> live s" "releasable (sc_heap s r)"
  shows "items_of (seq_of s r) fl = []"
  using assms leases_zero_no_items [OF assms(1,2)] by (auto simp: releasable_def split: option.splits)

lemma cleanup_running_loop_ok:
  assumes "sched_inv fl s" "idle_requests rs s"
  shows "yields (cleanup_running_loop dbg rs s) (\<lambda>s'. sched_inv fl s' \<and> sc_config s' = sc_config s)"
  using assms
proof (induction rs arbitrary: s)
  case Nil
  then show ?case by simp
next
  case (Cons r rs)
  note at = Cons.prems(1) [unfolded sched_inv_def]
  have r: "r \<in> set (sc_running s)" "r \<in> live s" "releasable (sc_heap s r)"
    using Cons.prems(2) by (simp_all add: idle_requests_def live_def)
  have c0: "core (release_sequence_of r s) = core (s\<lparr>sc_heap := (sc_heap s)(r := sc_heap s r)\<rparr>)"
    by (simp add: core_def [of "s\<lparr>sc_heap := h\<rparr>" for h] core_def [of s])
  have "yields ((release_scheduling_blocks dbg r (release_sequence_of r s) \<bind>
      (\<lambda>s. erase_request dbg r (s\<lparr>sc_running := remove1 r (sc_running s)\<rparr>))) \<bind>
      (\<lambda>s. cleanup_running_loop dbg rs (s\<lparr>sc_admission_paused := False\<rparr>)))
      (\<lambda>s'. sched_inv fl s' \<and> sc_config s' = sc_config s)"
  proof (rule yields_bind [OF drop_running_ok [OF at r(1) releasable_no_items [OF at r(2,3)] c0 refl refl refl refl]])
    fix s1 assume s1: "sched_inv_at {} fl {#} s1 \<and> sc_config s1 = sc_config s \<and> sc_running s1 = remove1 r (sc_running s) \<and>
      sc_skip s1 = sc_skip s \<and> sc_waiting s1 = sc_waiting s \<and> (\<forall>r'. r' \<noteq> r \<longrightarrow> sc_heap s1 r' = sc_heap s r')"
    have "sched_inv fl (s1\<lparr>sc_admission_paused := False\<rparr>)"
      using s1 sched_inv_core [OF core_simps(1)] by (simp add: sched_inv_def)
    moreover have "idle_requests rs (s1\<lparr>sc_admission_paused := False\<rparr>)"
    proof -
      have "r' \<in> set (sc_running s1) \<and> releasable (sc_heap s1 r')" if "r' \<in> set rs" for r'
      proof -
        have "r' \<noteq> r" "r' \<in> set (sc_running s)" "releasable (sc_heap s r')"
          using that Cons.prems(2) by (auto simp: idle_requests_def)
        then show ?thesis using s1 by simp
      qed
      then show ?thesis
        using Cons.prems(2) by (simp add: idle_requests_def)
    qed
    ultimately show "yields (cleanup_running_loop dbg rs (s1\<lparr>sc_admission_paused := False\<rparr>))
        (\<lambda>s'. sched_inv fl s' \<and> sc_config s' = sc_config s)"
      using Cons.IH [of "s1\<lparr>sc_admission_paused := False\<rparr>"] s1 by simp
  qed
  then show ?case by simp
qed

section \<open>Terminal requests in the queues\<close>

text \<open>
  The queue keeps its elements until the loop has rebuilt it: the invariant holds of the state in
  which the queue is what the loop has kept followed by what it has not seen.
\<close>

lemma release_viewed:
  assumes inv: "sched_inv_at {} fl {#} (s\<lparr>sc_skip := pre @ r # rs\<rparr>)" and s0: "core s0 = core s"
  shows "yields (release_scheduling_blocks dbg r s0) (\<lambda>s1. sched_inv_at {r} fl {#} (s1\<lparr>sc_skip := pre @ rs\<rparr>) \<and>
    sc_config s1 = sc_config s \<and> sc_waiting s1 = sc_waiting s \<and> sc_skip s1 = sc_skip s)"
proof -
  let ?s = "s\<lparr>sc_skip := pre @ r # rs\<rparr>"
  note Q = queue_invD [OF sched_inv_atD(2) [OF inv]]
  have r: "r \<in> live ?s" "r \<notin> set (sc_running ?s)" "r \<notin> set pre"
    using Q(2,4) by (auto simp: live_def)
  then have rem: "remove1 r (sc_skip ?s) = pre @ rs" "remove1 r (sc_running ?s) = sc_running ?s"
    by (simp_all add: remove1_append remove1_idem)
  obtain p c where pc: "release_scheduling_blocks dbg r s0 = Some (s0\<lparr>sc_heap := (sc_heap ?s)(r := (sc_heap s r)\<lparr>scheduling := None\<rparr>),
      sc_by_seq_id := (sc_by_seq_id ?s)(seq_of ?s r := None), sc_block_pool := p, sc_block_cache := c\<rparr>)"
    "\<And>s'. core s' = core (s0\<lparr>sc_heap := (sc_heap ?s)(r := (sc_heap s r)\<lparr>scheduling := None\<rparr>),
      sc_by_seq_id := (sc_by_seq_id ?s)(seq_of ?s r := None), sc_block_pool := p, sc_block_cache := c,
      sc_skip := remove1 r (sc_skip ?s), sc_running := remove1 r (sc_running ?s)\<rparr>) \<Longrightarrow> sched_inv_at (insert r {}) fl {#} s'"
    using release_detach [OF inv r(1) no_items_unless_running [OF inv r(1,2)], of s0 "sc_heap s r" dbg] s0
    by (auto simp: core_def)
  let ?s1 = "s0\<lparr>sc_heap := (sc_heap ?s)(r := (sc_heap s r)\<lparr>scheduling := None\<rparr>),
      sc_by_seq_id := (sc_by_seq_id ?s)(seq_of ?s r := None), sc_block_pool := p, sc_block_cache := c\<rparr>"
  have "sched_inv_at {r} fl {#} (?s1\<lparr>sc_skip := pre @ rs\<rparr>)"
    by (rule pc(2)) (use s0 rem in \<open>simp add: core_def\<close>)
  then show ?thesis
    using s0 by (simp add: pc(1) core_def)
qed

lemma erase_viewed:
  assumes inv: "sched_inv_at {r} fl {#} (s\<lparr>sc_skip := q\<rparr>)" and s0: "core s0 = core s"
  shows "yields (erase_request dbg r s0) (\<lambda>s'. sched_inv_at {} fl {#} (s'\<lparr>sc_skip := q\<rparr>) \<and>
    sc_config s' = sc_config s \<and> sc_waiting s' = sc_waiting s \<and> sc_skip s' = sc_skip s)"
proof -
  have "scheduling (sc_heap s r) = None"
    using queue_invD(8) [OF sched_inv_atD(2) [OF inv], of r] by (simp add: parked_ok_def)
  moreover have "sched_inv_at {} fl {#} (s0\<lparr>sc_requests := (sc_requests s0)(rs_request_id (sc_heap s0 r) := None), sc_skip := q\<rparr>)"
    by (rule inv_erase [of r "{}" fl "{#}" "s\<lparr>sc_skip := q\<rparr>"]) (use inv s0 in \<open>simp_all add: core_def\<close>)
  ultimately show ?thesis
    using s0 by (simp add: erase_request_def core_def)
qed

lemma drop_skipped_ok:
  assumes inv: "sched_inv_at {} fl {#} (s\<lparr>sc_skip := pre @ r # rs\<rparr>)" and s0: "core s0 = core s"
  shows "yields (release_scheduling_blocks dbg r s0 \<bind> erase_request dbg r) (\<lambda>s'.
    sched_inv_at {} fl {#} (s'\<lparr>sc_skip := pre @ rs\<rparr>) \<and> sc_config s' = sc_config s \<and> sc_waiting s' = sc_waiting s)"
  by (rule yields_bind [OF release_viewed [OF inv s0]], rule yields_mono [OF erase_viewed]) auto

lemma cleanup_skip_ok:
  assumes "sched_inv_at {} fl {#} (s\<lparr>sc_skip := pre @ rs\<rparr>)"
  shows "yields (cleanup_terminal_queue dbg rs s) (\<lambda>(active, s'). sched_inv_at {} fl {#} (s'\<lparr>sc_skip := pre @ active\<rparr>) \<and>
    sc_config s' = sc_config s \<and> sc_waiting s' = sc_waiting s)"
  using assms
proof (induction rs arbitrary: pre s)
  case Nil
  then show ?case by simp
next
  case (Cons r rs)
  let ?P = "\<lambda>(active, s'). sched_inv_at {} fl {#} (s'\<lparr>sc_skip := pre @ active\<rparr>) \<and>
    sc_config s' = sc_config s \<and> sc_waiting s' = sc_waiting s"
  show ?case
  proof (cases "status (sc_heap s r) = Active")
    case True
    have "yields (cleanup_terminal_queue dbg rs s \<bind> (\<lambda>(active, s). Some (r # active, s))) ?P"
      by (rule yields_bind [OF Cons.IH [of "pre @ [r]" s]]) (use Cons.prems in auto)
    then show ?thesis using True by simp
  next
    case False
    let ?s0 = "if releasable (sc_heap s r) then release_sequence_of r s else s"
    have c0: "core ?s0 = core s" by simp
    have "yields ((release_scheduling_blocks dbg r ?s0 \<bind> erase_request dbg r) \<bind> cleanup_terminal_queue dbg rs) ?P"
    proof (rule yields_bind [OF drop_skipped_ok [OF Cons.prems c0]])
      fix s1 assume s1: "sched_inv_at {} fl {#} (s1\<lparr>sc_skip := pre @ rs\<rparr>) \<and> sc_config s1 = sc_config s \<and> sc_waiting s1 = sc_waiting s"
      show "yields (cleanup_terminal_queue dbg rs s1) ?P"
        by (rule yields_mono [OF Cons.IH [of pre s1]]) (use s1 in auto)
    qed
    then show ?thesis using False by simp
  qed
qed

lemma drop_waiting_ok:
  assumes inv: "sched_inv_at {} fl {#} (s\<lparr>sc_waiting := pre @ r # rs\<rparr>)"
  shows "releasable (sc_heap s r) = False" "release_scheduling_blocks dbg r s = Some s"
    "yields (erase_request dbg r s) (\<lambda>s'. sched_inv_at {} fl {#} (s'\<lparr>sc_waiting := pre @ rs\<rparr>) \<and> sc_config s' = sc_config s \<and>
       sc_skip s' = sc_skip s)"
proof -
  have "scheduling (sc_heap s r) = None"
    using queue_invD(8) [OF sched_inv_atD(2) [OF inv], of r] by (simp add: parked_ok_def)
  then show "releasable (sc_heap s r) = False" "release_scheduling_blocks dbg r s = Some s"
    by (simp_all add: releasable_def release_scheduling_blocks_def)
  have "sched_inv_at (insert r {}) fl {#} (s\<lparr>sc_waiting := pre @ rs\<rparr>)"
    by (rule inv_unpark_at(1) [OF inv]) (simp_all add: core_def)
  from inv_erase [OF this, of "s\<lparr>sc_requests := (sc_requests s)(rs_request_id (sc_heap s r) := None), sc_waiting := pre @ rs\<rparr>"]
  show "yields (erase_request dbg r s) (\<lambda>s'. sched_inv_at {} fl {#} (s'\<lparr>sc_waiting := pre @ rs\<rparr>) \<and> sc_config s' = sc_config s \<and>
       sc_skip s' = sc_skip s)"
    using \<open>scheduling (sc_heap s r) = None\<close> by (simp add: erase_request_def core_def)
qed

lemma cleanup_waiting_ok:
  assumes "sched_inv_at {} fl {#} (s\<lparr>sc_waiting := pre @ rs\<rparr>)"
  shows "yields (cleanup_terminal_queue dbg rs s) (\<lambda>(active, s'). sched_inv_at {} fl {#} (s'\<lparr>sc_waiting := pre @ active\<rparr>) \<and>
    sc_config s' = sc_config s \<and> sc_skip s' = sc_skip s)"
  using assms
proof (induction rs arbitrary: pre s)
  case Nil
  then show ?case by simp
next
  case (Cons r rs)
  let ?P = "\<lambda>(active, s'). sched_inv_at {} fl {#} (s'\<lparr>sc_waiting := pre @ active\<rparr>) \<and>
    sc_config s' = sc_config s \<and> sc_skip s' = sc_skip s"
  show ?case
  proof (cases "status (sc_heap s r) = Active")
    case True
    have "yields (cleanup_terminal_queue dbg rs s \<bind> (\<lambda>(active, s). Some (r # active, s))) ?P"
      by (rule yields_bind [OF Cons.IH [of "pre @ [r]" s]]) (use Cons.prems in auto)
    then show ?thesis using True by simp
  next
    case False
    note d = drop_waiting_ok [OF Cons.prems]
    have "yields (erase_request dbg r s \<bind> cleanup_terminal_queue dbg rs) ?P"
    proof (rule yields_bind [OF d(3)])
      fix s1 assume s1: "sched_inv_at {} fl {#} (s1\<lparr>sc_waiting := pre @ rs\<rparr>) \<and> sc_config s1 = sc_config s \<and> sc_skip s1 = sc_skip s"
      show "yields (cleanup_terminal_queue dbg rs s1) ?P"
        by (rule yields_mono [OF Cons.IH [of pre s1]]) (use s1 in auto)
    qed
    then show ?thesis using False d(1,2) by simp
  qed
qed

lemma cleanup_terminal_requests_ok:
  assumes inv: "sched_inv fl s"
  shows "yields (cleanup_terminal_requests dbg s) (\<lambda>s'. sched_inv fl s' \<and> sc_config s' = sc_config s)"
proof -
  have idle: "idle_requests (filter (\<lambda>r. releasable (sc_heap s r)) (sc_running s)) s"
    using queue_invD(3) [OF sched_inv_atD(2) [OF inv [unfolded sched_inv_def]]] by (simp add: idle_requests_def)
  have waiting: "yields (cleanup_terminal_queue dbg (sc_waiting s2) s2 \<bind> (\<lambda>(waiting, s). Some (s\<lparr>sc_waiting := waiting\<rparr>)))
      (\<lambda>s'. sched_inv fl s' \<and> sc_config s' = sc_config s)" if "sched_inv_at {} fl {#} s2" "sc_config s2 = sc_config s" for s2
    by (rule yields_bind [OF cleanup_waiting_ok [of fl "[]" "sc_waiting s2" s2]]) (use that in \<open>auto simp: sched_inv_def\<close>)
  show ?thesis
    unfolding cleanup_terminal_requests_def
  proof (rule yields_bind [OF cleanup_running_loop_ok [OF inv idle]])
    fix s1 assume s1: "sched_inv fl s1 \<and> sc_config s1 = sc_config s"
    show "yields (cleanup_terminal_queue dbg (sc_skip s1) s1 \<bind> (\<lambda>(skip, s). let s = s\<lparr>sc_skip := skip\<rparr> in
        cleanup_terminal_queue dbg (sc_waiting s) s \<bind> (\<lambda>(waiting, s). Some (s\<lparr>sc_waiting := waiting\<rparr>))))
        (\<lambda>s'. sched_inv fl s' \<and> sc_config s' = sc_config s)"
    proof (rule yields_bind [OF cleanup_skip_ok [of fl "[]" "sc_skip s1" s1]], use s1 in \<open>simp add: sched_inv_def\<close>, clarsimp simp: Let_def)
      fix skip s2 assume "sched_inv_at {} fl {#} (s2\<lparr>sc_skip := skip\<rparr>)" "sc_config s2 = sc_config s1" "sc_waiting s2 = sc_waiting s1"
      with waiting [of "s2\<lparr>sc_skip := skip\<rparr>"] s1
      show "yields (cleanup_terminal_queue dbg (sc_waiting s1) (s2\<lparr>sc_skip := skip\<rparr>) \<bind>
          (\<lambda>(waiting, s). Some (s\<lparr>sc_waiting := waiting\<rparr>))) (\<lambda>s'. sched_inv fl s' \<and> sc_config s' = sc_config s)"
        by simp
    qed
  qed
qed

section \<open>Shutdown\<close>

lemma view_core: "core s0 = core s \<Longrightarrow> core (s0\<lparr>sc_skip := q\<rparr>) = core (s\<lparr>sc_skip := q\<rparr>)"
  "core s0 = core s \<Longrightarrow> core (s0\<lparr>sc_waiting := q\<rparr>) = core (s\<lparr>sc_waiting := q\<rparr>)"
  by (simp_all add: core_def)

lemma fail_waiting_ok:
  assumes "sched_inv_at {} fl {#} (s\<lparr>sc_waiting := rs\<rparr>)"
  shows "yields (fail_loop dbg err rs s) (\<lambda>s'. sched_inv_at {} fl {#} (s'\<lparr>sc_waiting := []\<rparr>) \<and>
    sc_config s' = sc_config s \<and> sc_waiting s' = sc_waiting s \<and> sc_skip s' = sc_skip s)"
  using assms
proof (induction rs arbitrary: s)
  case Nil
  then show ?case by simp
next
  case (Cons r rs)
  let ?s0 = "snd (send_event (rs_sink (sc_heap s r)) (Inl err) s)"
  have c0: "core ?s0 = core s" by simp
  have inv0: "sched_inv_at {} fl {#} (?s0\<lparr>sc_waiting := [] @ r # rs\<rparr>)"
    using Cons.prems sched_inv_core [OF view_core(2) [OF c0]] by simp
  have rel: "release_scheduling_blocks dbg r s = Some s"
    using drop_waiting_ok(2) [of fl "[]" r rs s] Cons.prems by simp
  have none: "scheduling (sc_heap ?s0 r) = None"
    using queue_invD(8) [OF sched_inv_atD(2) [OF inv0], of r] by (simp add: parked_ok_def)
  have "yields (erase_request dbg r ?s0 \<bind> fail_loop dbg err rs) (\<lambda>s'. sched_inv_at {} fl {#} (s'\<lparr>sc_waiting := []\<rparr>) \<and>
    sc_config s' = sc_config s \<and> sc_waiting s' = sc_waiting s \<and> sc_skip s' = sc_skip s)"
  proof -
    let ?s1 = "?s0\<lparr>sc_requests := (sc_requests ?s0)(rs_request_id (sc_heap ?s0 r) := None)\<rparr>"
    have e: "erase_request dbg r ?s0 = Some ?s1" using none by (simp add: erase_request_def)
    have "sched_inv_at {} fl {#} (?s1\<lparr>sc_waiting := rs\<rparr>)"
      using drop_waiting_ok(3) [OF inv0, of dbg] e by simp
    from Cons.IH [OF this] show ?thesis
      using c0 unfolding e by (simp add: core_def)
  qed
  then show ?case using rel by (simp add: drop_request_def)
qed

lemma fail_skipped_ok:
  assumes "sched_inv_at {} fl {#} (s\<lparr>sc_skip := rs\<rparr>)"
  shows "yields (fail_loop dbg err rs s) (\<lambda>s'. sched_inv_at {} fl {#} (s'\<lparr>sc_skip := []\<rparr>) \<and>
    sc_config s' = sc_config s \<and> sc_waiting s' = sc_waiting s \<and> sc_skip s' = sc_skip s)"
  using assms
proof (induction rs arbitrary: s)
  case Nil
  then show ?case by simp
next
  case (Cons r rs)
  let ?Q = "\<lambda>s'. sched_inv_at {} fl {#} (s'\<lparr>sc_skip := []\<rparr>) \<and>
    sc_config s' = sc_config s \<and> sc_waiting s' = sc_waiting s \<and> sc_skip s' = sc_skip s"
  have inv: "sched_inv_at {} fl {#} (s\<lparr>sc_skip := [] @ r # rs\<rparr>)" using Cons.prems by simp
  have "yields (release_scheduling_blocks dbg r s \<bind> (\<lambda>s. drop_request dbg (Inl err) r s \<bind> fail_loop dbg err rs)) ?Q"
  proof (rule yields_bind [OF release_viewed [OF inv refl]])
    fix s1 assume s1: "sched_inv_at {r} fl {#} (s1\<lparr>sc_skip := [] @ rs\<rparr>) \<and> sc_config s1 = sc_config s \<and>
      sc_waiting s1 = sc_waiting s \<and> sc_skip s1 = sc_skip s"
    have e: "yields (erase_request dbg r (snd (send_event (rs_sink (sc_heap s1 r)) (Inl err) s1))) (\<lambda>s'.
        sched_inv_at {} fl {#} (s'\<lparr>sc_skip := rs\<rparr>) \<and> sc_config s' = sc_config s1 \<and> sc_waiting s' = sc_waiting s1 \<and> sc_skip s' = sc_skip s1)"
      by (rule erase_viewed) (use s1 in simp_all)
    show "yields (drop_request dbg (Inl err) r s1 \<bind> fail_loop dbg err rs) ?Q"
      unfolding drop_request_def
    proof (rule yields_bind [OF e])
      fix s2 assume "sched_inv_at {} fl {#} (s2\<lparr>sc_skip := rs\<rparr>) \<and> sc_config s2 = sc_config s1 \<and>
        sc_waiting s2 = sc_waiting s1 \<and> sc_skip s2 = sc_skip s1"
      with Cons.IH [of s2] s1 show "yields (fail_loop dbg err rs s2) ?Q" by simp
    qed
  qed
  then show ?case by simp
qed

lemma fail_all_waiting_ok:
  assumes inv: "sched_inv fl s"
  shows "yields (fail_all_waiting dbg err s) (\<lambda>s'. sched_inv fl s' \<and> sc_config s' = sc_config s \<and>
    sc_waiting s' = [] \<and> sc_skip s' = [])"
proof -
  have "sched_inv_at {} fl {#} (s\<lparr>sc_waiting := [], sc_waiting := sc_waiting s\<rparr>)"
    using inv by (simp add: sched_inv_def)
  then have "sched_inv_at {} fl {#} ((s\<lparr>sc_waiting := []\<rparr>)\<lparr>sc_waiting := sc_waiting s\<rparr>)" by simp
  note W = fail_waiting_ok [OF this, of dbg err]
  show ?thesis unfolding fail_all_waiting_def
  proof (rule yields_bind [OF W])
    fix s1 assume s1: "sched_inv_at {} fl {#} (s1\<lparr>sc_waiting := []\<rparr>) \<and> sc_config s1 = sc_config (s\<lparr>sc_waiting := []\<rparr>) \<and>
      sc_waiting s1 = sc_waiting (s\<lparr>sc_waiting := []\<rparr>) \<and> sc_skip s1 = sc_skip (s\<lparr>sc_waiting := []\<rparr>)"
    then have "s1\<lparr>sc_waiting := []\<rparr> = s1" by simp
    then have i1: "sched_inv_at {} fl {#} s1" using s1 by metis
    have "(s1\<lparr>sc_skip := []\<rparr>)\<lparr>sc_skip := sc_skip s1\<rparr> = s1" by simp
    then have "sched_inv_at {} fl {#} ((s1\<lparr>sc_skip := []\<rparr>)\<lparr>sc_skip := sc_skip s1\<rparr>)"
      using i1 by metis
    from fail_skipped_ok [OF this, of dbg err]
    show "yields (fail_loop dbg err (sc_skip s1) (s1\<lparr>sc_skip := []\<rparr>)) (\<lambda>s'. sched_inv fl s' \<and> sc_config s' = sc_config s \<and>
        sc_waiting s' = [] \<and> sc_skip s' = [])"
    proof (rule yields_mono)
      fix s2 assume s2: "sched_inv_at {} fl {#} (s2\<lparr>sc_skip := []\<rparr>) \<and> sc_config s2 = sc_config (s1\<lparr>sc_skip := []\<rparr>) \<and>
        sc_waiting s2 = sc_waiting (s1\<lparr>sc_skip := []\<rparr>) \<and> sc_skip s2 = sc_skip (s1\<lparr>sc_skip := []\<rparr>)"
      then have "s2\<lparr>sc_skip := []\<rparr> = s2" by simp
      with s2 s1 show "sched_inv fl s2 \<and> sc_config s2 = sc_config s \<and> sc_waiting s2 = [] \<and> sc_skip s2 = []"
        by (simp add: sched_inv_def)
    qed
  qed
qed

lemma cleanup_all_loop_ok:
  assumes "sched_inv [] s" "sc_running s = rs"
  shows "yields (cleanup_all_loop dbg err rs s) (\<lambda>s'. sched_inv [] s' \<and> sc_running s' = [] \<and> sc_config s' = sc_config s \<and>
    sc_waiting s' = sc_waiting s \<and> sc_skip s' = sc_skip s)"
  using assms
proof (induction rs arbitrary: s)
  case Nil
  then show ?case by simp
next
  case (Cons r rs)
  note at = Cons.prems(1) [unfolded sched_inv_def]
  let ?Q = "\<lambda>s'. sched_inv [] s' \<and> sc_running s' = [] \<and> sc_config s' = sc_config s \<and>
    sc_waiting s' = sc_waiting s \<and> sc_skip s' = sc_skip s"
  have r: "r \<in> set (sc_running s)" using Cons.prems(2) by simp
  then have sch: "scheduling (sc_heap s r) \<noteq> None"
    using queue_invD(10) [OF sched_inv_atD(2) [OF at], of r] by (auto simp: live_def)
  define st0 where "st0 = (if status (sc_heap s r) = Active then (sc_heap s r)\<lparr>status := Failed\<rparr> else sc_heap s r)"
  let ?s0 = "if status (sc_heap s r) = Active then snd (send_error_event r err s) else s"
  have c0: "core ?s0 = core (s\<lparr>sc_heap := (sc_heap s)(r := st0)\<rparr>)"
  proof (cases "status (sc_heap s r) = Active")
    case True
    then show ?thesis by (simp add: send_error_event_def upd_req_def st0_def)
  next
    case False
    then show ?thesis by (simp add: st0_def core_def)
  qed
  have "yields ((release_scheduling_blocks dbg r ?s0 \<bind> (\<lambda>s. erase_request dbg r (s\<lparr>sc_running := remove1 r (sc_running s)\<rparr>))) \<bind>
      cleanup_all_loop dbg err rs) ?Q"
  proof (rule yields_bind [OF drop_running_ok [OF at r _ c0]])
    fix s1 assume s1: "sched_inv_at {} [] {#} s1 \<and> sc_config s1 = sc_config s \<and> sc_running s1 = remove1 r (sc_running s) \<and>
      sc_skip s1 = sc_skip s \<and> sc_waiting s1 = sc_waiting s \<and> (\<forall>r'. r' \<noteq> r \<longrightarrow> sc_heap s1 r' = sc_heap s r')"
    then have "sc_running s1 = rs" using Cons.prems(2) by simp
    with Cons.IH [of s1] s1 show "yields (cleanup_all_loop dbg err rs s1) ?Q" by (simp add: sched_inv_def)
  qed (simp_all add: st0_def)
  then show ?case using sch by (auto simp: Let_def)
qed

section \<open>Preemption, submission and cancellation\<close>

lemma preempt_one_for_admission_ok:
  assumes inv: "sched_inv fl s"
  shows "sched_inv fl (preempt_one_for_admission s) \<and> sc_config (preempt_one_for_admission s) = sc_config s"
proof (cases "find (\<lambda>r. preemptable (sc_heap s r)) (rev (sc_running s))")
  case None
  then show ?thesis using inv by (simp add: preempt_one_for_admission_def)
next
  case (Some r)
  note at = inv [unfolded sched_inv_def]
  note I = sched_inv_atD [OF at]
  have r: "r \<in> set (sc_running s)" "preemptable (sc_heap s r)"
    using Some nth_mem [of _ "rev (sc_running s)"] unfolding find_Some_iff by auto
  then obtain sch where sch: "scheduling (sc_heap s r) = Some sch" "execution_leases (reservation sch) = 0"
    by (auto simp: preemptable_def split: option.splits)
  have live: "r \<in> live s" using r(1) by (simp add: live_def)
  have q: "seq_of s r = ss_seq_id sch" by (simp add: seq_of_def sched_of_def sch(1))
  note none = leases_zero_no_items [OF at live sch]
  let ?by = "(sc_by_seq_id s)(ss_seq_id sch := None)"
  let ?s = "s\<lparr>sc_by_seq_id := ?by, sc_running := remove1 r (sc_running s), sc_skip := r # sc_skip s\<rparr>"
  have "sched_inv_at {} fl {#} ?s"
  proof (rule inv_requeue [OF at])
    show "distinct (sc_waiting s @ (r # sc_skip s) @ remove1 r (sc_running s))"
      using I(2) r(1) by (auto simp: queue_inv_def)
    show "set (r # sc_skip s) \<union> set (remove1 r (sc_running s)) = live s"
      using queue_invD(3) [OF I(2)] r(1) by (auto simp: live_def)
    show "?by q' = Some r' \<longleftrightarrow> r' \<in> set (remove1 r (sc_running s)) \<and> seq_of s r' = q'" for q' r'
      using seq_invD(1) [OF I(3), of q' r'] seq_invD(3) [OF I(3) live, of r'] q queue_invD(3) [OF I(2)]
      by (auto simp: live_def)
    show "?by (work_sequence_id w) \<noteq> None" if "w \<in> set fl" for w
      using flight_invD(2) [OF I(6) that] none that q by (auto simp: items_of_empty_iff)
  qed (simp add: core_def fun_eq_iff)
  then show ?thesis
    by (simp add: preempt_one_for_admission_def Some sch(1) sched_inv_def)
qed

lemma inv_submit:
  assumes inv: "sched_inv_at {} fl X s" and id: "sc_requests s (rs_request_id st) = None" and st: "parked_ok st"
    and s': "core s' = core (s\<lparr>sc_heap := (sc_heap s)(sc_next_ptr s := st), sc_next_ptr := Suc (sc_next_ptr s),
      sc_requests := (sc_requests s)(rs_request_id st \<mapsto> sc_next_ptr s), sc_waiting := sc_waiting s @ [sc_next_ptr s]\<rparr>)"
  shows "sched_inv_at {} fl X s'"
proof -
  note I = sched_inv_atD [OF inv]
  note Q = queue_invD [OF I(2)]
  define r where "r = sc_next_ptr s"
  define s1 where "s1 = s\<lparr>sc_heap := (sc_heap s)(r := st), sc_next_ptr := Suc r,
      sc_requests := (sc_requests s)(rs_request_id st \<mapsto> r), sc_waiting := sc_waiting s @ [r]\<rparr>"
  have P: "sc_heap s1 = (sc_heap s)(r := st)" "sc_next_ptr s1 = Suc r" "sc_requests s1 = (sc_requests s)(rs_request_id st \<mapsto> r)"
      "sc_waiting s1 = sc_waiting s @ [r]" "sc_skip s1 = sc_skip s" "sc_running s1 = sc_running s" "sc_config s1 = sc_config s"
      "sc_block_pool s1 = sc_block_pool s" "sc_block_cache s1 = sc_block_cache s" "sc_by_seq_id s1 = sc_by_seq_id s"
      "sc_next_seq_id s1 = sc_next_seq_id s" "sc_freed_node s1 = sc_freed_node s" "sc_exec_failed s1 = sc_exec_failed s"
    by (simp_all add: s1_def)
  have out: "r \<notin> live s" "r \<notin> set (sc_waiting s)"
    using Q(9) [of r] Q(11) [of r] by (auto simp: r_def)
  have live: "live s1 = live s" by (simp add: live_def P)
  have same: "sc_heap s1 r' = sc_heap s r'" "sched_of s1 r' = sched_of s r'" "seq_of s1 r' = seq_of s r'" "tab_of s1 r' = tab_of s r'"
    if "r' \<in> live s" for r'
    using out(1) that by (auto simp: P sched_of_def seq_of_def tab_of_def)
  have "held s1 = held s"
    unfolding held_def live using same(4) by (intro sum.cong) auto
  then have "kv_inv X s1" "cfg_inv s1"
    using I(1,5) by (simp_all add: kv_inv_def cfg_inv_def P)
  moreover have "queue_inv {} s1"
    using I(2) out st unfolding queue_inv_def live P by (auto simp: live_def r_def less_Suc_eq)
  moreover have "seq_inv s1"
  proof -
    have "inj_on (seq_of s1) (live s)"
      using seq_invD(3) [OF I(3)] same(3) by (auto simp: inj_on_def)
    moreover have "sc_by_seq_id s1 q = Some r' \<longleftrightarrow> r' \<in> set (sc_running s1) \<and> seq_of s1 r' = q" for q r'
      using seq_invD(1) [OF I(3), of q r'] same(3) [of r'] by (auto simp: live_def P)
    ultimately show ?thesis
      using seq_invD(2,4,5) [OF I(3)] same by (simp add: seq_inv_def live P)
  qed
  moreover have "reg_inv {} s1"
  proof -
    have "rs_request_id (sc_heap s r') \<noteq> rs_request_id st" if "r' \<in> set (sc_waiting s) \<union> live s" for r'
      using I(4) id that unfolding reg_inv_def by (metis Un_iff option.distinct(1))
    then show ?thesis
      using I(4) out unfolding reg_inv_def live P by (auto simp: fun_upd_apply)
  qed
  moreover have "flight_inv fl s1"
    using I(6) same by (simp add: flight_inv_def live P)
  ultimately show ?thesis
    using sched_inv_core [of s' s1] s' by (simp add: sched_inv_atI s1_def r_def)
qed

lemma submit_posted_ok:
  assumes inv: "sched_inv fl s"
  shows "sched_inv fl (submit_posted req s)"
proof -
  obtain acc s1 where acc: "accepting_load s = (acc, s1)" by (cases "accepting_load s")
  have c1: "core s1 = core s" using core_accepting_load [of s] acc by simp
  have at1: "sched_inv_at {} fl {#} s1" using inv sched_inv_core [OF c1] by (simp add: sched_inv_def)
  have "sched_inv_at {} fl {#} (submit_on_scheduler_thread req s1)"
  proof (cases "sc_requests s1 (req_request_id req) \<noteq> None \<or>
      int (length (sc_waiting s1)) \<ge> size_cast (max_pending_requests (sc_config s1))")
    case True
    then have "core (submit_on_scheduler_thread req s1) = core s1"
      by (auto simp: submit_on_scheduler_thread_def)
    from sched_inv_core [OF this] at1 show ?thesis by simp
  next
    case False
    define len where "len = (if req_max_context_len req \<le> 0 then default_max_context_len (sc_config s1) else req_max_context_len req)"
    have eq: "submit_on_scheduler_thread req s1 = s1\<lparr>sc_heap := (sc_heap s1)(sc_next_ptr s1 := new_request req len),
        sc_next_ptr := sc_next_ptr s1 + 1, sc_requests := (sc_requests s1)(req_request_id req \<mapsto> sc_next_ptr s1),
        sc_waiting := sc_waiting s1 @ [sc_next_ptr s1]\<rparr>"
      using False by (simp add: submit_on_scheduler_thread_def len_def Let_def)
    show ?thesis unfolding eq
      by (rule inv_submit [OF at1, of "new_request req len"])
        (use False in \<open>simp_all add: new_request_def parked_ok_def generated_token_count_def token_limit_def core_def\<close>)
  qed
  moreover have "sched_inv_at {} fl {#} (snd (send_event (req_sink req) (Inl ServerShuttingDown) s1))"
    using at1 sched_inv_core [OF core_send_event] by simp
  ultimately show ?thesis
    by (simp add: submit_posted_def acc sched_inv_def split: bool.split)
qed

lemma cancel_ok:
  assumes inv: "sched_inv fl s"
  shows "sched_inv fl (cancel_on_scheduler_thread i s)"
proof (cases "\<exists>r. sc_requests s i = Some r \<and> status (sc_heap s r) = Active")
  case False
  then have "cancel_on_scheduler_thread i s = s"
    by (auto simp: cancel_on_scheduler_thread_def split: option.split)
  then show ?thesis using inv by simp
next
  case True
  then obtain r where r: "sc_requests s i = Some r" "status (sc_heap s r) = Active" by blast
  note at = inv [unfolded sched_inv_def]
  note I = sched_inv_atD [OF at]
  have "r \<in> set (sc_waiting s) \<or> r \<in> live s" using I(4) r(1) by (auto simp: reg_inv_def)
  then have "sched_inv_at {} fl {#} (upd_req r (\<lambda>st. st\<lparr>status := Cancelled\<rparr>) s)"
  proof
    assume "r \<in> live s"
    from inv_upd_status [OF at this _ refl] show ?thesis by simp
  next
    assume w: "r \<in> set (sc_waiting s)"
    show ?thesis
    proof (rule inv_upd_parked [OF at])
      show "r \<in> set (sc_waiting s) \<union> {}" using w by simp
      show "parked_ok ((sc_heap s r)\<lparr>status := Cancelled\<rparr>)"
        using queue_invD(8) [OF I(2), of r] w by (simp add: parked_ok_def generated_token_count_def token_limit_def)
    qed (simp_all add: upd_req_def)
  qed
  then show ?thesis using r by (simp add: cancel_on_scheduler_thread_def sched_inv_def)
qed

lemma scheduler_new_ok:
  assumes cfg: "validate cfg = Inr ()" "max_blocks cfg * kv_block_size cfg + kv_block_size cfg - 1 \<le> INT_MAX"
    "max_sequences cfg \<le> INT_MAX" "max_pending_requests cfg \<le> INT_MAX"
  shows "yields (scheduler_new dbg cfg heap Some) (\<lambda>s. sched_inv [] s \<and> sc_config s = cfg)"
proof -
  note V = validate_ok [OF cfg(1)]
  obtain p where p: "pool_create dbg (max_blocks cfg) (kv_block_size cfg) = Some p" "pool_wf p" "used p = Map.empty"
      "pool_geom p = (max_blocks cfg, kv_block_size cfg)"
    using pool_create_ok [of "max_blocks cfg" "kv_block_size cfg" dbg] V by (auto simp: pool_geom_def)
  have "cache_wf p cache_new"
    using p(2,3) by (simp add: cache_wf_def index_wf_def cache_new_def bucket_of_def)
  moreover have "owned (refs p) {#}" using p(2,3) by (simp add: owned_def refs_def)
  ultimately show ?thesis
    using p cfg by (simp add: scheduler_new_def sched_inv_def sched_inv_at_def inv_defs live_def held_def)
qed

end
