(* ===== verification/Engine_Core.thy ===== *)
theory Engine_Core
  imports Scheduler_Cleanup
begin

text \<open>
  The execution loop of \<^verbatim>\<open>src/src/engine/engine_core.cpp\<close> as a transition system over the scheduler.

  \<^verbatim>\<open>run()\<close> is a coroutine on the scheduler thread. It suspends in two places, in \<^verbatim>\<open>wait_for_work\<close> and
  while it waits for the oldest batch, and only there can the handlers posted to the same thread
  run. Between suspensions the loop is cut at its loop heads: \<open>ec_pc\<close> says where it stands. The
  future of an in-flight batch is left out, batches are completed in the order they were sent.
  \<open>Pc_New\<close> is the state before \<^verbatim>\<open>start()\<close>.
\<close>

datatype EnginePc = Pc_New | Pc_Head | Pc_Fill | Pc_Settle | Pc_Wait | Pc_Collect ScheduledBatch
  | Pc_Drain | Pc_Drain_Collect ScheduledBatch | Pc_Done

record EngineCore =
  ec_config :: EngineConfig
  ec_sched :: Scheduler
  ec_in_flight :: "ScheduledBatch list"
  ec_pc :: EnginePc

definition engine_new :: "bool \<Rightarrow> EngineConfig \<Rightarrow> (RequestPtr \<Rightarrow> RequestState) \<Rightarrow> (RequestPtr \<rightharpoonup> RequestPtr) \<Rightarrow>
    EngineCore option" where
  "engine_new dbg cfg heap freed = do {
     s \<leftarrow> scheduler_new dbg cfg heap freed;
     Some \<lparr>ec_config = cfg, ec_sched = s, ec_in_flight = [], ec_pc = Pc_New\<rparr>
   }"

section \<open>Starting and stopping\<close>

text \<open>
  \<^verbatim>\<open>accepting_\<close> is only cleared after \<^verbatim>\<open>shutdown_requested_\<close> is set, so the loop is spawned at most once.
\<close>

definition start :: "EngineCore \<Rightarrow> EngineCore" where
  "start e = (let s = ec_sched e in
     if sc_shutdown_requested s \<or> sc_accepting s then e
     else e\<lparr>ec_sched := s\<lparr>sc_accepting := True\<rparr>, ec_pc := (if ec_pc e = Pc_New then Pc_Head else ec_pc e)\<rparr>)"

definition request_shutdown :: "bool \<Rightarrow> EngineCore \<Rightarrow> EngineCore option" where
  "request_shutdown dbg e = do {
     s \<leftarrow> fail_all_waiting dbg ServerShuttingDown (ec_sched e);
     Some (e\<lparr>ec_sched := s, ec_pc := (if ec_pc e = Pc_Wait then Pc_Head else ec_pc e)\<rparr>)
   }"

text \<open>\<^verbatim>\<open>shutdown_async\<close> runs on the caller's thread: the two atomic exchanges, then the posted handler.\<close>

definition shutdown_exchange :: "Scheduler \<Rightarrow> bool \<times> Scheduler" where
  "shutdown_exchange s = (sc_accepting s, s\<lparr>sc_shutdown_requested := True, sc_accepting := False, sc_stop_in := None\<rparr>)"

definition shutdown_posted :: "bool \<Rightarrow> bool \<Rightarrow> EngineCore \<Rightarrow> EngineCore option" where
  "shutdown_posted dbg was_running e = do {
     e \<leftarrow> request_shutdown dbg e;
     Some (if was_running then e else e\<lparr>ec_sched := complete_shutdown_on_scheduler_thread (ec_sched e)\<rparr>)
   }"

section \<open>The loop\<close>

definition run_head :: "bool \<Rightarrow> EngineCore \<Rightarrow> EngineCore option" where
  "run_head dbg e = (case accepting_load (ec_sched e) of
     (True, s) \<Rightarrow> Some (e\<lparr>ec_sched := s, ec_pc := Pc_Fill\<rparr>)
   | (False, s) \<Rightarrow> do {
       s \<leftarrow> fail_all_waiting dbg ServerShuttingDown s;
       Some (e\<lparr>ec_sched := s, ec_pc := Pc_Drain\<rparr>)
     })"

text \<open>\<open>enq\<close> is the answer of \<^verbatim>\<open>execute_batch\<close>: an error, or the batch is accepted.\<close>

definition run_fill :: "bool \<Rightarrow> ErrorCode option \<Rightarrow> EngineCore \<Rightarrow> EngineCore option" where
  "run_fill dbg enq e =
     (if int (length (ec_in_flight e)) < size_cast (max_concurrent_batches (ec_config e)) then do {
        (batch, s) \<leftarrow> schedule_step dbg (ec_sched e);
        if sb_items batch = [] then Some (e\<lparr>ec_sched := s, ec_pc := Pc_Settle\<rparr>)
        else (case enq of
          Some err \<Rightarrow> do {
            s \<leftarrow> cleanup_terminal_requests dbg (fail_batch batch err s);
            Some (e\<lparr>ec_sched := s\<rparr>)
          }
        | None \<Rightarrow> Some (e\<lparr>ec_sched := s, ec_in_flight := ec_in_flight e @ [batch]\<rparr>))
      } else Some (e\<lparr>ec_pc := Pc_Settle\<rparr>))"

definition run_settle :: "bool \<Rightarrow> EngineCore \<Rightarrow> EngineCore option" where
  "run_settle dbg e = (case ec_in_flight e of
     [] \<Rightarrow> do {
       s \<leftarrow> cleanup_terminal_requests dbg (ec_sched e);
       if \<not> sc_admission_paused s \<and> (sc_waiting s \<noteq> [] \<or> has_schedulable_work s)
       then Some (e\<lparr>ec_sched := preempt_one_for_admission s, ec_pc := Pc_Head\<rparr>)
       else (case wait_returns_at_once s of
         (now, s) \<Rightarrow> Some (e\<lparr>ec_sched := s, ec_pc := (if now then Pc_Head else Pc_Wait)\<rparr>))
     }
   | batch # rest \<Rightarrow> Some (e\<lparr>ec_in_flight := rest, ec_pc := Pc_Collect batch\<rparr>))"

text \<open>
  \<open>response\<close> is the answer of \<^verbatim>\<open>collect_batch\<close>, and \<open>F\<close> the executor's failed sequences as of that
  answer.
\<close>

definition collect_oldest :: "bool \<Rightarrow> ScheduledBatch \<Rightarrow> BatchResult result \<Rightarrow> SequenceId set \<Rightarrow> Scheduler \<Rightarrow> Scheduler option" where
  "collect_oldest dbg batch response F s = do {
     s \<leftarrow> (case response of
       Inr result \<Rightarrow> update_from_output dbg batch result s
     | Inl err \<Rightarrow> Some (fail_batch batch err s));
     Some (s\<lparr>sc_exec_failed := F\<rparr>)
   }"

definition run_collected :: "bool \<Rightarrow> ScheduledBatch \<Rightarrow> BatchResult result \<Rightarrow> SequenceId set \<Rightarrow> EngineCore \<Rightarrow> EngineCore option" where
  "run_collected dbg batch response F e = do {
     s \<leftarrow> collect_oldest dbg batch response F (ec_sched e);
     s \<leftarrow> cleanup_terminal_requests dbg s;
     Some (e\<lparr>ec_sched := s, ec_pc := Pc_Head\<rparr>)
   }"

definition drain_in_flight :: "bool \<Rightarrow> EngineCore \<Rightarrow> EngineCore option" where
  "drain_in_flight dbg e = (case ec_in_flight e of
     [] \<Rightarrow> do {
       s \<leftarrow> cleanup_all_running dbg ServerShuttingDown (ec_sched e);
       Some (e\<lparr>ec_sched := complete_shutdown_on_scheduler_thread s, ec_pc := Pc_Done\<rparr>)
     }
   | batch # rest \<Rightarrow> Some (e\<lparr>ec_in_flight := rest, ec_pc := Pc_Drain_Collect batch\<rparr>))"

definition drain_collected :: "bool \<Rightarrow> ScheduledBatch \<Rightarrow> BatchResult result \<Rightarrow> SequenceId set \<Rightarrow> EngineCore \<Rightarrow> EngineCore option" where
  "drain_collected dbg batch response F e = do {
     s \<leftarrow> collect_oldest dbg batch response F (ec_sched e);
     Some (e\<lparr>ec_sched := s, ec_pc := Pc_Drain\<rparr>)
   }"

definition wake :: "EngineCore \<Rightarrow> EngineCore" where
  "wake e = e\<lparr>ec_pc := (if ec_pc e = Pc_Wait then Pc_Head else ec_pc e)\<rparr>"

section \<open>The transition system\<close>

text \<open>
  The answers of the executor. A result is one result per item, in order, and is stale only for a
  sequence whose execution failed before; an error marks sequences of the batch as failed. The
  failed sequences of the executor are recorded with the answer that reveals them.
\<close>

definition answer :: "BatchResult result \<Rightarrow> SequenceId set \<Rightarrow> ScheduledBatch \<Rightarrow> SequenceId set \<Rightarrow> bool" where
  "answer response failed batch failed' = (case response of
     Inr result \<Rightarrow> batch_res_ok failed batch result \<and> failed' = failed
   | Inl err \<Rightarrow> failed \<subseteq> failed' \<and> failed' \<subseteq> failed \<union> work_sequence_id ` set (sb_items batch))"

definition suspended :: "EngineCore \<Rightarrow> bool" where
  "suspended e = (case ec_pc e of Pc_New \<Rightarrow> True | Pc_Wait \<Rightarrow> True | Pc_Collect _ \<Rightarrow> True | Pc_Drain_Collect _ \<Rightarrow> True
     | Pc_Done \<Rightarrow> True | _ \<Rightarrow> False)"

text \<open>
  \<open>engine_move dbg e m\<close>: in state \<open>e\<close> the program does \<open>m\<close>, which is \<open>None\<close> when it aborts. The first
  group is the loop, the second the handlers posted to the scheduler thread, the third what other
  threads do at any time.
\<close>

inductive engine_move :: "bool \<Rightarrow> EngineCore \<Rightarrow> EngineCore option \<Rightarrow> bool" for dbg where
  head: "ec_pc e = Pc_Head \<Longrightarrow> engine_move dbg e (run_head dbg e)"
| fill: "ec_pc e = Pc_Fill \<Longrightarrow> engine_move dbg e (run_fill dbg enq e)"
| settle: "ec_pc e = Pc_Settle \<Longrightarrow> engine_move dbg e (run_settle dbg e)"
| collected: "ec_pc e = Pc_Collect batch \<Longrightarrow> answer response (sc_exec_failed (ec_sched e)) batch F \<Longrightarrow>
    engine_move dbg e (run_collected dbg batch response F e)"
| drain: "ec_pc e = Pc_Drain \<Longrightarrow> engine_move dbg e (drain_in_flight dbg e)"
| drained: "ec_pc e = Pc_Drain_Collect batch \<Longrightarrow> answer response (sc_exec_failed (ec_sched e)) batch F \<Longrightarrow>
    engine_move dbg e (drain_collected dbg batch response F e)"
| submit: "suspended e \<Longrightarrow> engine_move dbg e (Some (wake (e\<lparr>ec_sched := submit_posted req (ec_sched e)\<rparr>)))"
| cancel: "suspended e \<Longrightarrow> engine_move dbg e (Some (wake (e\<lparr>ec_sched := cancel_on_scheduler_thread i (ec_sched e)\<rparr>)))"
| shutdown: "suspended e \<Longrightarrow> engine_move dbg e (shutdown_posted dbg was_running e)"
| timer: "ec_pc e = Pc_Wait \<Longrightarrow> engine_move dbg e (Some (wake e))"
| start: "engine_move dbg e (Some (start e))"
| exchange: "engine_move dbg e (Some (e\<lparr>ec_sched := snd (shutdown_exchange (ec_sched e))\<rparr>))"
| stop_later: "engine_move dbg e (Some (e\<lparr>ec_sched := (ec_sched e)\<lparr>sc_shutdown_requested := True, sc_stop_in := Some n\<rparr>\<rparr>))"
| expire_later: "engine_move dbg e (Some (e\<lparr>ec_sched := (ec_sched e)\<lparr>sc_expires_in := (sc_expires_in (ec_sched e))(k \<mapsto> n)\<rparr>\<rparr>))"

inductive reachable :: "bool \<Rightarrow> EngineCore \<Rightarrow> EngineCore \<Rightarrow> bool" for dbg e0 where
  init: "reachable dbg e0 e0"
| step: "reachable dbg e0 e \<Longrightarrow> engine_move dbg e (Some e') \<Longrightarrow> reachable dbg e0 e'"

section \<open>The invariant of the engine\<close>

fun pending_batches :: "EnginePc \<Rightarrow> ScheduledBatch list" where
  "pending_batches (Pc_Collect b) = [b]"
| "pending_batches (Pc_Drain_Collect b) = [b]"
| "pending_batches _ = []"

definition flying :: "EngineCore \<Rightarrow> WorkItem list" where
  "flying e = concat (map sb_items (pending_batches (ec_pc e) @ ec_in_flight e))"

definition engine_inv :: "EngineCore \<Rightarrow> bool" where
  "engine_inv e \<longleftrightarrow> sched_inv (flying e) (ec_sched e) \<and> ec_config e = sc_config (ec_sched e) \<and>
     (\<forall>b \<in> set (pending_batches (ec_pc e) @ ec_in_flight e). sum_list (map work_token_count (sb_items b)) \<le> max_token_budget (ec_config e)) \<and>
     int (length (pending_batches (ec_pc e) @ ec_in_flight e)) \<le> max_concurrent_batches (ec_config e)"

lemma engine_invD:
  assumes "engine_inv e"
  shows "sched_inv (flying e) (ec_sched e)" "ec_config e = sc_config (ec_sched e)"
    "b \<in> set (pending_batches (ec_pc e) @ ec_in_flight e) \<Longrightarrow> sum_list (map work_token_count (sb_items b)) \<le> max_token_budget (ec_config e)"
    "int (length (pending_batches (ec_pc e) @ ec_in_flight e)) \<le> max_concurrent_batches (ec_config e)"
  using assms unfolding engine_inv_def by blast+

lemma engine_invI:
  assumes "engine_inv e" "ec_config e' = ec_config e"
    "pending_batches (ec_pc e') @ ec_in_flight e' = pending_batches (ec_pc e) @ ec_in_flight e"
    "sched_inv (flying e) (ec_sched e')" "sc_config (ec_sched e') = sc_config (ec_sched e)"
  shows "engine_inv e'"
proof -
  have fl: "flying e' = flying e" by (simp add: flying_def assms(3))
  show ?thesis
    unfolding engine_inv_def fl assms(2,3,5) using engine_invD [OF assms(1)] assms(4) by blast
qed

lemma engine_inv_core:
  assumes "engine_inv e" "core s = core (ec_sched e)" "pending_batches pc = pending_batches (ec_pc e)"
  shows "engine_inv (e\<lparr>ec_sched := s, ec_pc := pc\<rparr>)" "engine_inv (e\<lparr>ec_sched := s\<rparr>)"
  using assms sched_inv_core [OF assms(2)]
  by (auto simp: sched_inv_def core_def intro!: engine_invI [OF assms(1)] dest: engine_invD(1))

lemma max_concurrent:
  assumes "engine_inv e"
  shows "size_cast (max_concurrent_batches (ec_config e)) \<le> max_concurrent_batches (ec_config e)"
proof -
  have "validate (sc_config (ec_sched e)) = Inr ()"
    using sched_inv_atD(1) [OF engine_invD(1) [OF assms, unfolded sched_inv_def]] by (simp add: cfg_inv_def)
  from validate_ok(8) [OF this] show ?thesis
    using engine_invD(2) [OF assms] by (simp add: size_cast_def zmod_le_nonneg_dividend)
qed

lemma run_head_ok:
  assumes inv: "engine_inv e" and pc: "ec_pc e = Pc_Head"
  shows "yields (run_head dbg e) engine_inv"
proof -
  obtain acc s where acc: "accepting_load (ec_sched e) = (acc, s)" by (cases "accepting_load (ec_sched e)")
  have c: "core s = core (ec_sched e)" using core_accepting_load [of "ec_sched e"] acc by simp
  then have sinv: "sched_inv (flying e) s" "sc_config s = sc_config (ec_sched e)"
    using engine_invD(1) [OF inv] sched_inv_core [OF c] by (simp_all add: sched_inv_def core_def)
  have "yields (fail_all_waiting dbg ServerShuttingDown s \<bind> (\<lambda>s. Some (e\<lparr>ec_sched := s, ec_pc := Pc_Drain\<rparr>))) engine_inv"
    by (rule yields_bind [OF fail_all_waiting_ok [OF sinv(1)]])
      (use pc sinv in \<open>auto intro!: engine_invI [OF inv]\<close>)
  moreover have "engine_inv (e\<lparr>ec_sched := s, ec_pc := Pc_Fill\<rparr>)"
    using engine_inv_core(1) [OF inv c, of Pc_Fill] pc by simp
  ultimately show ?thesis by (simp add: run_head_def acc split: bool.split)
qed

lemma run_fill_ok:
  assumes inv: "engine_inv e" and pc: "ec_pc e = Pc_Fill" and dbg: "\<not> dbg"
  shows "yields (run_fill dbg enq e) engine_inv"
proof (cases "int (length (ec_in_flight e)) < size_cast (max_concurrent_batches (ec_config e))")
  case False
  then have "run_fill dbg enq e = Some (e\<lparr>ec_pc := Pc_Settle\<rparr>)" by (simp add: run_fill_def)
  moreover have "engine_inv (e\<lparr>ec_pc := Pc_Settle\<rparr>)"
    by (rule engine_invI [OF inv]) (use pc engine_invD(1) [OF inv] in auto)
  ultimately show ?thesis by simp
next
  case True
  note D = engine_invD [OF inv]
  have "yields (schedule_step dbg (ec_sched e) \<bind> (\<lambda>(batch, s).
        if sb_items batch = [] then Some (e\<lparr>ec_sched := s, ec_pc := Pc_Settle\<rparr>)
        else (case enq of
          Some err \<Rightarrow> do {
            s \<leftarrow> cleanup_terminal_requests dbg (fail_batch batch err s);
            Some (e\<lparr>ec_sched := s\<rparr>)
          }
        | None \<Rightarrow> Some (e\<lparr>ec_sched := s, ec_in_flight := ec_in_flight e @ [batch]\<rparr>)))) engine_inv"
  proof (rule yields_bind [OF schedule_step_ok [OF D(1) dbg]], clarify)
    fix batch :: ScheduledBatch and s assume s: "sched_inv (flying e @ sb_items batch) s" "sc_config s = sc_config (ec_sched e)"
      "sum_list (map work_token_count (sb_items batch)) \<le> max_token_budget (sc_config (ec_sched e))"
    have empty: "engine_inv (e\<lparr>ec_sched := s, ec_pc := Pc_Settle\<rparr>)" if "sb_items batch = []"
      by (rule engine_invI [OF inv]) (use s that pc in auto)
    have sent: "engine_inv (e\<lparr>ec_sched := s, ec_in_flight := ec_in_flight e @ [batch]\<rparr>)"
      using s pc D(2,3) max_concurrent [OF inv] True by (auto simp: engine_inv_def flying_def)
    have failed: "yields (cleanup_terminal_requests dbg (fail_batch batch err s) \<bind> (\<lambda>s. Some (e\<lparr>ec_sched := s\<rparr>))) engine_inv" for err
    proof -
      have "sched_inv (flying e) ((fail_batch batch err s)\<lparr>sc_exec_failed := sc_exec_failed s\<rparr>)"
          "sc_config (fail_batch batch err s) = sc_config s"
        using fail_batch_ok [of "flying e" batch "[]" s "sc_exec_failed s" err] s(1) by simp_all
      moreover have "(fail_batch batch err s)\<lparr>sc_exec_failed := sc_exec_failed s\<rparr> = fail_batch batch err s"
        using fail_items_ok [of "flying e" "sb_items batch" "[]" s err] s(1) by (simp add: fail_batch_def)
      ultimately have f: "sched_inv (flying e) (fail_batch batch err s)" "sc_config (fail_batch batch err s) = sc_config (ec_sched e)"
        using s(2) by simp_all
      show ?thesis
        by (rule yields_bind [OF cleanup_terminal_requests_ok [OF f(1)]]) (use f(2) in \<open>auto intro!: engine_invI [OF inv]\<close>)
    qed
    show "yields (if sb_items batch = [] then Some (e\<lparr>ec_sched := s, ec_pc := Pc_Settle\<rparr>)
        else (case enq of
          Some err \<Rightarrow> do {
            s \<leftarrow> cleanup_terminal_requests dbg (fail_batch batch err s);
            Some (e\<lparr>ec_sched := s\<rparr>)
          }
        | None \<Rightarrow> Some (e\<lparr>ec_sched := s, ec_in_flight := ec_in_flight e @ [batch]\<rparr>))) engine_inv"
      using empty sent failed by (auto split: option.split)
  qed
  then show ?thesis using True by (simp add: run_fill_def)
qed

lemma run_settle_ok:
  assumes inv: "engine_inv e" and pc: "ec_pc e = Pc_Settle"
  shows "yields (run_settle dbg e) engine_inv"
proof (cases "ec_in_flight e")
  case (Cons batch rest)
  have "engine_inv (e\<lparr>ec_in_flight := rest, ec_pc := Pc_Collect batch\<rparr>)"
    by (rule engine_invI [OF inv]) (use pc Cons engine_invD(1) [OF inv] in auto)
  then show ?thesis by (simp add: run_settle_def Cons)
next
  case Nil
  have "yields (cleanup_terminal_requests dbg (ec_sched e) \<bind> (\<lambda>s.
       if \<not> sc_admission_paused s \<and> (sc_waiting s \<noteq> [] \<or> has_schedulable_work s)
       then Some (e\<lparr>ec_sched := preempt_one_for_admission s, ec_pc := Pc_Head\<rparr>)
       else (case wait_returns_at_once s of
         (now, s) \<Rightarrow> Some (e\<lparr>ec_sched := s, ec_pc := (if now then Pc_Head else Pc_Wait)\<rparr>)))) engine_inv"
  proof (rule yields_bind [OF cleanup_terminal_requests_ok [OF engine_invD(1) [OF inv]]])
    fix s assume s: "sched_inv (flying e) s \<and> sc_config s = sc_config (ec_sched e)"
    have pre: "engine_inv (e\<lparr>ec_sched := preempt_one_for_admission s, ec_pc := Pc_Head\<rparr>)"
      by (rule engine_invI [OF inv]) (use s pc preempt_one_for_admission_ok in auto)
    obtain now s2 where w: "wait_returns_at_once s = (now, s2)" by (cases "wait_returns_at_once s")
    then have "core s2 = core s"
      using core_accepting_load [of s] by (cases "accepting_load s") (auto simp: wait_returns_at_once_def)
    then have "sched_inv (flying e) s2" "sc_config s2 = sc_config (ec_sched e)"
      using s sched_inv_core [of s2 s] by (simp_all add: sched_inv_def core_def)
    then have "engine_inv (e\<lparr>ec_sched := s2, ec_pc := (if now then Pc_Head else Pc_Wait)\<rparr>)"
      by (intro engine_invI [OF inv]) (use pc in auto)
    with pre w show "yields (if \<not> sc_admission_paused s \<and> (sc_waiting s \<noteq> [] \<or> has_schedulable_work s)
       then Some (e\<lparr>ec_sched := preempt_one_for_admission s, ec_pc := Pc_Head\<rparr>)
       else (case wait_returns_at_once s of
         (now, s) \<Rightarrow> Some (e\<lparr>ec_sched := s, ec_pc := (if now then Pc_Head else Pc_Wait)\<rparr>))) engine_inv"
      by simp
  qed
  then show ?thesis by (simp add: run_settle_def Nil)
qed

lemma collect_oldest_ok:
  assumes inv: "sched_inv (sb_items batch @ rest) s" and ans: "answer response (sc_exec_failed s) batch F" and dbg: "\<not> dbg"
  shows "yields (collect_oldest dbg batch response F s) (\<lambda>s'. sched_inv rest s' \<and> sc_config s' = sc_config s)"
proof (cases response)
  case (Inr result)
  then have ok: "batch_res_ok (sc_exec_failed s) batch result" "F = sc_exec_failed s"
    using ans by (simp_all add: answer_def)
  have "yields (update_from_output dbg batch result s \<bind> (\<lambda>s. Some (s\<lparr>sc_exec_failed := F\<rparr>)))
      (\<lambda>s'. sched_inv rest s' \<and> sc_config s' = sc_config s)"
  proof (rule yields_bind [OF update_from_output_ok [OF inv ok(1) dbg]])
    fix s1 assume s1: "retired rest s s1"
    then have "s1\<lparr>sc_exec_failed := F\<rparr> = s1" using ok(2) by (simp add: retired_def)
    then show "yields (Some (s1\<lparr>sc_exec_failed := F\<rparr>)) (\<lambda>s'. sched_inv rest s' \<and> sc_config s' = sc_config s)"
      using s1 by (simp add: retired_def)
  qed
  then show ?thesis by (simp add: collect_oldest_def Inr)
next
  case (Inl err)
  then have "F \<subseteq> sc_exec_failed s \<union> work_sequence_id ` set (sb_items batch)"
    using ans by (simp add: answer_def)
  from fail_batch_ok [of "[]" batch rest s F err, OF _ this] inv show ?thesis
    by (simp add: collect_oldest_def Inl)
qed

lemma engine_inv_collected:
  assumes inv: "engine_inv e" and pc: "pending_batches (ec_pc e) = [batch]" "pending_batches pc = []"
    and s: "sched_inv (concat (map sb_items (ec_in_flight e))) s" "sc_config s = sc_config (ec_sched e)"
  shows "engine_inv (e\<lparr>ec_sched := s, ec_pc := pc\<rparr>)"
proof -
  note D = engine_invD [OF inv]
  have "sum_list (map work_token_count (sb_items b)) \<le> max_token_budget (ec_config e)" if "b \<in> set (ec_in_flight e)" for b
    using D(3) that by simp
  then show ?thesis
    using D(2,4) s pc by (simp add: engine_inv_def flying_def)
qed

lemma run_collected_ok:
  assumes inv: "engine_inv e" and pc: "ec_pc e = Pc_Collect batch"
    and ans: "answer response (sc_exec_failed (ec_sched e)) batch F" and dbg: "\<not> dbg"
  shows "yields (run_collected dbg batch response F e) engine_inv"
  unfolding run_collected_def
proof (rule yields_bind [OF collect_oldest_ok [OF _ ans dbg]])
  show "sched_inv (sb_items batch @ concat (map sb_items (ec_in_flight e))) (ec_sched e)"
    using engine_invD(1) [OF inv] pc by (simp add: flying_def)
  fix s assume s: "sched_inv (concat (map sb_items (ec_in_flight e))) s \<and> sc_config s = sc_config (ec_sched e)"
  then have i: "sched_inv (concat (map sb_items (ec_in_flight e))) s" by simp
  show "yields (cleanup_terminal_requests dbg s \<bind> (\<lambda>s. Some (e\<lparr>ec_sched := s, ec_pc := Pc_Head\<rparr>))) engine_inv"
    by (rule yields_bind [OF cleanup_terminal_requests_ok [OF i]])
      (use s pc in \<open>auto intro!: engine_inv_collected [OF inv]\<close>)
qed

lemma drain_in_flight_ok:
  assumes inv: "engine_inv e" and pc: "ec_pc e = Pc_Drain"
  shows "yields (drain_in_flight dbg e) engine_inv"
proof (cases "ec_in_flight e")
  case (Cons batch rest)
  have "engine_inv (e\<lparr>ec_in_flight := rest, ec_pc := Pc_Drain_Collect batch\<rparr>)"
    by (rule engine_invI [OF inv]) (use pc Cons engine_invD(1) [OF inv] in auto)
  then show ?thesis by (simp add: drain_in_flight_def Cons)
next
  case Nil
  have fl: "flying e = []" using pc Nil by (simp add: flying_def)
  have "yields (cleanup_all_running dbg ServerShuttingDown (ec_sched e) \<bind> (\<lambda>s.
      Some (e\<lparr>ec_sched := complete_shutdown_on_scheduler_thread s, ec_pc := Pc_Done\<rparr>))) engine_inv"
    unfolding cleanup_all_running_def
  proof (rule yields_bind [OF cleanup_all_loop_ok [OF _ refl]])
    show "sched_inv [] (ec_sched e)" using engine_invD(1) [OF inv] fl by simp
    fix s assume s: "sched_inv [] s \<and> sc_running s = [] \<and> sc_config s = sc_config (ec_sched e) \<and>
      sc_waiting s = sc_waiting (ec_sched e) \<and> sc_skip s = sc_skip (ec_sched e)"
    have "core (complete_shutdown_on_scheduler_thread s) = core s"
      by (simp add: complete_shutdown_on_scheduler_thread_def)
    then have "sched_inv [] (complete_shutdown_on_scheduler_thread s)"
        "sc_config (complete_shutdown_on_scheduler_thread s) = sc_config (ec_sched e)"
      using s sched_inv_core [of "complete_shutdown_on_scheduler_thread s" s] by (simp_all add: sched_inv_def core_def)
    then show "yields (Some (e\<lparr>ec_sched := complete_shutdown_on_scheduler_thread s, ec_pc := Pc_Done\<rparr>)) engine_inv"
      unfolding yields_Some by (intro engine_invI [OF inv]) (use pc fl in auto)
  qed
  then show ?thesis by (simp add: drain_in_flight_def Nil)
qed

lemma drain_collected_ok:
  assumes inv: "engine_inv e" and pc: "ec_pc e = Pc_Drain_Collect batch"
    and ans: "answer response (sc_exec_failed (ec_sched e)) batch F" and dbg: "\<not> dbg"
  shows "yields (drain_collected dbg batch response F e) engine_inv"
  unfolding drain_collected_def
proof (rule yields_bind [OF collect_oldest_ok [OF _ ans dbg]])
  show "sched_inv (sb_items batch @ concat (map sb_items (ec_in_flight e))) (ec_sched e)"
    using engine_invD(1) [OF inv] pc by (simp add: flying_def)
qed (use pc in \<open>auto intro!: engine_inv_collected [OF inv]\<close>)

lemma wake_ok: "engine_inv e \<Longrightarrow> engine_inv (wake e)"
  by (auto simp: wake_def intro!: engine_invI [of e] dest: engine_invD(1))

lemma engine_inv_sched:
  assumes "engine_inv e" "sched_inv (flying e) s" "sc_config s = sc_config (ec_sched e)"
  shows "engine_inv (e\<lparr>ec_sched := s\<rparr>)"
  by (rule engine_invI [OF assms(1)]) (use assms in auto)

lemma submit_cancel_config [simp]:
  "sc_config (submit_posted req s) = sc_config s" "sc_config (cancel_on_scheduler_thread i s) = sc_config s"
proof -
  have ev: "sc_config (snd (send_event k ev s)) = sc_config s" for k ev s
    using core_send_event [of k ev s] by (simp add: core_def)
  have "sc_config (snd (accepting_load s)) = sc_config s"
    using core_accepting_load [of s] by (simp add: core_def)
  then show "sc_config (submit_posted req s) = sc_config s"
    by (auto simp: submit_posted_def submit_on_scheduler_thread_def Let_def ev split: prod.splits bool.splits)
  show "sc_config (cancel_on_scheduler_thread i s) = sc_config s"
    by (simp add: cancel_on_scheduler_thread_def upd_req_def split: option.split)
qed

lemma shutdown_posted_ok:
  assumes inv: "engine_inv e"
  shows "yields (shutdown_posted dbg was_running e) engine_inv"
proof -
  have r: "yields (request_shutdown dbg e) engine_inv"
    unfolding request_shutdown_def
    by (rule yields_bind [OF fail_all_waiting_ok [OF engine_invD(1) [OF inv]]])
      (auto intro!: engine_invI [OF inv])
  show ?thesis
    unfolding shutdown_posted_def
  proof (rule yields_bind [OF r])
    fix e' assume e': "engine_inv e'"
    have "core (complete_shutdown_on_scheduler_thread (ec_sched e')) = core (ec_sched e')"
      by (simp add: complete_shutdown_on_scheduler_thread_def)
    from engine_inv_core(2) [OF e' this refl] e'
    show "yields (Some (if was_running then e' else e'\<lparr>ec_sched := complete_shutdown_on_scheduler_thread (ec_sched e')\<rparr>)) engine_inv"
      by simp
  qed
qed

lemma start_ok: "engine_inv e \<Longrightarrow> engine_inv (start e)"
  unfolding start_def Let_def by (auto intro!: engine_inv_core)

section \<open>Every move keeps the invariant, and none aborts\<close>

lemma engine_move_ok:
  assumes "engine_move dbg e m" "engine_inv e" "\<not> dbg"
  shows "yields m engine_inv"
  using assms
proof (induction rule: engine_move.induct)
  case (submit e req)
  then show ?case
    using engine_inv_sched [OF submit.prems(1) submit_posted_ok [OF engine_invD(1) [OF submit.prems(1)]]] wake_ok by simp
next
  case (cancel e i)
  then show ?case
    using engine_inv_sched [OF cancel.prems(1) cancel_ok [OF engine_invD(1) [OF cancel.prems(1)]]] wake_ok by simp
next
  case (exchange e)
  then show ?case
    using engine_inv_core(2) [OF exchange.prems(1), of "snd (shutdown_exchange (ec_sched e))" "ec_pc e"]
    by (simp add: shutdown_exchange_def)
next
  case (stop_later e n)
  then show ?case using engine_inv_core(2) [OF stop_later.prems(1) _ refl] by simp
next
  case (expire_later e k n)
  then show ?case using engine_inv_core(2) [OF expire_later.prems(1) _ refl] by simp
qed (auto intro: run_head_ok run_fill_ok run_settle_ok run_collected_ok drain_in_flight_ok drain_collected_ok
      shutdown_posted_ok wake_ok start_ok)

lemma reachable_inv:
  assumes "reachable dbg e0 e" "engine_inv e0" "\<not> dbg"
  shows "engine_inv e"
  using assms(1)
proof (induction rule: reachable.induct)
  case init
  show ?case by (rule assms(2))
next
  case (step e e')
  then show ?case using engine_move_ok [of dbg e "Some e'"] assms(3) by simp
qed

lemma engine_new_ok:
  assumes cfg: "validate cfg = Inr ()" "max_blocks cfg * kv_block_size cfg + kv_block_size cfg - 1 \<le> INT_MAX"
    "max_sequences cfg \<le> INT_MAX" "max_pending_requests cfg \<le> INT_MAX"
  shows "yields (engine_new dbg cfg heap Some) engine_inv"
  unfolding engine_new_def
  by (rule yields_bind [OF scheduler_new_ok [OF cfg]])
    (use validate_ok(8) [OF cfg(1)] in \<open>auto simp: engine_inv_def flying_def\<close>)

end
