(* ===== verification/Engine_Safety.thy ===== *)
theory Engine_Safety
  imports Engine_Core
begin

text \<open>
  What holds in every state the engine reaches from a validated configuration, in the build without
  assertions, whatever requests, cancellations, shutdowns, channel closings and executor answers
  arrive, and in whatever order they interleave with the loop.
\<close>

text \<open>The configurations the server accepts, with the block rounding of the scheduler in range.\<close>

definition config_ok :: "EngineConfig \<Rightarrow> bool" where
  "config_ok cfg \<longleftrightarrow> validate cfg = Inr () \<and> max_blocks cfg * kv_block_size cfg + kv_block_size cfg - 1 \<le> INT_MAX \<and>
     max_sequences cfg \<le> INT_MAX \<and> max_pending_requests cfg \<le> INT_MAX"

definition runs_to :: "EngineConfig \<Rightarrow> (RequestPtr \<Rightarrow> RequestState) \<Rightarrow> EngineCore \<Rightarrow> bool" where
  "runs_to cfg heap e \<longleftrightarrow> (\<exists>e0. engine_new False cfg heap Some = Some e0 \<and> reachable False e0 e)"

lemma runs_to_inv:
  assumes "config_ok cfg" "runs_to cfg heap e"
  shows "engine_inv e"
proof -
  obtain e0 where e0: "engine_new False cfg heap Some = Some e0" "reachable False e0 e"
    using assms(2) by (auto simp: runs_to_def)
  then have "engine_inv e0"
    using engine_new_ok [of cfg False heap] assms(1) by (simp add: config_ok_def)
  with e0(2) show ?thesis by (rule reachable_inv) simp
qed

lemma engine_move_config:
  assumes "engine_move dbg e m" "m = Some e'"
  shows "ec_config e' = ec_config e"
  using assms
  by (induction rule: engine_move.induct)
    (auto simp: run_head_def run_fill_def run_settle_def run_collected_def drain_in_flight_def drain_collected_def wake_def
      shutdown_posted_def request_shutdown_def start_def Let_def
      split: prod.splits bool.splits if_splits option.splits list.splits bind_splits)

lemma runs_to_config:
  assumes "runs_to cfg heap e"
  shows "ec_config e = cfg"
proof -
  obtain e0 where e0: "engine_new False cfg heap Some = Some e0" "reachable False e0 e"
    using assms by (auto simp: runs_to_def)
  from e0(2) have "ec_config e = ec_config e0"
    by (induction rule: reachable.induct) (auto dest: engine_move_config)
  then show ?thesis using e0(1) by (auto simp: engine_new_def split: bind_splits)
qed

lemma runs_to_config_sched: "config_ok cfg \<Longrightarrow> runs_to cfg heap e \<Longrightarrow> sc_config (ec_sched e) = cfg"
  using engine_invD(2) [OF runs_to_inv] runs_to_config by metis

section \<open>A run\<close>

text \<open>
  A server with four blocks of two tokens and a prompt of three tokens: the loop has admitted the
  request, and its prefill is in flight.
\<close>

definition run_cfg :: EngineConfig where
  "run_cfg = default_engine_config\<lparr>max_blocks := 4, kv_block_size := 2, default_max_context_len := 8\<rparr>"

definition run_req :: SchedulerRequest where
  "run_req = \<lparr>req_request_id = ''r'', req_prompt_tokens = [1, 2, 3], req_sampling = default_sampling\<lparr>max_tokens := 2\<rparr>,
     req_max_context_len = 0, req_sink = 0\<rparr>"

definition run_heap :: "RequestPtr \<Rightarrow> RequestState" where
  "run_heap r = new_request run_req 8"

definition run_e0 :: EngineCore where
  "run_e0 = start (the (engine_new False run_cfg run_heap Some))"

definition run_e1 :: EngineCore where
  "run_e1 = the (run_head False run_e0)"

definition run_e2 :: EngineCore where
  "run_e2 = the (run_fill False None run_e1)"

definition run_e3 :: EngineCore where
  "run_e3 = the (run_settle False run_e2)"

definition run_e4 :: EngineCore where
  "run_e4 = wake (run_e3\<lparr>ec_sched := submit_posted run_req (ec_sched run_e3)\<rparr>)"

definition run_e5 :: EngineCore where
  "run_e5 = the (run_head False run_e4)"

definition run_e6 :: EngineCore where
  "run_e6 = the (run_fill False None run_e5)"

lemma run_pcs:
  "ec_pc run_e0 = Pc_Head" "ec_pc run_e1 = Pc_Fill" "ec_pc run_e2 = Pc_Settle" "ec_pc run_e3 = Pc_Wait"
  "ec_pc run_e4 = Pc_Head" "ec_pc run_e5 = Pc_Fill"
  by code_simp+

lemma run_flight:
  "flying run_e6 = [Prefill_Work \<lparr>pc_seq_id = 1, pc_prompt_span = \<lparr>span_start = 0, span_length = 3\<rparr>, pc_expected_context_len = Some 0,
     pc_needs_sample = True, pc_tokens = [1, 2, 3], pc_block_table = \<lparr>block_ids = [0, 1], shared_count = 0\<rparr>\<rparr>]"
  by code_simp

lemma run_config_ok: "config_ok run_cfg"
  by (simp add: config_ok_def run_cfg_def default_engine_config_def validate_def Let_def INT_MAX_def)

lemma run_move:
  assumes "runs_to run_cfg run_heap e" "engine_move False e m"
  shows "runs_to run_cfg run_heap (the m)"
proof -
  have "yields m engine_inv"
    using engine_move_ok [OF assms(2)] runs_to_inv [OF run_config_ok assms(1)] by simp
  then have "m = Some (the m)" by (auto elim: yieldsE)
  then have "engine_move False e (Some (the m))" using assms(2) by simp
  then show ?thesis using assms(1) reachable.step by (fastforce simp: runs_to_def)
qed

lemma run_reaches: "runs_to run_cfg run_heap run_e4" "runs_to run_cfg run_heap run_e5" "runs_to run_cfg run_heap run_e6"
proof -
  let ?R = "runs_to run_cfg run_heap"
  obtain e where e: "engine_new False run_cfg run_heap Some = Some e"
    using engine_new_ok [of run_cfg False run_heap] run_config_ok by (auto simp: config_ok_def elim: yieldsE)
  then have "?R e" by (auto simp: runs_to_def intro: reachable.init)
  from run_move [OF this engine_move.start] e have "?R run_e0" by (simp add: run_e0_def)
  from run_move [OF this engine_move.head] have "?R run_e1" by (simp add: run_e1_def run_pcs)
  from run_move [OF this engine_move.fill [of _ _ None]] have "?R run_e2" by (simp add: run_e2_def run_pcs)
  from run_move [OF this engine_move.settle] have r3: "?R run_e3" by (simp add: run_e3_def run_pcs)
  from run_move [OF r3 engine_move.submit [of _ _ run_req]] show r4: "?R run_e4"
    by (simp add: run_e4_def run_pcs suspended_def)
  from run_move [OF r4 engine_move.head] show r5: "?R run_e5" by (simp add: run_e5_def run_pcs)
  from run_move [OF r5 engine_move.fill [of _ _ None]] show "?R run_e6" by (simp add: run_e6_def run_pcs)
qed

section \<open>Properties\<close>



text \<open>
  C2. No batch in flight uses freed KV memory. Every item the executor still holds belongs to a
  running request, every block of the item's table carries a reference, and the positions the item
  reads and writes lie inside those blocks.
\<close>

theorem in_flight_blocks_live:
  assumes "config_ok cfg" "runs_to cfg heap e" "w \<in> set (flying e)"
  shows "sc_by_seq_id (ec_sched e) (work_sequence_id w) \<noteq> None \<and>
    (\<forall>i \<in> set (item_table w). 0 < refs (sc_block_pool (ec_sched e)) i) \<and>
    0 \<le> context_before_of w \<and>
    context_before_of w + kv_token_count w \<le> int (length (item_table w)) * kv_block_size cfg"
proof -
  let ?s = "ec_sched e"
  have inv: "sched_inv_at {} (flying e) {#} ?s"
    using engine_invD(1) [OF runs_to_inv [OF assms(1,2)]] by (simp add: sched_inv_def)
  obtain pre post where fl: "flying e = pre @ w # post" using assms(3) by (meson split_list)
  obtain r sch where r: "sc_by_seq_id ?s (work_sequence_id w) = Some r" "r \<in> live ?s"
      "scheduling (sc_heap ?s r) = Some sch"
    and ok: "seq_ok (ctx_capacity ?s) (kv_block_size (sc_config ?s))
      (items_of (ss_seq_id sch) pre @ w # items_of (ss_seq_id sch) post) (sc_heap ?s r) sch"
    by (rule flight_owner [OF inv [unfolded fl]]) blast
  have fits: "item_fits (kv_block_size cfg) (block_ids (ss_block_table sch)) w"
    using seq_okD(2) [OF ok, of w] runs_to_config_sched [OF assms(1,2)] by simp
  have "0 < refs (sc_block_pool ?s) i" if "i \<in> set (item_table w)" for i
  proof -
    have "i \<in> set (tab_of ?s r)"
      using that fits set_mono_prefix by (fastforce simp: item_fits_def tab_of_def sched_of_def r(3))
    then have "i \<in># held ?s" by (simp add: held_remove [OF r(2)])
    then show ?thesis using sched_inv_atD(5) [OF inv] by (auto simp: kv_inv_def intro: owned_pos)
  qed
  then show ?thesis using fits r(1) by (auto simp: item_fits_def)
qed

theorem in_flight_blocks_live_witness:
  "\<exists>w \<in> set (flying run_e6). item_table w = [0, 1] \<and>
     sc_by_seq_id (ec_sched run_e6) (work_sequence_id w) \<noteq> None \<and>
     (\<forall>i \<in> set (item_table w). 0 < refs (sc_block_pool (ec_sched run_e6)) i) \<and>
     0 \<le> context_before_of w \<and>
     context_before_of w + kv_token_count w \<le> int (length (item_table w)) * kv_block_size run_cfg"
proof -
  obtain w where w: "w \<in> set (flying run_e6)" "item_table w = [0, 1]" by (simp add: run_flight)
  with in_flight_blocks_live [OF run_config_ok run_reaches(3) w(1)] show ?thesis by blast
qed

text \<open>
  C3. The reservations of a sequence are exactly its work in flight. For every request that holds
  blocks, the execution leases count its items in flight, the reserved tokens add up theirs, and
  while it is active the items continue each other from the executed frontier, so no position is
  skipped or computed twice, and its KV entries stay inside its block table.
\<close>

theorem reservations_match_flight:
  assumes "config_ok cfg" "runs_to cfg heap e"
    "r \<in> set (sc_running (ec_sched e)) \<union> set (sc_skip (ec_sched e))" "scheduling (sc_heap (ec_sched e) r) = Some sch"
  shows "let ws = filter (\<lambda>w. work_sequence_id w = ss_seq_id sch) (flying e) in
    execution_leases (reservation sch) = int (length ws) \<and>
    reserved_kv_tokens (reservation sch) = (\<Sum>w\<leftarrow>ws. kv_token_count w) \<and>
    reserved_generation_tokens (reservation sch) = int (length (filter samples ws)) \<and>
    (status (sc_heap (ec_sched e) r) = Active \<longrightarrow> ctx_chain (executed_frontier sch) ws) \<and>
    executed_frontier sch + reserved_kv_tokens (reservation sch) \<le> table_size (ss_block_table sch) * kv_block_size cfg"
proof -
  let ?s = "ec_sched e"
  have "seq_ok (ctx_capacity ?s) (kv_block_size (sc_config ?s)) (items_of (ss_seq_id sch) (flying e)) (sc_heap ?s r) sch"
    by (rule inv_live_seq [OF engine_invD(1) [OF runs_to_inv [OF assms(1,2)], unfolded sched_inv_def]])
      (use assms(3,4) in \<open>auto simp: live_def\<close>)
  note D = seq_okD [OF this]
  show ?thesis
    unfolding Let_def using ledgerD [OF D(1)] D(3,5) runs_to_config_sched [OF assms(1,2)]
    by (auto simp: items_of_def)
qed

theorem reservations_match_flight_witness:
  "\<exists>r \<in> set (sc_running (ec_sched run_e6)). \<exists>sch. scheduling (sc_heap (ec_sched run_e6) r) = Some sch \<and>
     execution_leases (reservation sch) = 1 \<and> reserved_kv_tokens (reservation sch) = 3 \<and>
     reserved_generation_tokens (reservation sch) = 1"
proof -
  have q: "sc_running (ec_sched run_e6) = [0]" by code_simp
  have "map_option ss_seq_id (scheduling (sc_heap (ec_sched run_e6) 0)) = Some 1" by code_simp
  then obtain sch where sch: "scheduling (sc_heap (ec_sched run_e6) 0) = Some sch" "ss_seq_id sch = 1" by auto
  have "0 \<in> set (sc_running (ec_sched run_e6)) \<union> set (sc_skip (ec_sched run_e6))" by (simp add: q)
  from reservations_match_flight [OF run_config_ok run_reaches(3) this sch(1)] sch q show ?thesis
    by (simp add: Let_def run_flight)
qed

text \<open>
  C11. Load limits. At any time at most \<open>max_concurrent_batches\<close> batches are in flight, and the
  tokens of each add up to at most \<open>max_token_budget\<close>.
\<close>

theorem engine_load_limits:
  assumes "config_ok cfg" "runs_to cfg heap e"
  shows "int (length (pending_batches (ec_pc e) @ ec_in_flight e)) \<le> max_concurrent_batches cfg \<and>
    (\<forall>b \<in> set (pending_batches (ec_pc e) @ ec_in_flight e). (\<Sum>w\<leftarrow>sb_items b. work_token_count w) \<le> max_token_budget cfg)"
  using engine_invD(3,4) [OF runs_to_inv [OF assms]] runs_to_config [OF assms(2)] by blast

theorem engine_load_limits_witness:
  "pending_batches (ec_pc run_e6) @ ec_in_flight run_e6 \<noteq> [] \<and>
   int (length (pending_batches (ec_pc run_e6) @ ec_in_flight run_e6)) \<le> max_concurrent_batches run_cfg \<and>
   list_all (\<lambda>b. (\<Sum>w\<leftarrow>sb_items b. work_token_count w) \<le> max_token_budget run_cfg)
     (pending_batches (ec_pc run_e6) @ ec_in_flight run_e6)"
proof -
  have "flying run_e6 \<noteq> []" by (simp add: run_flight)
  then have "pending_batches (ec_pc run_e6) @ ec_in_flight run_e6 \<noteq> []" by (auto simp: flying_def)
  with engine_load_limits [OF run_config_ok run_reaches(3)] show ?thesis by (simp add: list_all_iff)
qed

text \<open>
  C12. No request is given more than \<open>max_tokens\<close> tokens. For every request the engine knows, the
  tokens generated so far never exceed its limit, and while it is active neither do they together
  with the samples in flight.
\<close>

theorem generation_limit:
  assumes "config_ok cfg" "runs_to cfg heap e" "sc_requests (ec_sched e) i = Some r"
  shows "generated_token_count (sc_heap (ec_sched e) r) \<le> max 0 (max_tokens (rs_sampling (sc_heap (ec_sched e) r))) \<and>
    (\<forall>sch. scheduling (sc_heap (ec_sched e) r) = Some sch \<longrightarrow> status (sc_heap (ec_sched e) r) = Active \<longrightarrow>
       generated_token_count (sc_heap (ec_sched e) r) + reserved_generation_tokens (reservation sch)
         \<le> max 0 (max_tokens (rs_sampling (sc_heap (ec_sched e) r))))"
proof -
  let ?s = "ec_sched e"
  have inv: "sched_inv_at {} (flying e) {#} ?s"
    using engine_invD(1) [OF runs_to_inv [OF assms(1,2)]] by (simp add: sched_inv_def)
  have "r \<in> set (sc_waiting ?s) \<union> live ?s"
    using sched_inv_atD(4) [OF inv] assms(3) by (auto simp: reg_inv_def)
  then consider "r \<in> set (sc_waiting ?s)" | sch where "r \<in> live ?s" "scheduling (sc_heap ?s r) = Some sch"
    using queue_invD(10) [OF sched_inv_atD(2) [OF inv]] by blast
  then show ?thesis
  proof cases
    case 1
    then show ?thesis using queue_invD(8) [OF sched_inv_atD(2) [OF inv], of r] by (simp add: parked_ok_def token_limit_def)
  next
    case 2
    from seq_okD(14,15) [OF inv_live_seq [OF inv this]] this(2) show ?thesis by (simp add: token_limit_def)
  qed
qed

theorem generation_limit_witness:
  "sc_requests (ec_sched run_e6) ''r'' = Some 0 \<and> max_tokens (rs_sampling (sc_heap (ec_sched run_e6) 0)) = 2 \<and>
   generated_token_count (sc_heap (ec_sched run_e6) 0) \<le> 2"
proof -
  have r: "sc_requests (ec_sched run_e6) ''r'' = Some 0" and m: "max_tokens (rs_sampling (sc_heap (ec_sched run_e6) 0)) = 2"
    by code_simp+
  from generation_limit [OF run_config_ok run_reaches(3) r] r m show ?thesis by simp
qed

end
