(* ===== verification/Effects.thy ===== *)
theory Effects
  imports Prelude
begin

text \<open>
  Computations that change a state and return a \<^verbatim>\<open>Result\<close>. An action maps a state to the result and
  the new state, or to \<^term>\<open>None\<close> when an assertion fails or the behaviour is undefined. An error
  returned early with \<^verbatim>\<open>return std::unexpected(...)\<close> keeps the changes made before it.
\<close>

type_synonym ('s, 'a) act = "'s \<Rightarrow> ('a result \<times> 's) option"

definition ret :: "'a \<Rightarrow> ('s, 'a) act" where
  "ret x s = Some (Inr x, s)"

definition fail :: "ErrorCode \<Rightarrow> ('s, 'a) act" where
  "fail e s = Some (Inl e, s)"

text \<open>\<open>and_then m f\<close>: the pattern \<^verbatim>\<open>auto x = m; if (!x) return unexpected(x.error()); f(*x)\<close>.\<close>

definition and_then :: "('s, 'a) act \<Rightarrow> ('a \<Rightarrow> ('s, 'b) act) \<Rightarrow> ('s, 'b) act" where
  "and_then m f s = (case m s of
     None \<Rightarrow> None
   | Some (Inl e, s') \<Rightarrow> Some (Inl e, s')
   | Some (Inr x, s') \<Rightarrow> f x s')"

text \<open>\<open>or_else m h\<close>: an error is handled by \<open>h\<close>, which may undo something before returning.\<close>

definition or_else :: "('s, 'a) act \<Rightarrow> (ErrorCode \<Rightarrow> ('s, 'a) act) \<Rightarrow> ('s, 'a) act" where
  "or_else m h s = (case m s of
     None \<Rightarrow> None
   | Some (Inl e, s') \<Rightarrow> h e s'
   | Some (Inr x, s') \<Rightarrow> Some (Inr x, s'))"

definition check :: "unit option \<Rightarrow> ('s, unit) act" where
  "check c s = (case c of None \<Rightarrow> None | Some _ \<Rightarrow> Some (Inr (), s))"

definition lift :: "'a result \<Rightarrow> ('s, 'a) act" where
  "lift r s = Some (r, s)"

fun each :: "('x \<Rightarrow> ('s, unit) act) \<Rightarrow> 'x list \<Rightarrow> ('s, unit) act" where
  "each f [] = ret ()"
| "each f (x # xs) = and_then (f x) (\<lambda>_. each f xs)"

definition runs :: "('s, 'a) act \<Rightarrow> 's \<Rightarrow> ('a result \<Rightarrow> 's \<Rightarrow> bool) \<Rightarrow> bool" where
  "runs m s Q \<longleftrightarrow> (\<exists>r s'. m s = Some (r, s') \<and> Q r s')"

lemma runs_ret [simp]: "runs (ret x) s Q = Q (Inr x) s"
  by (simp add: runs_def ret_def)

lemma runs_fail [simp]: "runs (fail e) s Q = Q (Inl e) s"
  by (simp add: runs_def fail_def)

lemma runs_lift [simp]: "runs (lift r) s Q = Q r s"
  by (simp add: runs_def lift_def)

lemma runs_check_assert [simp]: "runs (check (assert_that dbg b)) s Q = ((dbg \<longrightarrow> b) \<and> Q (Inr ()) s)"
  by (auto simp: runs_def check_def assert_that_def)

lemma runs_check_require [simp]: "runs (check (require b)) s Q = (b \<and> Q (Inr ()) s)"
  by (auto simp: runs_def check_def require_def)

lemma runs_check_Some [simp]: "runs (check (Some u)) s Q = Q (Inr ()) s"
  by (simp add: runs_def check_def)

lemma runs_and_then:
  "runs (and_then m f) s Q = runs m s (\<lambda>r s'. case r of Inl e \<Rightarrow> Q (Inl e) s' | Inr x \<Rightarrow> runs (f x) s' Q)"
  by (auto simp: runs_def and_then_def split: option.splits prod.splits sum.splits)

lemma runs_or_else:
  "runs (or_else m h) s Q = runs m s (\<lambda>r s'. case r of Inl e \<Rightarrow> runs (h e) s' Q | Inr x \<Rightarrow> Q (Inr x) s')"
  by (auto simp: runs_def or_else_def split: option.splits prod.splits sum.splits)

lemma runs_and_thenI:
  "runs m s P \<Longrightarrow> (\<And>x t. P (Inr x) t \<Longrightarrow> runs (f x) t Q) \<Longrightarrow> (\<And>e t. P (Inl e) t \<Longrightarrow> Q (Inl e) t) \<Longrightarrow>
   runs (and_then m f) s Q"
  unfolding runs_and_then by (auto simp: runs_def split: sum.splits) metis

lemma runs_or_elseI:
  "runs m s P \<Longrightarrow> (\<And>x t. P (Inr x) t \<Longrightarrow> Q (Inr x) t) \<Longrightarrow> (\<And>e t. P (Inl e) t \<Longrightarrow> runs (h e) t Q) \<Longrightarrow>
   runs (or_else m h) s Q"
  unfolding runs_or_else by (auto simp: runs_def split: sum.splits) metis

lemma runs_fail_after [simp]: "runs (\<lambda>s. fail e (g s)) s Q = Q (Inl e) (g s)"
  by (simp add: runs_def fail_def)

lemma runs_mono: "runs m s P \<Longrightarrow> (\<And>r s'. P r s' \<Longrightarrow> Q r s') \<Longrightarrow> runs m s Q"
  by (auto simp: runs_def)

lemma and_then_check [simp]: "and_then (check (Some ())) f = f ()"
  by (simp add: and_then_def check_def fun_eq_iff)

lemma runs_if: "runs (if b then m else n) s Q = (if b then runs m s Q else runs n s Q)"
  by simp

lemmas act_defs = and_then_def or_else_def ret_def fail_def check_def lift_def

text \<open>What a finished action did, step by step.\<close>

lemma and_then_Some_iff:
  "and_then m f s = Some (r, s') \<longleftrightarrow>
     (\<exists>e. m s = Some (Inl e, s') \<and> r = Inl e) \<or> (\<exists>x t. m s = Some (Inr x, t) \<and> f x t = Some (r, s'))"
  by (auto simp: and_then_def split: option.splits prod.splits sum.splits)

lemma ret_Some_iff [simp]: "ret x s = Some (r, s') \<longleftrightarrow> r = Inr x \<and> s' = s"
  by (auto simp: ret_def)

lemma fail_Some_iff [simp]: "fail e s = Some (r, s') \<longleftrightarrow> r = Inl e \<and> s' = s"
  by (auto simp: fail_def)

lemma lift_Some_iff [simp]: "lift x s = Some (r, s') \<longleftrightarrow> r = x \<and> s' = s"
  by (auto simp: lift_def)

lemma check_Some_iff [simp]: "check c s = Some (r, s') \<longleftrightarrow> c \<noteq> None \<and> r = Inr () \<and> s' = s"
  by (auto simp: check_def split: option.splits)

section \<open>Results without effects\<close>

text \<open>The pattern \<^verbatim>\<open>auto x = m; if (!x) return std::unexpected(x.error());\<close> in a function without effects.\<close>

definition on_value :: "'a result \<Rightarrow> ('a \<Rightarrow> 'b result option) \<Rightarrow> 'b result option" where
  "on_value r f = (case r of Inl e \<Rightarrow> Some (Inl e) | Inr x \<Rightarrow> f x)"

lemma on_value_Inr [simp]: "(on_value r f = Some (Inr y)) = (\<exists>x. r = Inr x \<and> f x = Some (Inr y))"
  by (cases r) (simp_all add: on_value_def)

text \<open>The same pattern when the first computation may abort, too.\<close>

definition and_try :: "'a result option \<Rightarrow> ('a \<Rightarrow> 'b result option) \<Rightarrow> 'b result option" where
  "and_try m f = (case m of None \<Rightarrow> None | Some r \<Rightarrow> on_value r f)"

lemma and_try_simps [simp]: "and_try None f = None" "and_try (Some (Inl e)) f = Some (Inl e)" "and_try (Some (Inr x)) f = f x"
  by (simp_all add: and_try_def on_value_def)

lemma and_try_Inr: "(and_try m f = Some (Inr y)) = (\<exists>x. m = Some (Inr x) \<and> f x = Some (Inr y))"
  by (auto simp: and_try_def split: option.splits)

text \<open>\<^verbatim>\<open>static_cast<int>\<close> of a wider integer.\<close>

definition int_cast :: "int \<Rightarrow> int" where
  "int_cast x = sint (word_of_int x :: 32 word)"

end
