(* ===== verification/Device.thy ===== *)
theory Device
  imports Effects
begin

text \<open>
  The device layer: \<^verbatim>\<open>src/src/backend/cuda/{cuda_utils.h,backend_cuda.cpp}\<close> and \<^verbatim>\<open>src/src/facade/ops.h\<close>.
  CUDA and cuBLAS are not part of the repository. A device is what the program sees of them: the
  log of the calls made, and the answers the calls will get, which are arbitrary: \<open>dv_cuda n\<close> is the
  status of call \<open>n\<close> (\<open>dv_cublas\<close> and \<open>dv_ccop\<close> for cuBLAS and the operator library), \<open>dv_addr n\<close> the address a successful \<^verbatim>\<open>cudaMalloc\<close> returns there, \<open>dv_host n\<close> the
  data a device-to-host copy delivers.
\<close>

datatype cudaError = cudaSuccess | cudaErrorMemoryAllocation | cudaErrorInvalidValue | cudaErrorInvalidDevice
  | cudaErrorInvalidDevicePointer | cudaErrorInvalidConfiguration | cudaErrorLaunchFailure
  | cudaErrorLaunchOutOfResources | cudaErrorIllegalAddress | cudaErrorOther nat

datatype cublasStatus = CUBLAS_STATUS_SUCCESS | CUBLAS_STATUS_ALLOC_FAILED | CUBLAS_STATUS_INVALID_VALUE
  | CUBLAS_STATUS_EXECUTION_FAILED | CUBLAS_STATUS_OTHER nat

text \<open>The error codes of the operator library, by the names the facade uses.\<close>

datatype ccop_error = kOk | kInvalidArgument | kUnsupported | kOutOfMemory | kRuntimeError

text \<open>An operator of the library is logged with its name, the addresses of its tensors and its numbers.\<close>

datatype DeviceCmd =
    Set_Device int | Malloc nat nat | Free nat | Stream_Create | Stream_Destroy | Cublas_Create | Cublas_Set_Stream
  | Cublas_Destroy | Copy_H2D nat "int list" nat | Copy_D2H nat nat | Copy_D2D nat nat nat | Memset nat int nat | Sync
  | Kernel string "nat list" "int list"

record Device =
  dv_log :: "DeviceCmd list"
  dv_calls :: nat
  dv_cuda :: "nat \<Rightarrow> cudaError"
  dv_cublas :: "nat \<Rightarrow> cublasStatus"
  dv_ccop :: "nat \<Rightarrow> ccop_error + unit"
  dv_addr :: "nat \<Rightarrow> nat"
  dv_host :: "nat \<Rightarrow> int list"

section \<open>Error mapping\<close>

fun map_cuda_error :: "cudaError \<Rightarrow> ErrorCode" where
  "map_cuda_error cudaSuccess = Ok"
| "map_cuda_error cudaErrorMemoryAllocation = CudaOutOfMemory"
| "map_cuda_error cudaErrorInvalidValue = CudaInvalidValue"
| "map_cuda_error cudaErrorInvalidDevice = CudaInvalidValue"
| "map_cuda_error cudaErrorInvalidDevicePointer = CudaInvalidValue"
| "map_cuda_error cudaErrorInvalidConfiguration = CudaInvalidValue"
| "map_cuda_error cudaErrorLaunchFailure = CudaLaunchFailed"
| "map_cuda_error cudaErrorLaunchOutOfResources = CudaLaunchFailed"
| "map_cuda_error cudaErrorIllegalAddress = CudaLaunchFailed"
| "map_cuda_error (cudaErrorOther _) = CudaRuntimeError"

definition cuda_check :: "cudaError \<Rightarrow> unit result" where
  "cuda_check err = (if err \<noteq> cudaSuccess then Inl (map_cuda_error err) else Inr ())"

fun map_cublas_error :: "cublasStatus \<Rightarrow> ErrorCode" where
  "map_cublas_error CUBLAS_STATUS_ALLOC_FAILED = CudaOutOfMemory"
| "map_cublas_error CUBLAS_STATUS_INVALID_VALUE = CudaInvalidValue"
| "map_cublas_error CUBLAS_STATUS_EXECUTION_FAILED = CudaLaunchFailed"
| "map_cublas_error _ = CublasError"

definition cublas_check :: "cublasStatus \<Rightarrow> unit result" where
  "cublas_check status = (if status \<noteq> CUBLAS_STATUS_SUCCESS then Inl (map_cublas_error status) else Inr ())"

fun map_error :: "ccop_error \<Rightarrow> ErrorCode" where
  "map_error kOk = Ok"
| "map_error kInvalidArgument = InvalidArgument"
| "map_error kUnsupported = Unsupported"
| "map_error kOutOfMemory = CudaOutOfMemory"
| "map_error kRuntimeError = CudaRuntimeError"

definition map_result :: "ccop_error + unit \<Rightarrow> unit result" where
  "map_result r = (case r of Inl e \<Rightarrow> Inl (map_error e) | Inr _ \<Rightarrow> Inr ())"

section \<open>The backend\<close>

text \<open>One library call: log the command and take the next answer.\<close>

definition cuda_call :: "DeviceCmd \<Rightarrow> (Device, unit) act" where
  "cuda_call c d = Some (cuda_check (dv_cuda d (dv_calls d)), d\<lparr>dv_log := dv_log d @ [c], dv_calls := dv_calls d + 1\<rparr>)"

definition cublas_call :: "DeviceCmd \<Rightarrow> (Device, unit) act" where
  "cublas_call c d = Some (cublas_check (dv_cublas d (dv_calls d)), d\<lparr>dv_log := dv_log d @ [c], dv_calls := dv_calls d + 1\<rparr>)"

definition ccop_call :: "string \<Rightarrow> nat list \<Rightarrow> int list \<Rightarrow> (Device, unit) act" where
  "ccop_call name ptrs args d = Some (map_result (dv_ccop d (dv_calls d)),
     d\<lparr>dv_log := dv_log d @ [Kernel name ptrs args], dv_calls := dv_calls d + 1\<rparr>)"

definition log_cmds :: "DeviceCmd list \<Rightarrow> Device \<Rightarrow> Device" where
  "log_cmds cs d = d\<lparr>dv_log := dv_log d @ cs\<rparr>"

record Buffer =
  buf_data :: nat
  buf_bytes :: nat

definition CudaBuffer_create :: "nat \<Rightarrow> (Device, Buffer) act" where
  "CudaBuffer_create bytes d =
     and_then (cuda_call (Malloc bytes (dv_addr d (dv_calls d)))) (\<lambda>_. ret \<lparr>buf_data = dv_addr d (dv_calls d), buf_bytes = bytes\<rparr>) d"

text \<open>
  \<^verbatim>\<open>Backend::create\<close>. The \<^verbatim>\<open>Impl\<close> built so far is destroyed on every early return: the stream first,
  then the handle, each only if it was created.
\<close>

definition backend_create :: "int \<Rightarrow> (Device, int) act" where
  "backend_create device_id =
     and_then (cuda_call (Set_Device device_id)) (\<lambda>_.
     and_then (cublas_call Cublas_Create) (\<lambda>_.
     and_then (or_else (cuda_call Stream_Create) (\<lambda>e d. fail e (log_cmds [Cublas_Destroy] d))) (\<lambda>_.
     and_then (or_else (cublas_call Cublas_Set_Stream) (\<lambda>e d. fail e (log_cmds [Stream_Destroy, Cublas_Destroy] d))) (\<lambda>_.
     ret device_id))))"

definition backend_destroy :: "Device \<Rightarrow> Device" where
  "backend_destroy = log_cmds [Stream_Destroy, Cublas_Destroy]"

definition allocate_buffer :: "bool \<Rightarrow> nat \<Rightarrow> (Device, Buffer) act" where
  "allocate_buffer dbg bytes = and_then (check (assert_that dbg (bytes > 0))) (\<lambda>_. CudaBuffer_create bytes)"

definition buffer_free :: "Buffer \<Rightarrow> Device \<Rightarrow> Device" where
  "buffer_free b = log_cmds (if buf_data b = 0 then [] else [Free (buf_data b)])"

definition memcpy_h2d :: "bool \<Rightarrow> nat \<Rightarrow> int list \<Rightarrow> nat \<Rightarrow> (Device, unit) act" where
  "memcpy_h2d dbg dst src count =
     and_then (check (assert_that dbg (dst \<noteq> 0 \<and> count > 0))) (\<lambda>_. cuda_call (Copy_H2D dst src count))"

definition memcpy_d2h :: "bool \<Rightarrow> nat \<Rightarrow> nat \<Rightarrow> (Device, int list) act" where
  "memcpy_d2h dbg src count d =
     and_then (check (assert_that dbg (src \<noteq> 0 \<and> count > 0))) (\<lambda>_.
     and_then (cuda_call (Copy_D2H src count)) (\<lambda>_.
     and_then (cuda_call Sync) (\<lambda>_. ret (dv_host d (dv_calls d))))) d"

definition memcpy_d2d :: "bool \<Rightarrow> nat \<Rightarrow> nat \<Rightarrow> nat \<Rightarrow> (Device, unit) act" where
  "memcpy_d2d dbg dst src count =
     and_then (check (assert_that dbg (dst \<noteq> 0 \<and> src \<noteq> 0 \<and> count > 0))) (\<lambda>_. cuda_call (Copy_D2D dst src count))"

definition backend_memset :: "bool \<Rightarrow> nat \<Rightarrow> int \<Rightarrow> nat \<Rightarrow> (Device, unit) act" where
  "backend_memset dbg dst v count =
     and_then (check (assert_that dbg (dst \<noteq> 0 \<and> count > 0))) (\<lambda>_. cuda_call (Memset dst v count))"

definition synchronize :: "(Device, unit) act" where
  "synchronize = cuda_call Sync"

section \<open>Reading the log\<close>

text \<open>\<open>issued d d'\<close>: the commands logged between two states of the device.\<close>

definition issued :: "Device \<Rightarrow> Device \<Rightarrow> DeviceCmd list" where
  "issued d d' = drop (length (dv_log d)) (dv_log d')"

definition extends :: "Device \<Rightarrow> Device \<Rightarrow> DeviceCmd list \<Rightarrow> bool" where
  "extends d d' cs \<longleftrightarrow> dv_log d' = dv_log d @ cs \<and> dv_cuda d' = dv_cuda d \<and> dv_cublas d' = dv_cublas d \<and> dv_ccop d' = dv_ccop d \<and>
     dv_addr d' = dv_addr d \<and> dv_host d' = dv_host d"

lemma extends_refl [simp]: "extends d d []"
  by (simp add: extends_def)

lemma extends_trans: "extends d d' cs \<Longrightarrow> extends d' d'' cs' \<Longrightarrow> extends d d'' (cs @ cs')"
  by (simp add: extends_def)

lemma extends_issued: "extends d d' cs \<Longrightarrow> issued d d' = cs"
  by (simp add: extends_def issued_def)

text \<open>The device with every call succeeding.\<close>

definition healthy :: "Device \<Rightarrow> bool" where
  "healthy d \<longleftrightarrow> (\<forall>n. dv_cuda d n = cudaSuccess) \<and> (\<forall>n. dv_cublas d n = CUBLAS_STATUS_SUCCESS) \<and> (\<forall>n. dv_ccop d n = Inr ())"

lemma healthy_extends: "extends d d' cs \<Longrightarrow> healthy d' = healthy d"
  by (simp add: extends_def healthy_def)

text \<open>A call that fails reports an error code other than \<^term>\<open>Ok\<close>.\<close>

lemma cuda_check_error: "cuda_check e = Inl c \<Longrightarrow> c \<noteq> Ok"
  by (cases e) (auto simp: cuda_check_def)

lemma cublas_check_error: "cublas_check e = Inl c \<Longrightarrow> c \<noteq> Ok"
  by (cases e) (auto simp: cublas_check_def)

lemma map_result_error: "r \<noteq> Inl kOk \<Longrightarrow> map_result r = Inl c \<Longrightarrow> c \<noteq> Ok"
proof (cases r)
  case (Inl e)
  then show "r \<noteq> Inl kOk \<Longrightarrow> map_result r = Inl c \<Longrightarrow> c \<noteq> Ok" by (cases e) (auto simp: map_result_def)
qed (simp add: map_result_def)

text \<open>\<open>does d c r d'\<close>: one command was issued, and the status reported is honest.\<close>

definition does :: "Device \<Rightarrow> DeviceCmd list \<Rightarrow> unit result \<Rightarrow> Device \<Rightarrow> bool" where
  "does d cs r d' \<longleftrightarrow> extends d d' cs \<and> r \<noteq> Inl Ok \<and> (healthy d \<longrightarrow> r = Inr ())"

lemma runs_cuda_call: "runs (cuda_call c) d (does d [c])"
  using cuda_check_error [of "dv_cuda d (dv_calls d)"]
  by (cases "cuda_check (dv_cuda d (dv_calls d))")
    (auto simp: runs_def cuda_call_def does_def extends_def healthy_def cuda_check_def)

lemma runs_ccop_call:
  "runs (ccop_call name ptrs args) d (\<lambda>r d'. extends d d' [Kernel name ptrs args] \<and> (healthy d \<longrightarrow> r = Inr ()))"
  by (simp add: runs_def ccop_call_def extends_def healthy_def map_result_def)

lemma runs_memset:
  "(dbg \<Longrightarrow> dst \<noteq> 0 \<and> count > 0) \<Longrightarrow> runs (backend_memset dbg dst v count) d (does d [Memset dst v count])"
  using runs_cuda_call by (auto simp: backend_memset_def runs_and_then)

lemma runs_memcpy_d2d:
  "(dbg \<Longrightarrow> dst \<noteq> 0 \<and> src \<noteq> 0 \<and> count > 0) \<Longrightarrow>
   runs (memcpy_d2d dbg dst src count) d (does d [Copy_D2D dst src count])"
  using runs_cuda_call by (auto simp: memcpy_d2d_def runs_and_then)

lemma runs_memcpy_h2d:
  "(dbg \<Longrightarrow> dst \<noteq> 0 \<and> count > 0) \<Longrightarrow> runs (memcpy_h2d dbg dst src count) d (does d [Copy_H2D dst src count])"
  using runs_cuda_call by (auto simp: memcpy_h2d_def runs_and_then)

text \<open>Addresses returned by \<^verbatim>\<open>cudaMalloc\<close> are not null.\<close>

definition nonnull :: "Device \<Rightarrow> bool" where
  "nonnull d \<longleftrightarrow> (\<forall>n. dv_addr d n \<noteq> 0)"

lemma nonnull_extends: "extends d d' cs \<Longrightarrow> nonnull d' = nonnull d"
  by (simp add: nonnull_def extends_def)

end
