(* ===== verification/Tensors.thy ===== *)
theory Tensors
  imports Device
begin

text \<open>
  \<^verbatim>\<open>src/src/runtime/tensor.{h,cpp}\<close>, \<^verbatim>\<open>src/src/runtime/precision.h\<close> and the size arithmetic of
  \<^verbatim>\<open>src/src/block/block_storage.cpp\<close>. A \<^verbatim>\<open>ccop::Tensor\<close> belongs to the operator library: a tensor here
  is the data pointer, type and shape given to its constructor, and the library's functions on it
  (element size, byte size, maximal rank, quantised storage size) are the parameter \<open>co\<close>. Sizes of
  type \<^verbatim>\<open>std::size_t\<close> are natural numbers with the wrap-around written out.
\<close>

datatype DType = DT_Unknown | DT_Float32 | DT_BFloat16 | DT_Float16 | DT_Int32 | DT_Other nat

record Ccop =
  co_dtype_size :: "DType \<Rightarrow> nat"
  co_nbytes :: "DType \<Rightarrow> int list \<Rightarrow> nat"
  co_max_rank :: nat
  co_q8_0_storage_bytes :: "int list \<Rightarrow> int option"

record Tensor =
  t_buffer :: Buffer
  t_data :: nat
  t_dtype :: DType
  t_shape :: "int list"

definition SIZE_MAX :: nat where
  "SIZE_MAX = 2 ^ 64 - 1"

definition size_mul :: "nat \<Rightarrow> nat \<Rightarrow> nat" where
  "size_mul a b = (a * b) mod 2 ^ 64"

text \<open>The documented size of a dense tensor: its number of elements times the element size.\<close>

definition ccop_ok :: "Ccop \<Rightarrow> bool" where
  "ccop_ok co \<longleftrightarrow> (\<forall>dt shape. (\<forall>d \<in> set shape. 0 < d) \<longrightarrow> co_nbytes co dt shape = nat (prod_list shape) * co_dtype_size co dt)"

section \<open>Sizes\<close>

definition data_in_buffer :: "Buffer \<Rightarrow> nat \<Rightarrow> nat \<Rightarrow> bool" where
  "data_in_buffer b p bytes \<longleftrightarrow> p \<ge> buf_data b \<and> bytes \<le> buf_bytes b \<and> p - buf_data b \<le> buf_bytes b - bytes"

fun numel_loop :: "int list \<Rightarrow> nat \<Rightarrow> nat result" where
  "numel_loop [] numel = Inr numel"
| "numel_loop (dim # shape) numel =
     (if dim \<le> 0 \<or> nat dim > SIZE_MAX div numel then Inl InvalidArgument
      else numel_loop shape (size_mul numel (nat dim)))"

definition checked_numel :: "Ccop \<Rightarrow> int list \<Rightarrow> nat result" where
  "checked_numel co shape =
     (if shape = [] \<or> length shape > co_max_rank co then Inl InvalidArgument else numel_loop shape 1)"

definition checked_nbytes_dense :: "Ccop \<Rightarrow> DType \<Rightarrow> int list \<Rightarrow> nat result" where
  "checked_nbytes_dense co dtype shape = (let elem_size = co_dtype_size co dtype in
     if elem_size = 0 then Inl Unsupported
     else case checked_numel co shape of
       Inl e \<Rightarrow> Inl e
     | Inr numel \<Rightarrow> if numel > SIZE_MAX div elem_size then Inl InvalidArgument else Inr (size_mul numel elem_size))"

text \<open>\<open>q8_0\<close> says whether the quantised type is the supported one.\<close>

definition checked_nbytes_quantized :: "Ccop \<Rightarrow> bool \<Rightarrow> int list \<Rightarrow> nat result" where
  "checked_nbytes_quantized co q8_0 shape =
     (if shape = [] \<or> length shape > co_max_rank co then Inl InvalidArgument
      else if \<not> q8_0 then Inl Unsupported
      else case co_q8_0_storage_bytes co shape of
        None \<Rightarrow> Inl InvalidArgument
      | Some bytes \<Rightarrow> if bytes < 0 then Inl InvalidArgument else Inr (nat bytes))"

section \<open>Construction\<close>

definition from_buffer :: "bool \<Rightarrow> Ccop \<Rightarrow> Buffer \<Rightarrow> nat \<Rightarrow> DType \<Rightarrow> int list \<Rightarrow> Tensor option" where
  "from_buffer dbg co buffer data dtype shape = do {
     assert_that dbg (length shape \<le> co_max_rank co);
     require (length shape \<le> co_max_rank co);
     assert_that dbg (data_in_buffer buffer data (co_nbytes co dtype shape));
     Some \<lparr>t_buffer = buffer, t_data = data, t_dtype = dtype, t_shape = shape\<rparr>
   }"

definition from_buffer_list :: "bool \<Rightarrow> Ccop \<Rightarrow> Buffer \<Rightarrow> nat \<Rightarrow> DType \<Rightarrow> int list \<Rightarrow> Tensor option" where
  "from_buffer_list dbg co buffer data dtype shape = do {
     assert_that dbg (data_in_buffer buffer data (co_nbytes co dtype shape));
     Some \<lparr>t_buffer = buffer, t_data = data, t_dtype = dtype, t_shape = shape\<rparr>
   }"

text \<open>The strides \<^verbatim>\<open>from_buffer\<close> hands to the library, innermost last.\<close>

fun strides_loop :: "int list \<Rightarrow> int \<Rightarrow> int list \<Rightarrow> int list" where
  "strides_loop [] st acc = acc"
| "strides_loop (d # rev_shape) st acc = strides_loop rev_shape (st * d) (st # acc)"

definition strides :: "int list \<Rightarrow> int list" where
  "strides shape = strides_loop (rev shape) 1 []"

definition lift_opt :: "'a option \<Rightarrow> ('s, 'a) act" where
  "lift_opt m s = (case m of None \<Rightarrow> None | Some x \<Rightarrow> Some (Inr x, s))"

definition tensor_empty :: "bool \<Rightarrow> Ccop \<Rightarrow> DType \<Rightarrow> int list \<Rightarrow> (Device, Tensor) act" where
  "tensor_empty dbg co dtype shape =
     and_then (lift (checked_nbytes_dense co dtype shape)) (\<lambda>bytes.
     and_then (allocate_buffer dbg bytes) (\<lambda>buffer.
     lift_opt (from_buffer dbg co buffer (buf_data buffer) dtype shape)))"

definition from_host :: "bool \<Rightarrow> Ccop \<Rightarrow> int list option \<Rightarrow> DType \<Rightarrow> int list \<Rightarrow> (Device, Tensor) act" where
  "from_host dbg co src dtype shape = (case src of
     None \<Rightarrow> fail InvalidArgument
   | Some host \<Rightarrow>
     and_then (tensor_empty dbg co dtype shape) (\<lambda>tensor.
     and_then (memcpy_h2d dbg (t_data tensor) host (co_nbytes co dtype shape)) (\<lambda>_.
     ret tensor)))"

text \<open>\<open>view\<close> of a dense contiguous tensor.\<close>

definition tensor_view :: "bool \<Rightarrow> Ccop \<Rightarrow> Tensor \<Rightarrow> int list \<Rightarrow> Tensor option" where
  "tensor_view dbg co t shape = do {
     assert_that dbg (prod_list shape = prod_list (t_shape t));
     assert_that dbg (co_nbytes co (t_dtype t) shape \<le> buf_bytes (t_buffer t));
     Some (t\<lparr>t_shape := shape\<rparr>)
   }"

definition tensor_flat :: "bool \<Rightarrow> Ccop \<Rightarrow> Tensor \<Rightarrow> Tensor option" where
  "tensor_flat dbg co t = tensor_view dbg co t [prod_list (t_shape t)]"

section \<open>The size arithmetic is exact\<close>

lemma le_SIZE_MAX_div: "0 < a \<Longrightarrow> b \<le> SIZE_MAX div a \<longleftrightarrow> a * b \<le> SIZE_MAX"
  by (simp add: less_eq_div_iff_mult_less_eq mult.commute)

lemma SIZE_MAX_pos [simp]: "0 < SIZE_MAX" "1 \<le> SIZE_MAX" "Suc 0 \<le> SIZE_MAX"
  by (simp_all add: SIZE_MAX_def)

lemma size_mul_exact: "a * b \<le> SIZE_MAX \<Longrightarrow> size_mul a b = a * b"
  by (simp add: size_mul_def SIZE_MAX_def)

lemma prod_list_pos: "\<forall>d \<in> set shape. 0 < d \<Longrightarrow> 0 < prod_list (shape :: int list)"
  by (induction shape) simp_all

lemma numel_loop_spec:
  assumes "0 < n"
  shows "numel_loop shape n =
    (if (\<forall>d \<in> set shape. 0 < d) \<and> n * nat (prod_list shape) \<le> SIZE_MAX then Inr (n * nat (prod_list shape))
     else if shape = [] then Inr n else Inl InvalidArgument)"
  using assms
proof (induction shape arbitrary: n)
  case (Cons d shape)
  show ?case
  proof (cases "0 < d \<and> n * nat d \<le> SIZE_MAX")
    case True
    have sz: "size_mul n (nat d) = n * nat d" using True by (intro size_mul_exact) blast
    have "\<not> nat d > SIZE_MAX div n" using True le_SIZE_MAX_div [OF Cons.prems] by (meson not_less)
    then have "numel_loop (d # shape) n = numel_loop shape (n * nat d)" using True sz by simp
    moreover have "0 < n * nat d" using True Cons.prems by simp
    moreover have "n * nat (prod_list (d # shape)) = n * nat d * nat (prod_list shape)"
      using True by (simp add: nat_mult_distrib)
    ultimately show ?thesis using Cons.IH [of "n * nat d"] True by simp
  next
    case False
    have "n * nat d \<le> n * nat (prod_list (d # shape))" if "\<forall>x \<in> set (d # shape). 0 < x"
    proof -
      have "d * 1 \<le> d * prod_list shape" using prod_list_pos [of shape] that by (intro mult_left_mono) auto
      then have "nat d \<le> nat (prod_list (d # shape))" by simp
      then show ?thesis by (rule mult_le_mono2)
    qed
    then have c: "\<not> ((\<forall>x \<in> set (d # shape). 0 < x) \<and> n * nat (prod_list (d # shape)) \<le> SIZE_MAX)"
      using False by (meson le_trans list.set_intros(1))
    have "d \<le> 0 \<or> nat d > SIZE_MAX div n"
      using False le_SIZE_MAX_div [OF Cons.prems] by (meson not_less)
    then have "numel_loop (d # shape) n = Inl InvalidArgument" by (simp only: numel_loop.simps if_True)
    then show ?thesis using c by (simp only: if_False list.distinct)
  qed
qed simp

lemma checked_nbytes_dense_spec:
  "checked_nbytes_dense co dtype shape =
     (if co_dtype_size co dtype = 0 then Inl Unsupported
      else if shape \<noteq> [] \<and> length shape \<le> co_max_rank co \<and> (\<forall>d \<in> set shape. 0 < d) \<and>
        nat (prod_list shape) * co_dtype_size co dtype \<le> SIZE_MAX
      then Inr (nat (prod_list shape) * co_dtype_size co dtype) else Inl InvalidArgument)"
proof -
  let ?n = "nat (prod_list shape)" and ?e = "co_dtype_size co dtype"
  have le: "?n \<le> SIZE_MAX" if "?n * ?e \<le> SIZE_MAX" "?e \<noteq> 0"
  proof -
    have "?n * 1 \<le> ?n * ?e" using that(2) by (intro mult_le_mono2) simp
    then show ?thesis using that(1) by linarith
  qed
  have "checked_numel co shape = (if shape \<noteq> [] \<and> length shape \<le> co_max_rank co \<and> (\<forall>d \<in> set shape. 0 < d) \<and> ?n \<le> SIZE_MAX
      then Inr ?n else Inl InvalidArgument)"
    using numel_loop_spec [of 1 shape] by (simp add: checked_numel_def)
  moreover have "\<not> ?n > SIZE_MAX div ?e \<longleftrightarrow> ?n * ?e \<le> SIZE_MAX" if "?e \<noteq> 0"
    using le_SIZE_MAX_div [of ?e ?n] that by (simp add: not_less mult.commute)
  moreover have "size_mul ?n ?e = ?n * ?e" if "?n * ?e \<le> SIZE_MAX"
    using that by (rule size_mul_exact)
  ultimately show ?thesis
    using le by (auto simp: checked_nbytes_dense_def Let_def)
qed

lemma strides_loop_spec:
  "strides_loop (rev shape) st acc = map (\<lambda>i. prod_list (drop (Suc i) shape) * st) [0..<length shape] @ acc"
proof (induction shape arbitrary: st acc rule: rev_induct)
  case (snoc d shape)
  have "map (\<lambda>i. prod_list (drop (Suc i) (shape @ [d])) * st) [0..<length (shape @ [d])] =
      map (\<lambda>i. prod_list (drop (Suc i) shape) * (st * d)) [0..<length shape] @ [st]"
    by (simp add: mult_ac)
  then show ?case using snoc [of "st * d" "st # acc"] by simp
qed simp

lemma runs_lift_opt: "runs (lift_opt m) s Q = yields m (\<lambda>x. Q (Inr x) s)"
  by (auto simp: runs_def lift_opt_def yields_def split: option.splits)

lemma runs_CudaBuffer_create:
  "runs (CudaBuffer_create n) d (\<lambda>r d'. \<exists>a \<in> range (dv_addr d). extends d d' [Malloc n a] \<and> (case r of Inl e \<Rightarrow> e \<noteq> Ok
     | Inr b \<Rightarrow> b = \<lparr>buf_data = a, buf_bytes = n\<rparr>) \<and> (healthy d \<longrightarrow> (\<exists>b. r = Inr b)))"
  using cuda_check_error [of "dv_cuda d (dv_calls d)"]
  by (auto simp: runs_def CudaBuffer_create_def and_then_def cuda_call_def extends_def healthy_def cuda_check_def ret_def
      split: sum.splits)

lemma runs_allocate_buffer:
  assumes "0 < n"
  shows "runs (allocate_buffer dbg n) d (\<lambda>r d'. \<exists>a \<in> range (dv_addr d). extends d d' [Malloc n a] \<and> (case r of Inl e \<Rightarrow> e \<noteq> Ok
     | Inr b \<Rightarrow> b = \<lparr>buf_data = a, buf_bytes = n\<rparr>) \<and> (healthy d \<longrightarrow> (\<exists>b. r = Inr b)))"
  using assms runs_CudaBuffer_create [of n d] by (simp add: allocate_buffer_def runs_and_then)

lemma tensor_empty_spec:
  assumes co: "ccop_ok co" and elem: "0 < co_dtype_size co dt"
  shows "runs (tensor_empty dbg co dt shape) d (\<lambda>r d'.
    let n = nat (prod_list shape) * co_dtype_size co dt in
    if shape \<noteq> [] \<and> length shape \<le> co_max_rank co \<and> (\<forall>k \<in> set shape. 0 < k) \<and> n \<le> SIZE_MAX
    then (\<exists>a \<in> range (dv_addr d). extends d d' [Malloc n a] \<and> (case r of Inl e \<Rightarrow> e \<noteq> Ok
      | Inr t \<Rightarrow> t = \<lparr>t_buffer = \<lparr>buf_data = a, buf_bytes = n\<rparr>, t_data = a, t_dtype = dt, t_shape = shape\<rparr> \<and>
          data_in_buffer (t_buffer t) (t_data t) (co_nbytes co dt shape)))
    else r = Inl InvalidArgument \<and> d' = d)"
proof -
  let ?n = "nat (prod_list shape) * co_dtype_size co dt"
  let ?ok = "shape \<noteq> [] \<and> length shape \<le> co_max_rank co \<and> (\<forall>k \<in> set shape. 0 < k) \<and> ?n \<le> SIZE_MAX"
  show ?thesis
  proof (cases ?ok)
    case False
    then have "checked_nbytes_dense co dt shape = Inl InvalidArgument"
      using elem by (simp add: checked_nbytes_dense_spec)
    then show ?thesis unfolding Let_def if_not_P [OF False] by (simp add: tensor_empty_def runs_and_then)
  next
    case True
    then have n: "checked_nbytes_dense co dt shape = Inr ?n"
      using elem by (simp add: checked_nbytes_dense_spec)
    have "0 < ?n" using prod_list_pos [of shape] True elem by simp
    note A = runs_allocate_buffer [OF this, of dbg d]
    have nb: "co_nbytes co dt shape = ?n" using co True by (simp add: ccop_ok_def)
    show ?thesis
      unfolding tensor_empty_def runs_and_then n runs_lift sum.case Let_def if_P [OF True]
      by (rule runs_mono [OF A])
        (use True nb in \<open>auto simp: runs_lift_opt from_buffer_def data_in_buffer_def split: sum.splits\<close>)
  qed
qed

text \<open>
  C20. Allocating a tensor never aborts in either build and never allocates a wrong size. The size
  computation cannot wrap: either the shape is refused before any device call, or the buffer has
  exactly one element size per element, the tensor starts at the buffer and lies inside it.
\<close>

theorem tensor_empty_exact:
  assumes co: "ccop_ok co" and elem: "0 < co_dtype_size co dt"
  shows "runs (tensor_empty dbg co dt shape) d (\<lambda>r d'.
    let n = nat (prod_list shape) * co_dtype_size co dt in
    if shape \<noteq> [] \<and> length shape \<le> co_max_rank co \<and> (\<forall>k \<in> set shape. 0 < k) \<and> n \<le> SIZE_MAX
    then (\<exists>a. issued d d' = [Malloc n a] \<and> (case r of Inl e \<Rightarrow> e \<noteq> Ok
      | Inr t \<Rightarrow> t = \<lparr>t_buffer = \<lparr>buf_data = a, buf_bytes = n\<rparr>, t_data = a, t_dtype = dt, t_shape = shape\<rparr> \<and>
          data_in_buffer (t_buffer t) (t_data t) (co_nbytes co dt shape)))
    else r = Inl InvalidArgument \<and> d' = d)"
  by (rule runs_mono [OF tensor_empty_spec [OF assms]])
    (auto simp: Let_def dest: extends_issued split: if_splits)

text \<open>An operator library with the usual element sizes, and a device on which every call succeeds.\<close>

fun model_dtype_size :: "DType \<Rightarrow> nat" where
  "model_dtype_size DT_Float32 = 4"
| "model_dtype_size DT_Int32 = 4"
| "model_dtype_size DT_BFloat16 = 2"
| "model_dtype_size DT_Float16 = 2"
| "model_dtype_size _ = 0"

definition model_ccop :: Ccop where
  "model_ccop = \<lparr>co_dtype_size = model_dtype_size, co_nbytes = (\<lambda>dt shape. nat (prod_list shape) * model_dtype_size dt),
     co_max_rank = 8, co_q8_0_storage_bytes = (\<lambda>shape. None)\<rparr>"

definition model_device :: Device where
  "model_device = \<lparr>dv_log = [], dv_calls = 0, dv_cuda = (\<lambda>_. cudaSuccess), dv_cublas = (\<lambda>_. CUBLAS_STATUS_SUCCESS), dv_ccop = (\<lambda>_. Inr ()),
     dv_addr = (\<lambda>n. 4096 * (n + 1)), dv_host = (\<lambda>_. [])\<rparr>"

lemma model_ccop_ok: "ccop_ok model_ccop" "0 < co_dtype_size model_ccop DT_Float32"
  by (simp_all add: ccop_ok_def model_ccop_def)

theorem tensor_empty_exact_witness:
  "runs (tensor_empty True model_ccop DT_Float32 [2, 3]) model_device (\<lambda>r d'.
     \<exists>a. issued model_device d' = [Malloc 24 a] \<and> (case r of Inl e \<Rightarrow> e \<noteq> Ok
      | Inr t \<Rightarrow> t = \<lparr>t_buffer = \<lparr>buf_data = a, buf_bytes = 24\<rparr>, t_data = a, t_dtype = DT_Float32, t_shape = [2, 3]\<rparr> \<and>
          data_in_buffer (t_buffer t) (t_data t) (co_nbytes model_ccop DT_Float32 [2, 3])))"
  using tensor_empty_exact [OF model_ccop_ok, of True "[2, 3]" model_device]
  by (simp add: model_ccop_def SIZE_MAX_def)

section \<open>Execution traits\<close>

record ExecutionTraits =
  activation_dtype :: DType
  kv_dtype :: DType
  accum_dtype :: DType
  logits_dtype :: DType
  recurrent_state_dtype :: DType
  conv_state_dtype :: DType

definition default_traits :: ExecutionTraits where
  "default_traits = \<lparr>activation_dtype = DT_Unknown, kv_dtype = DT_Unknown, accum_dtype = DT_Unknown,
     logits_dtype = DT_Unknown, recurrent_state_dtype = DT_Unknown, conv_state_dtype = DT_Unknown\<rparr>"

definition Qwen3ExecutionTraits :: ExecutionTraits where
  "Qwen3ExecutionTraits = default_traits\<lparr>activation_dtype := DT_BFloat16, kv_dtype := DT_BFloat16, accum_dtype := DT_Float32,
     logits_dtype := DT_Float32, recurrent_state_dtype := DT_Float32, conv_state_dtype := DT_BFloat16\<rparr>"

definition Qwen3_5ExecutionTraits :: ExecutionTraits where
  "Qwen3_5ExecutionTraits = default_traits\<lparr>activation_dtype := DT_BFloat16, kv_dtype := DT_BFloat16, accum_dtype := DT_Float32,
     logits_dtype := DT_Float32, recurrent_state_dtype := DT_Float32, conv_state_dtype := DT_BFloat16\<rparr>"

definition execution_traits_valid :: "ExecutionTraits \<Rightarrow> bool" where
  "execution_traits_valid tr \<longleftrightarrow> activation_dtype tr \<noteq> DT_Unknown \<and> kv_dtype tr \<noteq> DT_Unknown \<and> accum_dtype tr \<noteq> DT_Unknown \<and>
     logits_dtype tr \<noteq> DT_Unknown \<and> recurrent_state_dtype tr \<noteq> DT_Unknown \<and> conv_state_dtype tr \<noteq> DT_Unknown"

lemma traits_valid:
  "execution_traits_valid Qwen3ExecutionTraits" "execution_traits_valid Qwen3_5ExecutionTraits"
  "\<not> execution_traits_valid default_traits"
  by (simp_all add: execution_traits_valid_def Qwen3ExecutionTraits_def Qwen3_5ExecutionTraits_def default_traits_def)

end
