(* ===== verification/Block_Storage.thy ===== *)
theory Block_Storage
  imports Tensors
begin

text \<open>
  \<^verbatim>\<open>src/src/block/block_storage.{h,cpp}\<close>: the device memory of the KV cache. Both buffers hold, per
  layer, one slot for each token position of each block.
\<close>

record BlockStorage =
  bs_k_data :: "Buffer option"
  bs_v_data :: "Buffer option"
  bs_layer_stride :: int
  bs_elem_size :: nat
  bs_dtype :: DType
  bs_max_slots :: int
  bs_max_blocks :: int
  bs_block_size :: int
  bs_num_kv_heads :: int
  bs_head_dim :: int
  bs_num_layers :: int

definition storage_default :: BlockStorage where
  "storage_default = \<lparr>bs_k_data = None, bs_v_data = None, bs_layer_stride = 0, bs_elem_size = 0, bs_dtype = DT_Unknown,
     bs_max_slots = 0, bs_max_blocks = 0, bs_block_size = 0, bs_num_kv_heads = 0, bs_head_dim = 0, bs_num_layers = 0\<rparr>"

definition checked_mul :: "nat \<Rightarrow> nat \<Rightarrow> nat option" where
  "checked_mul a b = (if a \<noteq> 0 \<and> b > SIZE_MAX div a then None else Some (size_mul a b))"

definition layer_data :: "bool \<Rightarrow> Buffer option \<Rightarrow> int \<Rightarrow> int \<Rightarrow> int \<Rightarrow> nat \<Rightarrow> nat option" where
  "layer_data dbg buffer layer num_layers layer_stride elem_size = do {
     assert_that dbg (buffer \<noteq> None);
     assert_that dbg (0 \<le> layer \<and> layer < num_layers);
     require (buffer \<noteq> None);
     Some (buf_data (the buffer) + size_mul (size_mul (nat (size_cast layer)) (nat (size_cast layer_stride))) elem_size)
   }"

definition layer_tensor :: "bool \<Rightarrow> Ccop \<Rightarrow> Buffer option \<Rightarrow> int list \<Rightarrow> BlockStorage \<Rightarrow> int \<Rightarrow> Tensor option" where
  "layer_tensor dbg co buffer shape st layer = do {
     p \<leftarrow> layer_data dbg buffer layer (bs_num_layers st) (bs_layer_stride st) (bs_elem_size st);
     from_buffer_list dbg co (the buffer) p (bs_dtype st) shape
   }"

definition k_layer_tensor :: "bool \<Rightarrow> Ccop \<Rightarrow> BlockStorage \<Rightarrow> int \<Rightarrow> Tensor option" where
  "k_layer_tensor dbg co st = layer_tensor dbg co (bs_k_data st) [bs_max_slots st, bs_num_kv_heads st, bs_head_dim st] st"

definition v_layer_tensor :: "bool \<Rightarrow> Ccop \<Rightarrow> BlockStorage \<Rightarrow> int \<Rightarrow> Tensor option" where
  "v_layer_tensor dbg co st = layer_tensor dbg co (bs_v_data st) [bs_max_slots st, bs_num_kv_heads st, bs_head_dim st] st"

definition k_block_tensor :: "bool \<Rightarrow> Ccop \<Rightarrow> BlockStorage \<Rightarrow> int \<Rightarrow> Tensor option" where
  "k_block_tensor dbg co st =
     layer_tensor dbg co (bs_k_data st) [bs_max_blocks st, bs_block_size st, bs_num_kv_heads st, bs_head_dim st] st"

definition v_block_tensor :: "bool \<Rightarrow> Ccop \<Rightarrow> BlockStorage \<Rightarrow> int \<Rightarrow> Tensor option" where
  "v_block_tensor dbg co st =
     layer_tensor dbg co (bs_v_data st) [bs_max_blocks st, bs_block_size st, bs_num_kv_heads st, bs_head_dim st] st"

text \<open>The sizes \<^verbatim>\<open>init\<close> computes: slots, elements of a layer, and bytes of one buffer.\<close>

definition storage_sizes :: "int \<Rightarrow> int \<Rightarrow> int \<Rightarrow> int \<Rightarrow> int \<Rightarrow> nat \<Rightarrow> (nat \<times> nat \<times> nat) option" where
  "storage_sizes num_kv_layers max_blocks block_size num_kv_heads head_dim elem_size = do {
     max_slots \<leftarrow> checked_mul (nat max_blocks) (nat block_size);
     token_stride \<leftarrow> checked_mul (nat num_kv_heads) (nat head_dim);
     elements_per_layer \<leftarrow> checked_mul max_slots token_stride;
     total_elements \<leftarrow> checked_mul (nat num_kv_layers) elements_per_layer;
     total_bytes \<leftarrow> checked_mul total_elements elem_size;
     Some (max_slots, elements_per_layer, total_bytes)
   }"

text \<open>A buffer allocated and cleared; it is freed again when clearing fails.\<close>

definition zeroed_buffer :: "bool \<Rightarrow> nat \<Rightarrow> (Device, Buffer) act" where
  "zeroed_buffer dbg bytes =
     and_then (allocate_buffer dbg bytes) (\<lambda>b.
     and_then (or_else (backend_memset dbg (buf_data b) 0 bytes) (\<lambda>e d. fail e (buffer_free b d))) (\<lambda>_. ret b))"

definition storage_init :: "bool \<Rightarrow> Ccop \<Rightarrow> int \<Rightarrow> int \<Rightarrow> int \<Rightarrow> int \<Rightarrow> int \<Rightarrow> DType \<Rightarrow> BlockStorage \<Rightarrow> (Device, BlockStorage) act" where
  "storage_init dbg co num_kv_layers max_blocks block_size num_kv_heads head_dim dtype st =
     (if num_kv_layers \<le> 0 \<or> max_blocks \<le> 0 \<or> block_size \<le> 0 \<or> num_kv_heads \<le> 0 \<or> head_dim \<le> 0 \<or> dtype = DT_Unknown
      then fail InvalidArgument
      else and_then (check (assert_that dbg (bs_k_data st = None \<and> bs_v_data st = None))) (\<lambda>_.
        let elem_size = co_dtype_size co dtype in
        case storage_sizes num_kv_layers max_blocks block_size num_kv_heads head_dim elem_size of
          None \<Rightarrow> fail InvalidArgument
        | Some (max_slots, elements_per_layer, total_bytes) \<Rightarrow>
            if int max_slots > INT_MAX then fail InvalidArgument
            else if elements_per_layer > 2 ^ 63 - 1 then fail InvalidArgument
            else and_then (zeroed_buffer dbg total_bytes) (\<lambda>k_buf.
              and_then (or_else (zeroed_buffer dbg total_bytes) (\<lambda>e d. fail e (buffer_free k_buf d))) (\<lambda>v_buf.
              ret \<lparr>bs_k_data = Some k_buf, bs_v_data = Some v_buf, bs_layer_stride = int elements_per_layer,
                bs_elem_size = elem_size, bs_dtype = dtype, bs_max_slots = int max_slots, bs_max_blocks = max_blocks,
                bs_block_size = block_size, bs_num_kv_heads = num_kv_heads, bs_head_dim = head_dim,
                bs_num_layers = num_kv_layers\<rparr>))))"

definition storage_create :: "bool \<Rightarrow> Ccop \<Rightarrow> int \<Rightarrow> int \<Rightarrow> int \<Rightarrow> int \<Rightarrow> int \<Rightarrow> DType \<Rightarrow> (Device, BlockStorage) act" where
  "storage_create dbg co num_kv_layers max_blocks block_size num_kv_heads head_dim dtype =
     storage_init dbg co num_kv_layers max_blocks block_size num_kv_heads head_dim dtype storage_default"

section \<open>The layers tile the buffers\<close>

lemma checked_mul_spec: "checked_mul a b = (if a * b \<le> SIZE_MAX then Some (a * b) else None)"
  using le_SIZE_MAX_div [of a b] size_mul_exact [of a b] size_mul_exact [of 0 b]
  by (cases "a = 0") (auto simp: checked_mul_def not_less)

lemma storage_sizes_spec:
  "storage_sizes L mb bs h dim elem = Some (slots, epl, bytes) \<Longrightarrow> 
     slots = nat mb * nat bs \<and> epl = slots * (nat h * nat dim) \<and> bytes = nat L * epl * elem \<and> bytes \<le> SIZE_MAX \<and>
     nat L * epl \<le> SIZE_MAX"
  by (auto simp: storage_sizes_def checked_mul_spec split: bind_splits if_splits)

definition zeroed :: "nat \<Rightarrow> Device \<Rightarrow> Buffer result \<Rightarrow> Device \<Rightarrow> bool" where
  "zeroed n d r d' \<longleftrightarrow> nonnull d' \<and> r \<noteq> Inl Ok \<and>
     (\<forall>b. r = Inr b \<longrightarrow> buf_bytes b = n \<and> buf_data b \<noteq> 0 \<and> extends d d' [Malloc n (buf_data b), Memset (buf_data b) 0 n])"

lemma runs_zeroed_buffer:
  assumes "0 < n" "nonnull d"
  shows "runs (zeroed_buffer dbg n) d (zeroed n d)"
  unfolding zeroed_buffer_def
proof (rule runs_and_thenI [OF runs_allocate_buffer [OF assms(1)]])
  fix b d1
  assume "\<exists>a \<in> range (dv_addr d). extends d d1 [Malloc n a] \<and> (case Inr b of Inl e \<Rightarrow> e \<noteq> Ok
    | Inr b \<Rightarrow> b = \<lparr>buf_data = a, buf_bytes = n\<rparr>) \<and> (healthy d \<longrightarrow> (\<exists>x. Inr b = Inr x))"
  then have b: "extends d d1 [Malloc n (buf_data b)]" "buf_bytes b = n" "buf_data b \<noteq> 0"
    using assms(2) by (auto simp: nonnull_def)
  have nn: "nonnull d2" if "does d1 cs r d2" for cs r d2
    using nonnull_extends [OF b(1)] that assms(2) nonnull_extends by (auto simp: does_def)
  show "runs (and_then (or_else (backend_memset dbg (buf_data b) 0 n) (\<lambda>e d. fail e (buffer_free b d))) (\<lambda>_. ret b)) d1 (zeroed n d)"
  proof (rule runs_and_thenI)
    show "runs (or_else (backend_memset dbg (buf_data b) 0 n) (\<lambda>e d. fail e (buffer_free b d))) d1
      (\<lambda>r d2. nonnull d2 \<and> r \<noteq> Inl Ok \<and> (r = Inr () \<longrightarrow> extends d1 d2 [Memset (buf_data b) 0 n]))"
      by (rule runs_or_elseI [OF runs_memset])
        (use b assms(1) nn in \<open>auto simp: does_def buffer_free_def log_cmds_def nonnull_def\<close>)
  qed (use b in \<open>auto simp: zeroed_def dest: extends_trans\<close>)
qed (use assms(2) in \<open>auto simp: zeroed_def dest: nonnull_extends\<close>)

section \<open>Creating the storage\<close>

definition storage_of :: "Ccop \<Rightarrow> int \<Rightarrow> int \<Rightarrow> int \<Rightarrow> int \<Rightarrow> int \<Rightarrow> DType \<Rightarrow> Buffer \<Rightarrow> Buffer \<Rightarrow> BlockStorage" where
  "storage_of co L mb bs h dim dt k v = \<lparr>bs_k_data = Some k, bs_v_data = Some v, bs_layer_stride = mb * bs * (h * dim),
     bs_elem_size = co_dtype_size co dt, bs_dtype = dt, bs_max_slots = mb * bs, bs_max_blocks = mb, bs_block_size = bs,
     bs_num_kv_heads = h, bs_head_dim = dim, bs_num_layers = L\<rparr>"

definition storage_fits :: "Ccop \<Rightarrow> int \<Rightarrow> int \<Rightarrow> int \<Rightarrow> int \<Rightarrow> int \<Rightarrow> DType \<Rightarrow> Buffer \<Rightarrow> bool" where
  "storage_fits co L mb bs h dim dt b \<longleftrightarrow> 0 < L \<and> 0 < mb \<and> 0 < bs \<and> 0 < h \<and> 0 < dim \<and>
     buf_bytes b = nat L * nat (mb * bs * (h * dim)) * co_dtype_size co dt \<and> buf_bytes b \<le> SIZE_MAX"

lemma storage_create_ok:
  assumes elem: "0 < co_dtype_size co dt" and nn: "nonnull d"
  shows "runs (storage_create dbg co L mb bs h dim dt) d (\<lambda>r d'. r \<noteq> Inl Ok \<and> (\<forall>st. r = Inr st \<longrightarrow>
    (\<exists>k v. st = storage_of co L mb bs h dim dt k v \<and> storage_fits co L mb bs h dim dt k \<and> storage_fits co L mb bs h dim dt v)))"
proof (cases "L \<le> 0 \<or> mb \<le> 0 \<or> bs \<le> 0 \<or> h \<le> 0 \<or> dim \<le> 0 \<or> dt = DT_Unknown \<or>
    storage_sizes L mb bs h dim (co_dtype_size co dt) = None")
  case True
  then show ?thesis
    by (auto simp: storage_create_def storage_init_def storage_default_def runs_and_then)
next
  case False
  then obtain slots epl bytes where sz: "storage_sizes L mb bs h dim (co_dtype_size co dt) = Some (slots, epl, bytes)"
    by auto
  note S = storage_sizes_spec [OF sz]
  have eqs: "int slots = mb * bs" "int epl = mb * bs * (h * dim)" using S False by simp_all
  then have bytes: "bytes = nat L * nat (mb * bs * (h * dim)) * co_dtype_size co dt" "bytes \<le> SIZE_MAX"
    using S by (metis nat_int)+
  have pos: "0 < bytes" unfolding bytes(1) using False elem by simp
  have fits: "storage_fits co L mb bs h dim dt b" if "buf_bytes b = bytes" for b
    using that bytes False unfolding storage_fits_def by auto
  let ?Q = "\<lambda>r d'. r \<noteq> Inl Ok \<and> (\<forall>st. r = Inr st \<longrightarrow>
    (\<exists>k v. st = storage_of co L mb bs h dim dt k v \<and> storage_fits co L mb bs h dim dt k \<and> storage_fits co L mb bs h dim dt v))"
  have "runs (and_then (zeroed_buffer dbg bytes) (\<lambda>k. and_then (or_else (zeroed_buffer dbg bytes) (\<lambda>e d. fail e (buffer_free k d)))
      (\<lambda>v. ret (storage_of co L mb bs h dim dt k v)))) d ?Q"
  proof (rule runs_and_thenI [OF runs_zeroed_buffer [OF pos nn]])
    fix k d1 assume k: "zeroed bytes d (Inr k) d1"
    show "runs (and_then (or_else (zeroed_buffer dbg bytes) (\<lambda>e d. fail e (buffer_free k d)))
      (\<lambda>v. ret (storage_of co L mb bs h dim dt k v))) d1 ?Q"
    proof (rule runs_and_thenI)
      show "runs (or_else (zeroed_buffer dbg bytes) (\<lambda>e d. fail e (buffer_free k d))) d1
          (\<lambda>r d2. r \<noteq> Inl Ok \<and> (\<forall>v. r = Inr v \<longrightarrow> buf_bytes v = bytes))"
        by (rule runs_or_elseI [OF runs_zeroed_buffer [OF pos]]) (use k in \<open>auto simp: zeroed_def\<close>)
    qed (use k fits in \<open>auto simp: zeroed_def\<close>)
  qed (auto simp: zeroed_def)
  then show ?thesis
    using False sz eqs
    by (auto simp: storage_create_def storage_init_def storage_default_def runs_and_then [of "check _"] storage_of_def Let_def)
qed

lemma size_cast_exact: "0 \<le> x \<Longrightarrow> nat x \<le> SIZE_MAX \<Longrightarrow> nat (size_cast x) = nat x"
  by (simp add: size_cast_def SIZE_MAX_def)

lemma layer_tensor_ok:
  assumes co: "ccop_ok co" and elem: "0 < co_dtype_size co dt" and fits: "storage_fits co L mb bs h dim dt b"
    and layer: "0 \<le> layer" "layer < L" and shape: "\<forall>d \<in> set shape. 0 < d" "prod_list shape = mb * bs * (h * dim)"
  defines "n \<equiv> nat (mb * bs * (h * dim)) * co_dtype_size co dt"
  shows "layer_tensor dbg co (Some b) shape (storage_of co L mb bs h dim dt k v) layer =
      Some \<lparr>t_buffer = b, t_data = buf_data b + nat layer * n, t_dtype = dt, t_shape = shape\<rparr>"
    "co_nbytes co dt shape = n" "nat layer * n + n \<le> buf_bytes b"
proof -
  let ?m = "nat (mb * bs * (h * dim))" and ?e = "co_dtype_size co dt"
  have F: "buf_bytes b = nat L * n" "buf_bytes b \<le> SIZE_MAX" "0 < ?m"
    using fits by (simp_all add: storage_fits_def n_def)
  show nb: "co_nbytes co dt shape = n" using co shape by (simp add: ccop_ok_def n_def)
  have "Suc (nat layer) * n \<le> nat L * n" using layer by (intro mult_le_mono1) simp
  then show fit: "nat layer * n + n \<le> buf_bytes b" by (simp add: F(1))
  have le: "nat layer * ?m \<le> nat layer * n" "?m \<le> n" using elem unfolding n_def by simp_all
  have "nat layer * 1 \<le> nat layer * ?m" by (rule mult_le_mono2) (use F(3) in linarith)
  then have sm: "nat layer \<le> SIZE_MAX" "?m \<le> SIZE_MAX" "nat layer * ?m \<le> SIZE_MAX" "nat layer * n \<le> SIZE_MAX"
    using le fit F(2) by linarith+
  have "size_mul (size_mul (nat (size_cast layer)) (nat (size_cast (mb * bs * (h * dim))))) ?e = nat layer * n"
    using sm layer(1) size_cast_exact [of layer] size_cast_exact [of "mb * bs * (h * dim)"] fits
    by (simp add: size_mul_exact n_def mult.assoc storage_fits_def)
  then show "layer_tensor dbg co (Some b) shape (storage_of co L mb bs h dim dt k v) layer =
      Some \<lparr>t_buffer = b, t_data = buf_data b + nat layer * n, t_dtype = dt, t_shape = shape\<rparr>"
    using layer nb fit by (simp add: layer_tensor_def layer_data_def storage_of_def from_buffer_list_def data_in_buffer_def)
qed



end
