(* ===== verification/Float_Bits.thy ===== *)
theory Float_Bits
  imports Effects
begin

unbundle bit_operations_syntax

text \<open>
  Floating-point values as bit patterns: the comparisons the configuration code makes on \<^verbatim>\<open>float\<close>, and
  the conversions of \<^verbatim>\<open>src/src/quant/q8_0/q8_0_reference.cpp\<close> and
  \<^verbatim>\<open>src/src/model/qwen35/qwen35_weights.cpp\<close> between \<^verbatim>\<open>float\<close> (binary32), half (binary16) and bfloat16.
\<close>

type_synonym f32 = "32 word"
type_synonym u16 = "16 word"

section \<open>Comparisons\<close>

definition f32_magnitude :: "f32 \<Rightarrow> nat" where
  "f32_magnitude x = unat (x AND 0x7FFFFFFF)"

definition f32_isnan :: "f32 \<Rightarrow> bool" where
  "f32_isnan x \<longleftrightarrow> f32_magnitude x > 0x7F800000"

definition f32_isfinite :: "f32 \<Rightarrow> bool" where
  "f32_isfinite x \<longleftrightarrow> f32_magnitude x < 0x7F800000"

text \<open>The position of a number in the order of IEEE 754; both zeros have position 0.\<close>

definition f32_key :: "f32 \<Rightarrow> int" where
  "f32_key x = (if x AND 0x80000000 = 0 then int (f32_magnitude x) else - int (f32_magnitude x))"

definition f32_le :: "f32 \<Rightarrow> f32 \<Rightarrow> bool" where
  "f32_le x y \<longleftrightarrow> \<not> f32_isnan x \<and> \<not> f32_isnan y \<and> f32_key x \<le> f32_key y"

definition f32_lt :: "f32 \<Rightarrow> f32 \<Rightarrow> bool" where
  "f32_lt x y \<longleftrightarrow> \<not> f32_isnan x \<and> \<not> f32_isnan y \<and> f32_key x < f32_key y"

section \<open>Half precision\<close>

partial_function (option) norm_loop :: "32 word \<Rightarrow> int \<Rightarrow> (32 word \<times> int) option" where
  "norm_loop m shift = (if m AND 0x400 = 0 then norm_loop (push_bit 1 m) (shift + 1) else Some (m, shift))"

declare norm_loop.simps [code]

definition half_to_float :: "u16 \<Rightarrow> f32 option" where
  "half_to_float h = (let sign = push_bit 16 (ucast h AND 0x8000);
       e = drop_bit 10 (ucast h) AND 0x1F;
       mant = ucast h AND 0x3FF in
     if e = 0 then
       if mant = 0 then Some sign
       else do {
         (m, shift) \<leftarrow> norm_loop mant 0;
         let float_exp = word_of_int (127 - 14 - shift);
         Some (sign OR push_bit 23 float_exp OR push_bit 13 (m AND 0x3FF))
       }
     else if e = 0x1F then Some (sign OR 0x7F800000 OR push_bit 13 mant)
     else let float_exp = e + (127 - 15) in Some (sign OR push_bit 23 float_exp OR push_bit 13 mant))"

definition float_to_half :: "f32 \<Rightarrow> u16" where
  "float_to_half value = (let sign = drop_bit 16 value AND 0x8000;
       e = drop_bit 23 value AND 0xFF;
       mant = value AND 0x7FFFFF in
     if e = 0xFF then ucast (sign OR 0x7C00 OR (if mant \<noteq> 0 then 0x200 else 0))
     else let half_exp = uint e - 127 + 15 in
     if half_exp \<ge> 31 then ucast (sign OR 0x7C00)
     else if half_exp \<le> 0 then
       if half_exp < -10 then ucast sign
       else let m = mant OR 0x800000; shift = nat (14 - half_exp);
           half_mant = drop_bit shift m; round_bit_mask = push_bit (shift - 1) 1;
           half_mant = (if m AND round_bit_mask \<noteq> 0 \<and> (m AND (round_bit_mask - 1) \<noteq> 0 \<or> half_mant AND 1 \<noteq> 0)
             then half_mant + 1 else half_mant) in
         if half_mant \<ge> 0x400 then ucast (sign OR push_bit 10 1) else ucast (sign OR half_mant)
     else let half_mant = drop_bit 13 mant; rest = mant AND 0x1FFF in
       if rest > 0x1000 \<or> rest = 0x1000 \<and> half_mant AND 1 \<noteq> 0 then
         let half_mant = half_mant + 1 in
         if half_mant \<ge> 0x400 then
           let next_exp = word_of_int (half_exp + 1) in
           if next_exp \<ge> 31 then ucast (sign OR 0x7C00) else ucast (sign OR push_bit 10 next_exp OR 0)
         else ucast (sign OR push_bit 10 (word_of_int half_exp) OR half_mant)
       else ucast (sign OR push_bit 10 (word_of_int half_exp) OR half_mant))"

section \<open>bfloat16\<close>

definition float_to_bfloat16 :: "f32 \<Rightarrow> u16" where
  "float_to_bfloat16 value = (let rounding = 0x7FFF + (drop_bit 16 value AND 1); rounded = value + rounding in
     ucast (drop_bit 16 rounded))"

section \<open>Bit fields as numbers\<close>

lemma unat_or_disjoint:
  fixes a b :: "'w::len word"
  assumes "unat a < 2 ^ k" "2 ^ k dvd unat b"
  shows "unat (a OR b) = unat a + unat b"
proof -
  obtain c where c: "unat b = push_bit k c" using assms(2) by (auto simp: push_bit_eq_mult dvd_def mult.commute)
  have a: "take_bit k (unat a) = unat a" using assms(1) by (simp add: take_bit_nat_eq_self_iff)
  have "unat a AND unat b = 0"
    by (subst a [symmetric], unfold c, rule bit_eqI) (auto simp: bit_simps)
  from disjunctive_add_eq_or [OF this] show ?thesis by (simp add: unsigned_or_eq)
qed

lemma unat_and_mask: "unat (x AND mask n) = unat (x :: 'w::len word) mod 2 ^ n"
  by (simp add: unsigned_and_eq flip: take_bit_eq_mask)
    (metis take_bit_eq_mask take_bit_eq_mod unsigned_take_bit_eq)

lemma masks:
  "(0x1F :: 32 word) = mask 5" "(0x3FF :: 32 word) = mask 10" "(0xFF :: 32 word) = mask 8" "(0x7FFFFF :: 32 word) = mask 23"
  "(0x1FFF :: 32 word) = mask 13" "(1 :: 32 word) = mask 1"
  by (simp_all add: mask_eq_exp_minus_1)

lemma unat_drop: "unat (drop_bit n x) = unat (x :: 'w::len word) div 2 ^ n"
  by (subst unsigned_drop_bit_eq) (simp add: drop_bit_eq_div take_bit_nat_eq_self)

lemma unat_push: "unat x * 2 ^ n < 2 ^ LENGTH('w) \<Longrightarrow> unat (push_bit n (x :: 'w::len word)) = unat x * 2 ^ n"
  by (subst unsigned_push_bit_eq) (simp add: push_bit_eq_mult take_bit_nat_eq_self_iff)

lemma and_bit: "x AND push_bit n 1 = push_bit n (drop_bit n (x :: 'w::len word) AND mask 1)"
  by (rule bit_word_eqI) (auto simp: bit_simps)

lemma unat_and_bit:
  fixes x :: "'w::len word"
  assumes "n < LENGTH('w)"
  shows "unat (x AND push_bit n 1) = (unat x div 2 ^ n mod 2) * 2 ^ n"
proof -
  have "(unat x div 2 ^ n mod 2) * 2 ^ n \<le> unat x"
    by (metis div_mult_mod_eq le_add1 mod_less_eq_dividend mult_le_mono1 order_trans times_div_less_eq_dividend mult.commute)
  then have "(unat x div 2 ^ n mod 2) * 2 ^ n < 2 ^ LENGTH('w)" by (rule order_le_less_trans) simp
  then show ?thesis unfolding and_bit by (subst unat_push) (simp_all only: unat_and_mask unat_drop power_one_right)
qed

lemma unat_and_bit15: "unat ((x :: 32 word) AND 0x8000) = (unat x div 2 ^ 15 mod 2) * 2 ^ 15"
  using unat_and_bit [of 15 x] by (simp add: push_bit_eq_mult)

lemma half_fields:
  "unat (drop_bit 10 (ucast (h :: u16) :: 32 word) AND 0x1F) = unat h div 2 ^ 10 mod 32"
  "unat ((ucast h :: 32 word) AND 0x3FF) = unat h mod 1024"
  "unat (push_bit 16 ((ucast h :: 32 word) AND 0x8000)) = unat h div 2 ^ 15 * 2 ^ 31"
proof -
  have lt: "unat h < 2 ^ 16" using unsigned_less [of h] by simp
  then have u: "unat (ucast h :: 32 word) = unat h" by (simp add: unsigned_ucast_eq take_bit_nat_eq_self)
  show "unat (drop_bit 10 (ucast h :: 32 word) AND 0x1F) = unat h div 2 ^ 10 mod 32"
    "unat ((ucast h :: 32 word) AND 0x3FF) = unat h mod 1024"
    by (simp_all only: masks unat_and_mask unat_drop u) simp_all
  have "unat h div 2 ^ 15 mod 2 = unat h div 2 ^ 15" using lt by (simp add: less_mult_imp_div_less)
  then have b: "unat ((ucast h :: 32 word) AND 0x8000) = unat h div 2 ^ 15 * 2 ^ 15" by (simp only: unat_and_bit15 u)
  have "unat h div 2 ^ 15 < 2" using lt by (simp add: less_mult_imp_div_less)
  then show "unat (push_bit 16 ((ucast h :: 32 word) AND 0x8000)) = unat h div 2 ^ 15 * 2 ^ 31"
    by (subst unat_push) (simp_all only: b, simp_all)
qed

lemma float_fields:
  "unat (drop_bit 23 (x :: f32) AND 0xFF) = unat x div 2 ^ 23 mod 256"
  "unat (x AND 0x7FFFFF) = unat x mod 2 ^ 23"
  "unat (drop_bit 16 x AND 0x8000) = unat x div 2 ^ 31 * 2 ^ 15"
proof -
  show "unat (drop_bit 23 x AND 0xFF) = unat x div 2 ^ 23 mod 256" "unat (x AND 0x7FFFFF) = unat x mod 2 ^ 23"
    by (simp_all only: masks unat_and_mask unat_drop) simp_all
  have "unat x < 2 ^ 32" using unsigned_less [of x] by simp
  then have "unat x div 2 ^ 31 < 2" by (simp add: less_mult_imp_div_less)
  then show "unat (drop_bit 16 x AND 0x8000) = unat x div 2 ^ 31 * 2 ^ 15"
    by (simp only: unat_and_bit15 unat_drop div_mult2_eq [symmetric]) simp
qed

section \<open>Half to float and back\<close>

lemma and_0x400: "unat (m :: 32 word) < 2048 \<Longrightarrow> m AND 0x400 = 0 \<longleftrightarrow> unat m < 1024"
proof -
  assume m: "unat m < 2048"
  have "(m AND 0x400 = 0) = (unat (m AND 0x400) = 0)" by (simp add: unat_eq_zero)
  also have "unat (m AND 0x400) = (unat m div 2 ^ 10 mod 2) * 2 ^ 10"
    using unat_and_bit [of 10 m] by (simp add: push_bit_eq_mult)
  also have "unat m div 2 ^ 10 mod 2 = unat m div 2 ^ 10" using m by (simp add: less_mult_imp_div_less)
  finally show ?thesis using m by (simp add: div_eq_0_iff)
qed

lemma norm_loop_returns:
  assumes "0 < unat m" "unat m < 2048"
  shows "\<exists>m' s. norm_loop m sh = Some (m', sh + int s) \<and> unat m' = unat m * 2 ^ s \<and> 1024 \<le> unat m' \<and> unat m' < 2048"
  using assms
proof (induction "2048 - unat m" arbitrary: m sh rule: less_induct)
  case less
  show ?case
  proof (cases "unat m < 1024")
    case False
    then show ?thesis using less.prems and_0x400 [of m]
      by (intro exI [of _ m] exI [of _ 0]) (simp add: norm_loop.simps)
  next
    case True
    have p: "unat (push_bit 1 m) = unat m * 2" by (subst unat_push) (use True in simp_all)
    have "2048 - unat (push_bit 1 m) < 2048 - unat m" "0 < unat (push_bit 1 m)" "unat (push_bit 1 m) < 2048"
      unfolding p using less.prems True by simp_all
    from less.hyps [OF this, unfolded p] obtain m' s where "norm_loop (push_bit 1 m) (sh + 1) = Some (m', sh + 1 + int s)"
        "unat m' = unat m * 2 * 2 ^ s" "1024 \<le> unat m'" "unat m' < 2048"
      by blast
    then show ?thesis using True less.prems and_0x400 [of m]
      by (intro exI [of _ m'] exI [of _ "Suc s"]) (subst norm_loop.simps, simp)
  qed
qed

text \<open>The patterns as numbers: \<open>pack s e f\<close> has sign \<open>s\<close>, biased exponent \<open>e\<close> and fraction \<open>f\<close>.\<close>

definition pack :: "nat \<Rightarrow> nat \<Rightarrow> nat \<Rightarrow> nat" where
  "pack s e f = s * 2 ^ 31 + e * 2 ^ 23 + f"

lemma unat_pack:
  fixes sign fe mt :: "32 word"
  assumes "unat sign = s * 2 ^ 31" "s < 2" "unat fe < 256" "unat mt < 1024"
  shows "unat (sign OR push_bit 23 fe OR push_bit 13 mt) = pack s (unat fe) (unat mt * 2 ^ 13)"
proof -
  have m: "unat (push_bit 13 mt) = unat mt * 2 ^ 13" by (rule unat_push) (use assms(4) in simp)
  have f: "unat (push_bit 23 fe) = unat fe * 2 ^ 23" by (rule unat_push) (use assms(3) in simp)
  have mf: "unat (push_bit 13 mt OR push_bit 23 fe) = unat mt * 2 ^ 13 + unat fe * 2 ^ 23"
    using unat_or_disjoint [of "push_bit 13 mt" 23 "push_bit 23 fe"] assms(4) by (simp add: m f)
  have "sign OR push_bit 23 fe OR push_bit 13 mt = (push_bit 13 mt OR push_bit 23 fe) OR sign"
    by (simp add: or.commute or.left_commute)
  moreover have "unat ((push_bit 13 mt OR push_bit 23 fe) OR sign) = (unat mt * 2 ^ 13 + unat fe * 2 ^ 23) + s * 2 ^ 31"
    using unat_or_disjoint [of "push_bit 13 mt OR push_bit 23 fe" 31 sign] assms by (simp add: mf)
  ultimately show ?thesis by (simp add: pack_def)
qed

lemma unpack:
  assumes "unat x = pack s e f" "s < 2" "e < 256" "f < 2 ^ 23"
  shows "unat (drop_bit 23 (x :: f32) AND 0xFF) = e" "unat (x AND 0x7FFFFF) = f"
    "unat (drop_bit 16 x AND 0x8000) = s * 2 ^ 15"
proof -
  have p: "pack s e f = (s * 256 + e) * 2 ^ 23 + f" by (simp add: pack_def)
  have "unat x div 2 ^ 23 = s * 256 + e" unfolding assms(1) p using assms(4) by simp
  then show "unat (drop_bit 23 x AND 0xFF) = e" unfolding float_fields using assms(3) by simp
  have "((s * 256 + e) * 2 ^ 23 + f) mod 2 ^ 23 = f" using assms(4) by (simp only: mod_mult_self3 mod_less)
  then show "unat (x AND 0x7FFFFF) = f" by (simp only: float_fields assms(1) p)
  have "unat x div 2 ^ 31 = unat x div 2 ^ 23 div 2 ^ 8" by (simp add: div_mult2_eq [symmetric])
  also have "\<dots> = s" using \<open>unat x div 2 ^ 23 = s * 256 + e\<close> assms(3) by simp
  finally show "unat (drop_bit 16 x AND 0x8000) = s * 2 ^ 15" unfolding float_fields by simp
qed

lemma half_parts: "unat (h :: u16) = unat h div 2 ^ 15 * 2 ^ 15 + (unat h div 2 ^ 10 mod 32) * 2 ^ 10 + unat h mod 1024"
  "unat h div 2 ^ 15 < 2" "unat h div 2 ^ 10 mod 32 < 32" "unat h mod 1024 < 1024"
proof -
  have "unat h < 2 ^ 16" using unsigned_less [of h] by simp
  then show "unat h div 2 ^ 15 < 2" by (simp add: less_mult_imp_div_less)
  have "n = n div 32768 * 32768 + (n div 1024 mod 32) * 1024 + n mod 1024" for n :: nat
  proof -
    have "n div 1024 div 32 = n div 32768" by (simp add: div_mult2_eq [symmetric])
    then show ?thesis using div_mult_mod_eq [of n 1024] div_mult_mod_eq [of "n div 1024" 32] by linarith
  qed
  then show "unat h = unat h div 2 ^ 15 * 2 ^ 15 + (unat h div 2 ^ 10 mod 32) * 2 ^ 10 + unat h mod 1024"
    by simp
qed simp_all

definition half_value :: "nat \<Rightarrow> nat \<Rightarrow> nat \<Rightarrow> nat \<Rightarrow> bool" where
  "half_value s e m x \<longleftrightarrow>
     (if e = 31 then x = pack s 255 (m * 2 ^ 13)
      else if e \<noteq> 0 then x = pack s (e + 112) (m * 2 ^ 13)
      else if m = 0 then x = pack s 0 0
      else \<exists>k \<in> {1..10}. 1024 \<le> m * 2 ^ k \<and> m * 2 ^ k < 2048 \<and> x = pack s (113 - k) ((m * 2 ^ k - 1024) * 2 ^ 13))"

lemma half_to_float_spec:
  "\<exists>x. half_to_float h = Some x \<and> half_value (unat h div 2 ^ 15) (unat h div 2 ^ 10 mod 32) (unat h mod 1024) (unat x)"
proof -
  define s e m where d: "s = unat h div 2 ^ 15" "e = unat h div 2 ^ 10 mod 32" "m = unat h mod 1024"
  have b: "s < 2" "e < 32" "m < 1024" using half_parts [of h] by (simp_all add: d)
  let ?sign = "push_bit 16 ((ucast h :: 32 word) AND 0x8000)" and ?e = "drop_bit 10 (ucast h :: 32 word) AND 0x1F"
    and ?m = "(ucast h :: 32 word) AND 0x3FF"
  have F: "unat ?e = e" "unat ?m = m" "unat ?sign = s * 2 ^ 31" using half_fields [of h] by (simp_all only: d)
  have e0: "?e = 0 \<longleftrightarrow> e = 0" "?m = 0 \<longleftrightarrow> m = 0" using F by (simp_all only: flip: unat_eq_0)
  have "unat (0x1F :: 32 word) = 31" by simp
  then have e31: "?e = 0x1F \<longleftrightarrow> e = 31" using F(1) by (metis word_unat_eq_iff)
  consider (zero) "e = 0" "m = 0" | (sub) "e = 0" "0 < m" | (inf) "e = 31" | (norm) "e \<noteq> 0" "e \<noteq> 31" by blast
  then have "\<exists>x. half_to_float h = Some x \<and> half_value s e m (unat x)"
  proof cases
    case zero
    then show ?thesis using e0 F(3) by (simp add: half_to_float_def Let_def half_value_def pack_def)
  next
    case inf
    have "unat (?sign OR push_bit 23 0xFF OR push_bit 13 ?m) = pack s (unat (0xFF :: 32 word)) (unat ?m * 2 ^ 13)"
      by (rule unat_pack [OF F(3) b(1)]) (use b F in simp_all)
    then have "unat (?sign OR 0x7F800000 OR push_bit 13 ?m) = pack s 255 (m * 2 ^ 13)" by (simp only: F(2)) (simp add: push_bit_eq_mult)
    then show ?thesis using inf e0 e31 by (simp add: half_to_float_def Let_def half_value_def)
  next
    case norm
    have e: "unat (?e + (127 - 15)) = e + 112" by (subst unat_add_lem [THEN iffD1]) (use b F(1) in simp_all)
    have "unat (?sign OR push_bit 23 (?e + (127 - 15)) OR push_bit 13 ?m) = pack s (e + 112) (m * 2 ^ 13)"
      using unat_pack [OF F(3) b(1), of "?e + (127 - 15)" ?m] b by (simp only: e F(2))
    then show ?thesis using norm e0 e31 by (simp add: half_to_float_def Let_def half_value_def)
  next
    case sub
    obtain m' k where mk: "norm_loop ?m 0 = Some (m', int k)" "unat m' = m * 2 ^ k" "1024 \<le> unat m'" "unat m' < 2048"
      using norm_loop_returns [of ?m 0] F(2) sub b by auto
    have k: "1 \<le> k" using mk b by (cases k) simp_all
    have k10: "k \<le> 10"
    proof (rule ccontr)
      assume "\<not> k \<le> 10"
      then have "(2::nat) ^ 11 \<le> 2 ^ k" by (intro power_increasing) simp_all
      then have "1 * 2 ^ 11 \<le> m * 2 ^ k" using sub by (intro mult_le_mono) simp_all
      then show False using mk by simp
    qed
    have fe: "unat (word_of_int (127 - 14 - int k) :: 32 word) = 113 - k"
    proof -
      have "127 - 14 - int k = int (113 - k)" using k10 by simp
      moreover have "unat (word_of_nat (113 - k) :: 32 word) = 113 - k"
        unfolding unat_of_nat by (rule mod_less) simp
      ultimately show ?thesis by (simp only: of_int_of_nat_eq)
    qed
    have mm: "unat (m' AND 0x3FF) = m * 2 ^ k - 1024"
      using mk by (simp only: masks(2) unat_and_mask) (simp add: mod_if)
    have "unat (?sign OR push_bit 23 (word_of_int (127 - 14 - int k)) OR push_bit 13 (m' AND 0x3FF)) =
        pack s (113 - k) ((m * 2 ^ k - 1024) * 2 ^ 13)"
      using unat_pack [OF F(3) b(1), of "word_of_int (127 - 14 - int k)" "m' AND 0x3FF"] mk by (simp only: fe mm)
    then show ?thesis using sub e0 e31 mk k k10
      by (auto simp: half_to_float_def Let_def half_value_def intro!: bexI [of _ k])
  qed
  then show ?thesis by (simp only: d)
qed

lemma unat_half_pack:
  fixes sign he hm :: "32 word"
  assumes "unat sign = s * 2 ^ 15" "s < 2" "unat he < 32" "unat hm < 1024"
  shows "unat (ucast (sign OR push_bit 10 he OR hm) :: u16) = s * 2 ^ 15 + unat he * 2 ^ 10 + unat hm"
proof -
  have p: "unat (push_bit 10 he) = unat he * 2 ^ 10" by (rule unat_push) (use assms(3) in simp)
  have a: "unat (hm OR push_bit 10 he) = unat hm + unat he * 2 ^ 10"
    using unat_or_disjoint [of hm 10 "push_bit 10 he"] assms(4) by (simp add: p)
  have "sign OR push_bit 10 he OR hm = (hm OR push_bit 10 he) OR sign" by (simp add: or.commute or.left_commute)
  moreover have "unat ((hm OR push_bit 10 he) OR sign) = unat hm + unat he * 2 ^ 10 + s * 2 ^ 15"
    using unat_or_disjoint [of "hm OR push_bit 10 he" 15 sign] assms by (simp add: a)
  ultimately have b: "unat (sign OR push_bit 10 he OR hm) = s * 2 ^ 15 + unat he * 2 ^ 10 + unat hm" by simp
  moreover have "s * 2 ^ 15 + unat he * 2 ^ 10 + unat hm < 2 ^ 16" using assms(2-4) by simp
  ultimately show ?thesis by (simp add: unsigned_ucast_eq take_bit_nat_eq_self)
qed

lemma float_to_half_normal:
  assumes x: "unat x = pack s (e + 112) (m * 2 ^ 13)" and b: "s < 2" "0 < e" "e < 31" "m < 1024"
  shows "unat (float_to_half x) = s * 2 ^ 15 + e * 2 ^ 10 + m"
proof -
  note U = unpack [OF x b(1)]
  let ?e = "drop_bit 23 x AND 0xFF" and ?mant = "x AND 0x7FFFFF" and ?sign = "drop_bit 16 x AND 0x8000"
  have F: "unat ?e = e + 112" "unat ?mant = m * 2 ^ 13" "unat ?sign = s * 2 ^ 15"
    using U b by simp_all
  have e: "?e \<noteq> 0xFF"
  proof
    assume "?e = 0xFF"
    then have "unat ?e = unat (0xFF :: 32 word)" by (simp only:)
    then show False using F(1) b by simp
  qed
  have hm: "unat (drop_bit 13 ?mant) = m" by (simp only: unat_drop F(2)) simp
  have "unat (?mant AND 0x1FFF) = 0" by (simp only: masks(5) unat_and_mask F(2)) simp
  then have rest: "?mant AND 0x1FFF = 0" by (simp only: unat_eq_0)
  have he: "uint ?e - 127 + 15 = int e" using F(1) by (simp add: uint_nat)
  have whe: "unat (word_of_int (int e) :: 32 word) = e" using b by (simp add: unat_of_nat take_bit_nat_eq_self)
  have "float_to_half x = ucast (?sign OR push_bit 10 (word_of_int (int e)) OR drop_bit 13 ?mant)"
    unfolding float_to_half_def Let_def he using e b rest by simp
  then show ?thesis using unat_half_pack [OF F(3) b(1), of "word_of_int (int e)" "drop_bit 13 ?mant"] whe hm b
    by (simp only:)
qed

lemma float_to_half_inf:
  assumes x: "unat x = pack s 255 (m * 2 ^ 13)" and b: "s < 2" "m < 1024"
  shows "unat (float_to_half x) = s * 2 ^ 15 + 31 * 2 ^ 10 + (if m = 0 then 0 else 512)"
proof -
  note U = unpack [OF x b(1)]
  let ?e = "drop_bit 23 x AND 0xFF" and ?mant = "x AND 0x7FFFFF" and ?sign = "drop_bit 16 x AND 0x8000"
  have F: "unat ?e = 255" "unat ?mant = m * 2 ^ 13" "unat ?sign = s * 2 ^ 15"
    using U b by simp_all
  have "unat ?e = unat (0xFF :: 32 word)" using F(1) by simp
  then have e: "?e = 0xFF" by (simp only: word_unat_eq_iff)
  have "?mant = 0 \<longleftrightarrow> m = 0" using F(2) by (metis mult_eq_0_iff power_not_zero unat_eq_0 zero_neq_numeral)
  moreover have "push_bit 10 0x1F = (0x7C00 :: 32 word)" by (simp add: push_bit_eq_mult)
  ultimately have "float_to_half x = ucast (?sign OR push_bit 10 0x1F OR (if m = 0 then 0 else 0x200))"
    using e by (simp add: float_to_half_def Let_def)
  then show ?thesis using unat_half_pack [OF F(3) b(1), of "0x1F" "if m = 0 then 0 else 0x200"] by simp
qed

lemma float_to_half_zero:
  assumes x: "unat x = pack s 0 0" and b: "s < 2"
  shows "unat (float_to_half x) = s * 2 ^ 15"
proof -
  note U = unpack [OF x b]
  let ?e = "drop_bit 23 x AND 0xFF" and ?sign = "drop_bit 16 x AND 0x8000"
  have F: "unat ?e = 0" "unat ?sign = s * 2 ^ 15" using U by simp_all
  then have "float_to_half x = ucast (?sign OR push_bit 10 0 OR 0)"
    by (simp add: float_to_half_def Let_def unat_eq_0)
  then show ?thesis using unat_half_pack [OF F(2) b, of 0 0] by simp
qed

lemma float_to_half_subnormal:
  assumes x: "unat x = pack s (113 - k) ((m * 2 ^ k - 1024) * 2 ^ 13)" and b: "s < 2" "m < 1024" "1 \<le> k" "k \<le> 10"
    "1024 \<le> m * 2 ^ k" "m * 2 ^ k < 2048"
  shows "unat (float_to_half x) = s * 2 ^ 15 + m"
proof -
  have "(m * 2 ^ k - 1024) * 2 ^ 13 < 2 ^ 23" using b(6) by simp
  note U = unpack [OF x b(1) _ this]
  let ?e = "drop_bit 23 x AND 0xFF" and ?mant = "x AND 0x7FFFFF" and ?sign = "drop_bit 16 x AND 0x8000"
  let ?m = "?mant OR 0x800000"
  have F: "unat ?e = 113 - k" "unat ?mant = (m * 2 ^ k - 1024) * 2 ^ 13" "unat ?sign = s * 2 ^ 15" using U by simp_all
  have e: "?e \<noteq> 0xFF"
  proof
    assume "?e = 0xFF"
    then have "unat ?e = unat (0xFF :: 32 word)" by (simp only:)
    then show False using F(1) by simp
  qed
  have he: "uint ?e - 127 + 15 = 1 - int k" using F(1) b(4) by (simp add: uint_nat)
  have "unat ?m = unat ?mant + unat (0x800000 :: 32 word)"
    by (rule unat_or_disjoint [where k = 23]) (use F(2) b(6) in simp_all)
  then have um: "unat ?m = m * 2 ^ (13 + k)" using F(2) b(5) by (simp add: diff_mult_distrib power_add)
  have sh: "nat (14 - (1 - int k)) = 13 + k" by simp
  have hm: "unat (drop_bit (13 + k) ?m) = m" by (simp only: unat_drop um) simp
  have "unat (?m AND push_bit (13 + k - 1) 1) = 0"
    by (subst unat_and_bit) (use b(4) in \<open>simp_all only: um\<close>, simp_all add: power_add)
  then have rb: "?m AND push_bit (13 + k - 1) 1 = 0" by (simp only: unat_eq_0)
  have lt: "\<not> drop_bit (13 + k) ?m \<ge> 0x400" using hm b(2) by (simp add: word_le_nat_alt)
  have "float_to_half x = ucast (?sign OR push_bit 10 0 OR drop_bit (13 + k) ?m)"
    unfolding float_to_half_def Let_def he sh using e b(3,4) rb lt by simp
  then show ?thesis using unat_half_pack [OF F(3) b(1), of 0 "drop_bit (13 + k) ?m"] hm b(2) by simp
qed

text \<open>
  C18. Converting a half to a float and back is the identity on every half: zeros, subnormals, normal
  numbers and infinities keep their pattern, and a NaN becomes the quiet NaN of its sign. The
  normalisation loop for subnormals always ends.
\<close>

theorem half_round_trip:
  "map_option float_to_half (half_to_float h) =
     Some (if drop_bit 10 h AND 0x1F = 0x1F \<and> h AND 0x3FF \<noteq> 0 then (h AND 0x8000) OR 0x7E00 else h)"
proof -
  define s e m where d: "s = unat h div 2 ^ 15" "e = unat h div 2 ^ 10 mod 32" "m = unat h mod 1024"
  note P = half_parts [of h, folded d]
  obtain x where x: "half_to_float h = Some x" "half_value s e m (unat x)"
    using half_to_float_spec [of h] by (auto simp only: d)
  have e31: "drop_bit 10 h AND 0x1F = 0x1F \<longleftrightarrow> e = 31" and m0: "h AND 0x3FF \<noteq> 0 \<longleftrightarrow> m \<noteq> 0"
  proof -
    have "(0x1F :: u16) = mask 5" "(0x3FF :: u16) = mask 10" by (simp_all add: mask_eq_exp_minus_1)
    then have "unat (drop_bit 10 h AND 0x1F) = e" "unat (h AND 0x3FF) = m"
      by (simp_all only: unat_and_mask unat_drop d) simp_all
    moreover have "unat (0x1F :: u16) = 31" by simp
    ultimately show "drop_bit 10 h AND 0x1F = 0x1F \<longleftrightarrow> e = 31" "h AND 0x3FF \<noteq> 0 \<longleftrightarrow> m \<noteq> 0"
      by (metis word_unat_eq_iff, metis unat_eq_0)
  qed
  have nan: "unat ((h AND 0x8000) OR 0x7E00) = s * 2 ^ 15 + 31 * 2 ^ 10 + 512"
  proof -
    have "unat (h AND 0x8000) = s * 2 ^ 15" using unat_and_bit [of 15 h] P(2) by (simp add: push_bit_eq_mult d)
    moreover have "unat (0x7E00 OR (h AND 0x8000)) = unat (0x7E00 :: u16) + unat (h AND 0x8000)"
      by (rule unat_or_disjoint [where k = 15]) (use calculation in simp_all)
    ultimately show ?thesis by (simp add: or.commute)
  qed
  have "unat (float_to_half x) = s * 2 ^ 15 + e * 2 ^ 10 + (if e = 31 \<and> m \<noteq> 0 then 512 else m)"
  proof -
    consider "e = 31" | "e \<noteq> 31" "e \<noteq> 0" | "e = 0" "m = 0" | "e = 0" "m \<noteq> 0" by blast
    then show ?thesis
    proof cases
      case 1
      then show ?thesis using x(2) float_to_half_inf [of x s m] P by (simp add: half_value_def)
    next
      case 2
      then show ?thesis using x(2) float_to_half_normal [of x s e m] P by (simp add: half_value_def)
    next
      case 3
      then show ?thesis using x(2) float_to_half_zero [of x s] P by (simp add: half_value_def)
    next
      case 4
      then show ?thesis using x(2) float_to_half_subnormal [of x s _ m] P by (auto simp: half_value_def)
    qed
  qed
  then have "float_to_half x = (if e = 31 \<and> m \<noteq> 0 then (h AND 0x8000) OR 0x7E00 else h)"
    using nan P(1) by (simp only: word_unat_eq_iff split: if_splits) auto
  then show ?thesis by (simp only: x(1) e31 m0 option.map)
qed

section \<open>Rounding to bfloat16\<close>

lemma unat_bf16:
  assumes "unat x + 0x8000 < 2 ^ 32"
  shows "unat (float_to_bfloat16 x) = (unat x + 0x7FFF + unat x div 2 ^ 16 mod 2) div 2 ^ 16"
proof -
  have l: "unat (drop_bit 16 x AND 1) = unat x div 2 ^ 16 mod 2" by (simp only: masks(6) unat_and_mask unat_drop) simp
  have r: "unat (0x7FFF + (drop_bit 16 x AND 1)) = 0x7FFF + unat x div 2 ^ 16 mod 2"
    by (subst unat_add_lem [THEN iffD1]) (simp_all only: l, simp_all)
  have "unat (x + (0x7FFF + (drop_bit 16 x AND 1))) = unat x + (0x7FFF + unat x div 2 ^ 16 mod 2)"
    by (subst unat_add_lem [THEN iffD1]) (simp_all only: r, use assms in simp_all)
  moreover have "(unat x + (0x7FFF + unat x div 2 ^ 16 mod 2)) div 2 ^ 16 < 2 ^ 16"
    using assms by (simp add: less_mult_imp_div_less)
  ultimately show ?thesis
    by (simp only: float_to_bfloat16_def Let_def unsigned_ucast_eq unat_drop take_bit_nat_eq_self add.assoc) (simp add: take_bit_nat_eq_self)
qed

text \<open>
  C19. A number that is not NaN is rounded to the nearest bfloat16 pattern: the result differs from
  the float by at most half a unit in the last place kept, a tie goes to the even pattern, and the
  sign never changes (the addition cannot carry into it).
\<close>

theorem bfloat16_nearest:
  assumes "\<not> f32_isnan x"
  shows "let r = unat (float_to_bfloat16 x) in
    \<bar>2 * (int r * 2 ^ 16 - int (unat x))\<bar> \<le> 2 ^ 16 \<and>
    (\<bar>2 * (int r * 2 ^ 16 - int (unat x))\<bar> = 2 ^ 16 \<longrightarrow> even r) \<and> r div 2 ^ 15 = unat x div 2 ^ 31"
proof -
  have mag: "unat (x AND 0x7FFFFFFF) = unat x mod 2 ^ 31"
    using unat_and_mask [of x 31] by (simp add: mask_eq_exp_minus_1)
  have lt: "unat x < 2 ^ 32" using unsigned_less [of x] by simp
  define s f where sf: "s = unat x div 2 ^ 31" "f = unat x mod 2 ^ 31"
  have f: "f \<le> 0x7F800000" using assms by (simp add: f32_isnan_def f32_magnitude_def mag sf)
  have s: "s < 2" using lt by (simp add: sf less_mult_imp_div_less)
  have x: "unat x = s * 2 ^ 31 + f" using div_mult_mod_eq [of "unat x" "2 ^ 31"] by (simp add: sf)
  define q t where qt: "q = unat x div 2 ^ 16" "t = unat x mod 2 ^ 16"
  have xq: "unat x = q * 2 ^ 16 + t" "t < 2 ^ 16" using div_mult_mod_eq [of "unat x" "2 ^ 16"] by (simp_all add: qt)
  define u where u: "u = t + 0x7FFF + q mod 2"
  have "s = 0 \<or> s = 1" using s by linarith
  then have "unat x + 0x8000 < 2 ^ 32" using x f by auto
  from unat_bf16 [OF this] have "unat (float_to_bfloat16 x) = (unat x + 0x7FFF + q mod 2) div 2 ^ 16" by (simp only: qt(1))
  also have "unat x + 0x7FFF + q mod 2 = q * 2 ^ 16 + u" unfolding u xq(1) by linarith
  finally have r: "unat (float_to_bfloat16 x) = q + u div 2 ^ 16" by simp
  define c where c: "c = (if t + q mod 2 > 0x8000 then 1 else 0 :: nat)"
  have q2: "q mod 2 = 0 \<or> q mod 2 = 1" by linarith
  have c1: "c = 0 \<and> t + q mod 2 \<le> 0x8000 \<or> c = 1 \<and> t + q mod 2 > 0x8000" by (simp add: c)
  have uc: "u div 2 ^ 16 = c"
  proof (cases "t + q mod 2 > 0x8000")
    case True
    then have "u div 2 ^ 16 = 1" using xq(2) q2 unfolding u by (intro div_nat_eqI) auto
    then show ?thesis using True by (simp add: c)
  next
    case False
    then have "u < 2 ^ 16" unfolding u by simp
    then show ?thesis using False by (simp add: c)
  qed
  have hi: "(q + c) div 2 ^ 15 = s"
  proof -
    have qs: "q div 2 ^ 15 = s" unfolding qt sf by (simp add: div_mult2_eq [symmetric])
    have qf: "f = (q mod 2 ^ 15) * 2 ^ 16 + t"
    proof -
      have "f = (q * 2 ^ 16 + t) mod 2 ^ 31" by (simp only: sf(2) flip: xq(1))
      also have "q * 2 ^ 16 + t = (q div 2 ^ 15) * 2 ^ 31 + ((q mod 2 ^ 15) * 2 ^ 16 + t)"
      proof -
        have "(a * 2 ^ 15 + b) * 2 ^ 16 + t = a * 2 ^ 31 + (b * 2 ^ 16 + t)" for a b :: nat by simp
        from this [of "q div 2 ^ 15" "q mod 2 ^ 15"] show ?thesis by (simp only: div_mult_mod_eq)
      qed
      also have "\<dots> mod 2 ^ 31 = (q mod 2 ^ 15) * 2 ^ 16 + t"
      proof -
        have "q mod 2 ^ 15 \<le> 2 ^ 15 - 1" by (simp add: less_Suc_eq_le [symmetric])
        then have "(q mod 2 ^ 15) * 2 ^ 16 + t < 2 ^ 31" using xq(2) by simp
        then show ?thesis by (simp only: mod_mult_self3 mod_less)
      qed
      finally show ?thesis .
    qed
    have qc: "q mod 2 ^ 15 + c < 2 ^ 15" 
    proof (cases "q mod 2 ^ 15 < 0x7F80")
      case True
      then show ?thesis using c1 by (elim disjE) simp_all
    next
      case False
      then have "q mod 2 ^ 15 = 0x7F80 \<and> t = 0" using qf f by simp
      then show ?thesis using c1 by (elim disjE) simp_all
    qed
    have "(a * 2 ^ 15 + b) div 2 ^ 15 = a" if "b < 2 ^ 15" for a b :: nat using that by simp
    from this [OF qc, of "q div 2 ^ 15"]
    have "(q + c) div 2 ^ 15 = q div 2 ^ 15" by (simp only: div_mult_mod_eq flip: add.assoc)
    then show ?thesis by (simp only: qs)
  qed
  have e: "even (q + c)" if "t = 0x8000"
  proof -
    have "c = q mod 2" using that c1 q2 by linarith
    then show ?thesis by presburger
  qed
  have d: "\<bar>2 * (int (q + c) * 2 ^ 16 - int (q * 2 ^ 16 + t))\<bar> = (if c = 0 then 2 * int t else 2 ^ 17 - 2 * int t)"
    using c1
  proof
    assume "c = 1 \<and> t + q mod 2 > 0x8000"
    then show ?thesis using xq(2) by simp
  qed simp
  have "\<bar>2 * (int (q + c) * 2 ^ 16 - int (q * 2 ^ 16 + t))\<bar> \<le> 2 ^ 16"
      "\<bar>2 * (int (q + c) * 2 ^ 16 - int (q * 2 ^ 16 + t))\<bar> = 2 ^ 16 \<Longrightarrow> t = 0x8000"
    unfolding d using c1 q2 by (auto split: if_splits)
  moreover have "s = (q * 2 ^ 16 + t) div 2 ^ 31" using sf(1) unfolding xq(1) .
  ultimately show ?thesis unfolding Let_def r uc hi xq(1) using e by blast
qed

theorem bfloat16_nearest_witness:
  "\<not> f32_isnan 0x3F808000 \<and>
   \<bar>2 * (int (unat (float_to_bfloat16 0x3F808000)) * 2 ^ 16 - int (unat (0x3F808000 :: f32)))\<bar> \<le> 2 ^ 16 \<and>
   unat (float_to_bfloat16 0x3F808000) div 2 ^ 15 = unat (0x3F808000 :: f32) div 2 ^ 31"
proof -
  have n: "\<not> f32_isnan 0x3F808000" by (simp add: f32_isnan_def f32_magnitude_def)
  from bfloat16_nearest [OF n, unfolded Let_def] n show ?thesis by blast
qed

text \<open>
  A NaN is not kept: the pattern \<^verbatim>\<open>0x7FFFFFFF\<close>, a NaN with all fraction bits set, becomes \<^verbatim>\<open>0x8000\<close>, which
  is minus zero, because the rounding carries through exponent and sign.
\<close>

lemma bfloat16_nan_becomes_zero:
  "f32_isnan 0x7FFFFFFF \<and> float_to_bfloat16 0x7FFFFFFF = 0x8000"
  by (simp add: f32_isnan_def f32_magnitude_def float_to_bfloat16_def)

section \<open>Q8_0 blocks\<close>

text \<open>
  \<^verbatim>\<open>dequantize_q8_0_reference\<close> and \<^verbatim>\<open>quantize_q8_0_reference\<close>. The arithmetic of \<^verbatim>\<open>float\<close> is the parameter
  \<open>fl\<close>; the block size is a constant of the operator library, the parameter \<open>bsz\<close>. \<open>None\<close> stands for
  a conversion that does not return.
\<close>

record FloatOps =
  fl_mul :: "f32 \<Rightarrow> f32 \<Rightarrow> f32"
  fl_div :: "f32 \<Rightarrow> f32 \<Rightarrow> f32"
  fl_round :: "f32 \<Rightarrow> f32"
  fl_of_int :: "int \<Rightarrow> f32"
  fl_to_int8 :: "f32 \<Rightarrow> int"

record Q8_0Block =
  q8_d_f16 :: u16
  q8_qs :: "int list"

fun dequantize_loop :: "FloatOps \<Rightarrow> nat \<Rightarrow> Q8_0Block list \<Rightarrow> f32 list option" where
  "dequantize_loop fl bsz [] = Some []"
| "dequantize_loop fl bsz (b # src) = do {
     scale \<leftarrow> half_to_float (q8_d_f16 b);
     rest \<leftarrow> dequantize_loop fl bsz src;
     Some (map (\<lambda>i. fl_mul fl scale (fl_of_int fl (q8_qs b ! i))) [0..<bsz] @ rest)
   }"

definition dequantize_q8_0_reference :: "FloatOps \<Rightarrow> nat \<Rightarrow> Q8_0Block list \<Rightarrow> nat \<Rightarrow> f32 list result option" where
  "dequantize_q8_0_reference fl bsz src dst_size =
     (if dst_size \<noteq> length src * bsz then Some (Inl InvalidArgument)
      else map_option Inr (dequantize_loop fl bsz src))"

definition f32_fabs :: "f32 \<Rightarrow> f32" where
  "f32_fabs x = x AND 0x7FFFFFFF"

definition f32_max :: "f32 \<Rightarrow> f32 \<Rightarrow> f32" where
  "f32_max a b = (if f32_lt a b then b else a)"

definition f32_ne_zero :: "f32 \<Rightarrow> bool" where
  "f32_ne_zero x \<longleftrightarrow> f32_isnan x \<or> f32_key x \<noteq> 0"

text \<open>\<open>0x42FE0000\<close> is \<^verbatim>\<open>127.0f\<close>, \<open>0xC2FE0000\<close> is \<^verbatim>\<open>-127.0f\<close>.\<close>

definition clamp_127 :: "f32 \<Rightarrow> f32" where
  "clamp_127 q = (let q = (if f32_lt 0x42FE0000 q then 0x42FE0000 else q) in if f32_lt q 0xC2FE0000 then 0xC2FE0000 else q)"

definition quantize_block :: "FloatOps \<Rightarrow> f32 list \<Rightarrow> Q8_0Block option" where
  "quantize_block fl src_block = do {
     let max_abs = fold (\<lambda>v m. f32_max m (f32_fabs v)) src_block 0;
     let scale = (if f32_lt 0 max_abs then fl_div fl max_abs 0x42FE0000 else 0);
     let d = float_to_half scale;
     actual_scale \<leftarrow> half_to_float d;
     Some \<lparr>q8_d_f16 = d, q8_qs = map (\<lambda>v. fl_to_int8 fl (clamp_127
       (if f32_ne_zero actual_scale then fl_round fl (fl_div fl v actual_scale) else 0))) src_block\<rparr>
   }"

fun quantize_loop :: "FloatOps \<Rightarrow> nat \<Rightarrow> nat \<Rightarrow> f32 list \<Rightarrow> Q8_0Block list option" where
  "quantize_loop fl bsz 0 src = Some []"
| "quantize_loop fl bsz (Suc n) src = do {
     b \<leftarrow> quantize_block fl (take bsz src);
     rest \<leftarrow> quantize_loop fl bsz n (drop bsz src);
     Some (b # rest)
   }"

definition quantize_q8_0_reference :: "FloatOps \<Rightarrow> nat \<Rightarrow> f32 list \<Rightarrow> nat \<Rightarrow> Q8_0Block list result option" where
  "quantize_q8_0_reference fl bsz src dst_size =
     (if src = [] \<or> length src mod bsz \<noteq> 0 \<or> dst_size \<noteq> length src div bsz then Some (Inl InvalidArgument)
      else map_option Inr (quantize_loop fl bsz dst_size src))"

lemma half_to_float_returns: "\<exists>x. half_to_float h = Some x"
  using half_to_float_spec by blast

lemma dequantize_loop_spec:
  "\<exists>out. dequantize_loop fl bsz src = Some out \<and> length out = length src * bsz \<and>
     (\<forall>b < length src. \<forall>i < bsz. out ! (b * bsz + i) =
        fl_mul fl (the (half_to_float (q8_d_f16 (src ! b)))) (fl_of_int fl (q8_qs (src ! b) ! i)))"
proof (induction src)
  case (Cons blk src)
  then obtain out where out: "dequantize_loop fl bsz src = Some out" "length out = length src * bsz"
    "\<forall>b < length src. \<forall>i < bsz. out ! (b * bsz + i) =
        fl_mul fl (the (half_to_float (q8_d_f16 (src ! b)))) (fl_of_int fl (q8_qs (src ! b) ! i))" by blast
  obtain x where x: "half_to_float (q8_d_f16 blk) = Some x" using half_to_float_returns by blast
  let ?hd = "map (\<lambda>i. fl_mul fl x (fl_of_int fl (q8_qs blk ! i))) [0..<bsz]"
  have "(?hd @ out) ! (b * bsz + i) =
      fl_mul fl (the (half_to_float (q8_d_f16 ((blk # src) ! b)))) (fl_of_int fl (q8_qs ((blk # src) ! b) ! i))"
    if "b < length (blk # src)" "i < bsz" for b i
    using that out(3) x by (cases b) (simp_all add: nth_append add.assoc)
  then show ?case using out x by auto
qed simp

lemma quantize_loop_spec:
  assumes "length src = n * bsz" "0 < bsz"
  shows "\<exists>out. quantize_loop fl bsz n src = Some out \<and> length out = n \<and> (\<forall>b \<in> set out. length (q8_qs b) = bsz)"
  using assms
proof (induction n arbitrary: src)
  case (Suc n)
  have "length (drop bsz src) = n * bsz" using Suc.prems by simp
  from Suc.IH [OF this Suc.prems(2)] obtain out where "quantize_loop fl bsz n (drop bsz src) = Some out" "length out = n"
      "\<forall>b \<in> set out. length (q8_qs b) = bsz"
    by blast
  moreover obtain blk where "quantize_block fl (take bsz src) = Some blk" "length (q8_qs blk) = bsz"
  proof -
    obtain x where x: "half_to_float (float_to_half (if f32_lt 0 (fold (\<lambda>v m. f32_max m (f32_fabs v)) (take bsz src) 0)
        then fl_div fl (fold (\<lambda>v m. f32_max m (f32_fabs v)) (take bsz src) 0) 0x42FE0000 else 0)) = Some x"
      using half_to_float_returns by blast
    show thesis by (rule that) (use x Suc.prems in \<open>auto simp: quantize_block_def Let_def\<close>)
  qed
  ultimately show ?case by simp
qed simp


text \<open>Float operations that only keep patterns, to instantiate the parameter.\<close>

definition model_float_ops :: FloatOps where
  "model_float_ops = \<lparr>fl_mul = (\<lambda>x y. x), fl_div = (\<lambda>x y. x), fl_round = (\<lambda>x. x), fl_of_int = word_of_int, fl_to_int8 = (\<lambda>x. 0)\<rparr>"


end
