(* ===== verification/Model_Config.thy ===== *)
theory Model_Config
  imports Float_Bits
begin

text \<open>
  \<^verbatim>\<open>src/src/config/model_config.{h,cpp}\<close>, the layer numbering of \<^verbatim>\<open>src/src/model/qwen35/qwen35_model.cpp\<close> and
  the model registry \<^verbatim>\<open>src/src/model/registry.cpp\<close>.
\<close>

datatype ModelArch = Arch_Qwen3 | Arch_Qwen3_5 | Arch_Unknown

datatype LayerType = FullAttention | GatedDeltaNet | MtpPredictor

record ModelConfig =
  mc_arch :: ModelArch
  mc_n_layers :: int
  mc_n_q_heads :: int
  mc_n_kv_heads :: int
  mc_d_model :: int
  mc_head_dim :: int
  mc_rotary_dim :: int
  mc_d_ff :: int
  mc_vocab_size :: int
  mc_max_seq_len :: int
  mc_rope_theta :: f32
  mc_rms_norm_eps :: f32
  mc_full_attention_interval :: int
  mc_nextn_predict_layers :: int
  mc_ssm_conv_kernel :: int
  mc_ssm_state_size :: int
  mc_ssm_group_count :: int
  mc_ssm_time_step_rank :: int
  mc_ssm_inner_size :: int
  mc_layer_types :: "LayerType list"

text \<open>\<open>0x461C4000\<close> is \<^verbatim>\<open>10000.0f\<close> and \<open>0x358637BD\<close> is \<^verbatim>\<open>1e-6f\<close>.\<close>

definition default_model_config :: ModelConfig where
  "default_model_config = \<lparr>mc_arch = Arch_Unknown, mc_n_layers = 0, mc_n_q_heads = 0, mc_n_kv_heads = 0, mc_d_model = 0, mc_head_dim = 0,
     mc_rotary_dim = 0, mc_d_ff = 0, mc_vocab_size = 0, mc_max_seq_len = 0, mc_rope_theta = 0x461C4000, mc_rms_norm_eps = 0x358637BD,
     mc_full_attention_interval = 0, mc_nextn_predict_layers = 0, mc_ssm_conv_kernel = 0, mc_ssm_state_size = 0,
     mc_ssm_group_count = 0, mc_ssm_time_step_rank = 0, mc_ssm_inner_size = 0, mc_layer_types = []\<rparr>"

definition arch_name :: "ModelConfig \<Rightarrow> string" where
  "arch_name c = (case mc_arch c of Arch_Qwen3 \<Rightarrow> ''qwen3'' | Arch_Qwen3_5 \<Rightarrow> ''qwen35'' | Arch_Unknown \<Rightarrow> ''unknown'')"

text \<open>
  \<^verbatim>\<open>ModelConfig::validate\<close>. The loop over the layer types accepts the three values of the enumeration,
  so it never fails on a value of the type.
\<close>

definition model_validate :: "ModelConfig \<Rightarrow> unit result option" where
  "model_validate c =
     (if mc_arch c = Arch_Unknown then Some (Inl ModelUnsupportedArch)
      else if mc_n_layers c \<le> 0 \<or> mc_n_q_heads c \<le> 0 \<or> mc_n_kv_heads c \<le> 0 \<or> mc_head_dim c \<le> 0 \<or> mc_d_model c \<le> 0 \<or> mc_d_ff c \<le> 0 \<or>
        mc_vocab_size c \<le> 0 \<or> mc_max_seq_len c \<le> 0 then Some (Inl ModelConfigInvalid)
      else if mc_n_kv_heads c > mc_n_q_heads c \<or> mc_n_q_heads c mod mc_n_kv_heads c \<noteq> 0 then Some (Inl ModelConfigInvalid)
      else if \<not> f32_isfinite (mc_rope_theta c) \<or> f32_le (mc_rope_theta c) 0 \<or> \<not> f32_isfinite (mc_rms_norm_eps c) \<or>
        f32_le (mc_rms_norm_eps c) 0 then Some (Inl ModelConfigInvalid)
      else if mc_arch c = Arch_Qwen3_5 then
        if mc_full_attention_interval c \<le> 0 \<or> mc_ssm_conv_kernel c \<le> 0 \<or> mc_ssm_state_size c \<le> 0 \<or> mc_ssm_group_count c \<le> 0 \<or>
          mc_ssm_time_step_rank c \<le> 0 \<or> mc_ssm_inner_size c \<le> 0 \<or> mc_rotary_dim c \<le> 0 \<or> mc_rotary_dim c > mc_head_dim c \<or>
          mc_rotary_dim c mod 2 \<noteq> 0 then Some (Inl ModelConfigInvalid)
        else if mc_ssm_inner_size c mod mc_ssm_time_step_rank c \<noteq> 0 \<or>
          mc_ssm_inner_size c div mc_ssm_time_step_rank c \<noteq> mc_ssm_state_size c then Some (Inl ModelConfigInvalid)
        else do {
          require (mc_n_layers c + mc_nextn_predict_layers c \<le> INT_MAX);
          if int (length (mc_layer_types c)) \<noteq> mc_n_layers c + mc_nextn_predict_layers c then Some (Inl ModelConfigInvalid)
          else if list_all (\<lambda>t. t = FullAttention \<or> t = GatedDeltaNet \<or> t = MtpPredictor) (mc_layer_types c)
          then Some (Inr ()) else Some (Inl ModelConfigInvalid)
        }
      else Some (Inr ()))"

section \<open>Layer numbering\<close>

fun count_loop :: "LayerType \<Rightarrow> LayerType list \<Rightarrow> int \<Rightarrow> int \<Rightarrow> int" where
  "count_loop type [] left count = count"
| "count_loop type (t # ts) left count =
     (if left \<le> 0 then count else count_loop type ts (left - 1) (if t = type then count + 1 else count))"

definition count_layer_type :: "bool \<Rightarrow> ModelConfig \<Rightarrow> LayerType \<Rightarrow> int option" where
  "count_layer_type dbg c type = do {
     assert_that dbg (mc_arch c = Arch_Qwen3_5);
     Some (count_loop type (mc_layer_types c) (mc_n_layers c) 0)
   }"

definition index_for_layer_type :: "bool \<Rightarrow> ModelConfig \<Rightarrow> int \<Rightarrow> LayerType \<Rightarrow> int option" where
  "index_for_layer_type dbg c layer type = do {
     assert_that dbg (mc_arch c = Arch_Qwen3_5);
     assert_that dbg (layer \<ge> 0 \<and> layer < mc_n_layers c);
     assert_that dbg (layer < int (length (mc_layer_types c)));
     require (layer \<le> int (length (mc_layer_types c)));
     assert_that dbg (mc_layer_types c ! nat layer = type);
     Some (count_loop type (mc_layer_types c) layer 0)
   }"

definition num_kv_layers :: "bool \<Rightarrow> ModelConfig \<Rightarrow> int option" where
  "num_kv_layers dbg c = count_layer_type dbg c FullAttention"

definition kv_layer_index :: "bool \<Rightarrow> ModelConfig \<Rightarrow> int \<Rightarrow> int option" where
  "kv_layer_index dbg c layer = index_for_layer_type dbg c layer FullAttention"

definition num_gdn_layers :: "bool \<Rightarrow> ModelConfig \<Rightarrow> int option" where
  "num_gdn_layers dbg c = count_layer_type dbg c GatedDeltaNet"

definition gdn_layer_index :: "bool \<Rightarrow> ModelConfig \<Rightarrow> int \<Rightarrow> int option" where
  "gdn_layer_index dbg c layer = index_for_layer_type dbg c layer GatedDeltaNet"

section \<open>The registry\<close>

text \<open>A registry maps names to creators; a creator is a function of the configuration.\<close>

type_synonym 'm registry = "string \<rightharpoonup> (ModelConfig \<Rightarrow> 'm)"

definition register_model :: "string \<Rightarrow> (ModelConfig \<Rightarrow> 'm) \<Rightarrow> 'm registry \<Rightarrow> 'm registry" where
  "register_model arch creator r = r(arch \<mapsto> creator)"

definition registry_create :: "ModelConfig \<Rightarrow> ('s, 'a) act registry \<Rightarrow> ('s, 'a) act" where
  "registry_create c r = (case r (arch_name c) of None \<Rightarrow> fail ModelUnsupportedArch | Some creator \<Rightarrow> creator c)"

definition register_builtin_models :: "(ModelConfig \<Rightarrow> 'm) \<Rightarrow> 'm registry \<Rightarrow> 'm registry" where
  "register_builtin_models qwen3_create r = register_model ''qwen3'' qwen3_create r"

section \<open>The numbering is a bijection\<close>

lemma count_loop_spec: "count_loop type ts left count = count + int (length (filter ((=) type) (take (nat left) ts)))"
proof (induction ts arbitrary: left count)
  case (Cons t ts)
  show ?case
  proof (cases "left \<le> 0")
    case False
    then have "nat left = Suc (nat (left - 1))" by simp
    then show ?thesis using False Cons.IH by auto
  qed simp
qed simp

lemma rank_less: "i < j \<Longrightarrow> i < length xs \<Longrightarrow> xs ! i = a \<Longrightarrow> length (filter ((=) a) (take i xs)) < length (filter ((=) a) (take j xs))"
proof -
  assume a: "i < j" "i < length xs" "xs ! i = a"
  then have "take j xs = take i xs @ xs ! i # take (j - Suc i) (drop (Suc i) xs)"
    by (metis Suc_leI Cons_nth_drop_Suc add_diff_cancel_left' le_add_diff_inverse less_imp_le take_Suc_Cons take_add Suc_diff_Suc)
  then show ?thesis using a(3) by simp
qed

lemma rank_surj: "k < length (filter ((=) a) (take n xs)) \<Longrightarrow>
    \<exists>i < n. i < length xs \<and> xs ! i = a \<and> length (filter ((=) a) (take i xs)) = k"
proof (induction n)
  case (Suc n)
  show ?case
  proof (cases "k < length (filter ((=) a) (take n xs))")
    case True
    then show ?thesis using Suc.IH less_Suc_eq by blast
  next
    case False
    then have n: "n < length xs" "xs ! n = a" using Suc.prems by (cases "n < length xs"; simp add: take_Suc_conv_app_nth split: if_splits)+
    then have "k = length (filter ((=) a) (take n xs))" using False Suc.prems by (simp add: take_Suc_conv_app_nth)
    then show ?thesis using n by blast
  qed
qed simp

lemma model_validate_ok:
  assumes "model_validate c = Some (Inr ())"
  shows "mc_arch c \<noteq> Arch_Unknown" "0 < mc_n_layers c" "0 < mc_n_q_heads c" "0 < mc_n_kv_heads c" "0 < mc_head_dim c" "0 < mc_d_model c" "0 < mc_d_ff c"
    "0 < mc_vocab_size c" "0 < mc_max_seq_len c" "mc_n_q_heads c mod mc_n_kv_heads c = 0"
    "mc_arch c = Arch_Qwen3_5 \<Longrightarrow> int (length (mc_layer_types c)) = mc_n_layers c + mc_nextn_predict_layers c"
    "mc_arch c = Arch_Qwen3_5 \<Longrightarrow> 0 < mc_ssm_conv_kernel c \<and> 0 < mc_ssm_state_size c \<and> 0 < mc_ssm_group_count c \<and> 0 < mc_ssm_time_step_rank c \<and>
       mc_ssm_inner_size c = mc_ssm_time_step_rank c * mc_ssm_state_size c"
  using assms
  by (auto simp: model_validate_def split: if_splits bind_splits)

lemma numbering_bij:
  fixes ty :: LayerType
  assumes v: "model_validate c = Some (Inr ())" and a: "mc_arch c = Arch_Qwen3_5" and mtp: "0 \<le> mc_nextn_predict_layers c"
  defines "L \<equiv> {l. 0 \<le> l \<and> l < mc_n_layers c \<and> mc_layer_types c ! nat l = ty}"
  shows "\<exists>n. count_layer_type dbg c ty = Some n \<and> (\<forall>l \<in> L. index_for_layer_type dbg c l ty \<noteq> None) \<and>
    bij_betw (\<lambda>l. the (index_for_layer_type dbg c l ty)) L {0..<n}"
proof -
  let ?ts = "mc_layer_types c" and ?N = "nat (mc_n_layers c)"
  let ?rank = "\<lambda>i. length (filter ((=) ty) (take i ?ts))"
  have len: "?N \<le> length ?ts" using model_validate_ok(11) [OF v a] mtp by linarith
  have idx: "index_for_layer_type dbg c l ty = Some (int (?rank (nat l)))" if "l \<in> L" for l
    using that len a by (auto simp: index_for_layer_type_def count_loop_spec L_def require_def)
  have "bij_betw (\<lambda>l. int (?rank (nat l))) L {0..<int (?rank ?N)}"
    unfolding bij_betw_def
  proof
    show "inj_on (\<lambda>l. int (?rank (nat l))) L"
    proof (rule inj_onI)
      fix x y assume x: "x \<in> L" and y: "y \<in> L" and eq: "int (?rank (nat x)) = int (?rank (nat y))"
      have "?rank (nat x) < ?rank (nat y)" if "nat x < nat y" using that x len by (intro rank_less) (auto simp: L_def)
      moreover have "?rank (nat y) < ?rank (nat x)" if "nat y < nat x" using that y len by (intro rank_less) (auto simp: L_def)
      ultimately have "nat x = nat y" using eq by (cases "nat x" "nat y" rule: linorder_cases) simp_all
      then show "x = y" using x y by (auto simp: L_def)
    qed
    show "(\<lambda>l. int (?rank (nat l))) ` L = {0..<int (?rank ?N)}"
    proof (intro equalityI subsetI)
      fix k assume "k \<in> (\<lambda>l. int (?rank (nat l))) ` L"
      then obtain l where l: "l \<in> L" "k = int (?rank (nat l))" by blast
      then have "?rank (nat l) < ?rank ?N" using len by (intro rank_less) (auto simp: L_def)
      then show "k \<in> {0..<int (?rank ?N)}" using l(2) by simp
    next
      fix k assume k: "k \<in> {0..<int (?rank ?N)}"
      then have "nat k < ?rank ?N" by auto
      from rank_surj [OF this] obtain i where "i < ?N" "?ts ! i = ty" "?rank i = nat k" by blast
      then show "k \<in> (\<lambda>l. int (?rank (nat l))) ` L" using k
        by (intro image_eqI [of _ _ "int i"]) (auto simp: L_def)
    qed
  qed
  moreover have "count_layer_type dbg c ty = Some (int (?rank ?N))"
    using a by (simp add: count_layer_type_def count_loop_spec)
  ultimately show ?thesis
    using idx bij_betw_cong [of L "\<lambda>l. the (index_for_layer_type dbg c l ty)" "\<lambda>l. int (?rank (nat l))"] by simp
qed

text \<open>
  C23. In a validated hybrid model every full-attention layer gets its own KV layer and every
  gated-delta layer its own state layer: the numberings are defined in both builds and map the layers
  of the type one to one onto \<open>0 ..< n\<close>, where \<open>n\<close> is the number of KV (state) layers allocated.
\<close>

theorem layer_numbering_bij:
  assumes "model_validate c = Some (Inr ())" "mc_arch c = Arch_Qwen3_5" "0 \<le> mc_nextn_predict_layers c"
  shows "\<exists>kv gdn. num_kv_layers dbg c = Some kv \<and> num_gdn_layers dbg c = Some gdn \<and>
    bij_betw (\<lambda>l. the (kv_layer_index dbg c l)) {l. 0 \<le> l \<and> l < mc_n_layers c \<and> mc_layer_types c ! nat l = FullAttention} {0..<kv} \<and>
    bij_betw (\<lambda>l. the (gdn_layer_index dbg c l)) {l. 0 \<le> l \<and> l < mc_n_layers c \<and> mc_layer_types c ! nat l = GatedDeltaNet} {0..<gdn}"
  using numbering_bij [OF assms, of dbg FullAttention] numbering_bij [OF assms, of dbg GatedDeltaNet]
  by (auto simp: num_kv_layers_def num_gdn_layers_def kv_layer_index_def gdn_layer_index_def)

definition hybrid_config :: ModelConfig where
  "hybrid_config = default_model_config\<lparr>mc_arch := Arch_Qwen3_5, mc_n_layers := 4, mc_n_q_heads := 2, mc_n_kv_heads := 1, mc_d_model := 64,
     mc_head_dim := 32, mc_rotary_dim := 32, mc_d_ff := 64, mc_vocab_size := 100, mc_max_seq_len := 128,
     mc_full_attention_interval := 4, mc_ssm_conv_kernel := 4, mc_ssm_state_size := 16, mc_ssm_group_count := 1,
     mc_ssm_time_step_rank := 2, mc_ssm_inner_size := 32,
     mc_layer_types := [GatedDeltaNet, GatedDeltaNet, GatedDeltaNet, FullAttention]\<rparr>"

lemma hybrid_config_ok: "model_validate hybrid_config = Some (Inr ())"
  by (simp add: model_validate_def hybrid_config_def default_model_config_def f32_isfinite_def f32_le_def f32_key_def
      f32_magnitude_def f32_isnan_def INT_MAX_def)

theorem layer_numbering_bij_witness:
  "\<exists>kv gdn. num_kv_layers True hybrid_config = Some kv \<and> num_gdn_layers True hybrid_config = Some gdn \<and>
    bij_betw (\<lambda>l. the (gdn_layer_index True hybrid_config l))
      {l. 0 \<le> l \<and> l < mc_n_layers hybrid_config \<and> mc_layer_types hybrid_config ! nat l = GatedDeltaNet} {0..<gdn}"
proof -
  have "mc_arch hybrid_config = Arch_Qwen3_5" "0 \<le> mc_nextn_predict_layers hybrid_config"
    by (simp_all add: hybrid_config_def default_model_config_def)
  from layer_numbering_bij [OF hybrid_config_ok this, of True] show ?thesis by blast
qed

text \<open>
  The server cannot serve a Qwen3.5 model: the built-in registration knows one name, so creating
  a model for the hybrid architecture returns \<^term>\<open>ModelUnsupportedArch\<close> without touching the device,
  whatever the registered constructor does.
\<close>

lemma qwen35_not_registered:
  "mc_arch c = Arch_Qwen3_5 \<Longrightarrow>
   registry_create c (register_builtin_models qwen3_create Map.empty) d = Some (Inl ModelUnsupportedArch, d)"
  by (simp add: registry_create_def register_builtin_models_def register_model_def arch_name_def fail_def)

end
