(* ===== verification/State_Pool.thy ===== *)
theory State_Pool
  imports Block_Storage Model_Config Base_Types "HOL-Library.Signed_Division"
begin

text \<open>
  The recurrent state of hybrid models: \<^verbatim>\<open>src/src/state/state.h\<close>, \<^verbatim>\<open>state_storage.{h,cpp}\<close> and
  \<^verbatim>\<open>state_pool.{h,cpp}\<close>. The free lists are intrusive lists of the metadata records; here they are lists of
  their ids. Buffers that a failed construction gives back are not logged.
\<close>

type_synonym StateId = int

definition kInvalidStateId :: StateId where
  "kInvalidStateId = -1"

datatype StateKind = Mutable | Snapshot

datatype StateStatus = St_Free | St_InUse

record State =
  s_id :: StateId
  s_kind :: StateKind
  s_status :: StateStatus

definition state_default :: State where
  "state_default = \<lparr>s_id = kInvalidStateId, s_kind = Mutable, s_status = St_Free\<rparr>"

section \<open>Storage\<close>

record StateStorage =
  sg_recurrent :: "Tensor list"
  sg_conv :: "Tensor list"
  sg_num_gdn_layers :: int
  sg_num_states :: int

definition count_gdn_layers :: "ModelConfig \<Rightarrow> int" where
  "count_gdn_layers c = count_loop GatedDeltaNet (mc_layer_types c) (mc_n_layers c) 0"

definition tensor_nbytes :: "Ccop \<Rightarrow> Tensor \<Rightarrow> nat" where
  "tensor_nbytes co t = co_nbytes co (t_dtype t) (t_shape t)"

definition state_bytes :: "bool \<Rightarrow> Ccop \<Rightarrow> Tensor \<Rightarrow> int \<Rightarrow> nat option" where
  "state_bytes dbg co t num_states = do {
     assert_that dbg (num_states > 0);
     require (num_states \<noteq> 0);
     Some (tensor_nbytes co t div nat (size_cast num_states))
   }"

text \<open>One layer: both tensors are allocated, then cleared.\<close>

definition state_layer :: "bool \<Rightarrow> Ccop \<Rightarrow> int list \<Rightarrow> int list \<Rightarrow> (Device, Tensor \<times> Tensor) act" where
  "state_layer dbg co rec_shape conv_shape =
     and_then (tensor_empty dbg co DT_Float32 rec_shape) (\<lambda>r.
     and_then (tensor_empty dbg co DT_BFloat16 conv_shape) (\<lambda>c.
     and_then (backend_memset dbg (t_data r) 0 (tensor_nbytes co r)) (\<lambda>_.
     and_then (backend_memset dbg (t_data c) 0 (tensor_nbytes co c)) (\<lambda>_. ret (r, c)))))"

fun state_layers :: "bool \<Rightarrow> Ccop \<Rightarrow> int list \<Rightarrow> int list \<Rightarrow> nat \<Rightarrow> (Device, (Tensor \<times> Tensor) list) act" where
  "state_layers dbg co rec_shape conv_shape 0 = ret []"
| "state_layers dbg co rec_shape conv_shape (Suc n) =
     and_then (state_layer dbg co rec_shape conv_shape) (\<lambda>l.
     and_then (state_layers dbg co rec_shape conv_shape n) (\<lambda>ls. ret (l # ls)))"

definition state_storage_create :: "bool \<Rightarrow> Ccop \<Rightarrow> ModelConfig \<Rightarrow> int \<Rightarrow> (Device, StateStorage) act" where
  "state_storage_create dbg co c max_states =
     (if mc_arch c \<noteq> Arch_Qwen3_5 \<or> max_states \<le> 0 then fail InvalidArgument
      else let n_gdn = count_gdn_layers c in
      if n_gdn \<le> 0 then fail InvalidArgument
      else let n_v = mc_ssm_time_step_rank c; head_k = mc_ssm_state_size c;
        head_v = mc_ssm_inner_size c sdiv mc_ssm_time_step_rank c;
        key_dim = mc_ssm_group_count c * head_k; value_dim = n_v * head_v;
        conv_dim = 2 * key_dim + value_dim; conv_state_len = mc_ssm_conv_kernel c - 1 in
      and_then (check (require (n_v \<noteq> 0 \<and> conv_dim \<le> INT_MAX))) (\<lambda>_.
      and_then (state_layers dbg co [max_states, n_v, head_k, head_v] [max_states, conv_dim, conv_state_len] (nat n_gdn)) (\<lambda>ls.
      and_then synchronize (\<lambda>_.
      ret \<lparr>sg_recurrent = map fst ls, sg_conv = map snd ls, sg_num_gdn_layers = n_gdn, sg_num_states = max_states\<rparr>))))"

definition recurrent_state :: "bool \<Rightarrow> StateStorage \<Rightarrow> int \<Rightarrow> Tensor option" where
  "recurrent_state dbg st gdn_layer = do {
     assert_that dbg (gdn_layer \<ge> 0 \<and> gdn_layer < sg_num_gdn_layers st);
     require (gdn_layer \<ge> 0 \<and> gdn_layer < int (length (sg_recurrent st)));
     Some (sg_recurrent st ! nat gdn_layer)
   }"

definition conv_state :: "bool \<Rightarrow> StateStorage \<Rightarrow> int \<Rightarrow> Tensor option" where
  "conv_state dbg st gdn_layer = do {
     assert_that dbg (gdn_layer \<ge> 0 \<and> gdn_layer < sg_num_gdn_layers st);
     require (gdn_layer \<ge> 0 \<and> gdn_layer < int (length (sg_conv st)));
     Some (sg_conv st ! nat gdn_layer)
   }"

definition zero_layer :: "bool \<Rightarrow> Ccop \<Rightarrow> int \<Rightarrow> StateId \<Rightarrow> Tensor \<Rightarrow> (Device, unit) act" where
  "zero_layer dbg co num_states state layer =
     and_then (lift_opt (state_bytes dbg co layer num_states)) (\<lambda>bytes.
     backend_memset dbg (t_data layer + size_mul (nat state) bytes) 0 bytes)"

definition zero_state :: "bool \<Rightarrow> Ccop \<Rightarrow> StateStorage \<Rightarrow> StateId \<Rightarrow> (Device, unit) act" where
  "zero_state dbg co st state =
     (if state < 0 \<or> state \<ge> sg_num_states st then fail InvalidArgument
      else and_then (each (zero_layer dbg co (sg_num_states st) state) (sg_recurrent st)) (\<lambda>_.
        each (zero_layer dbg co (sg_num_states st) state) (sg_conv st)))"

definition copy_layer :: "bool \<Rightarrow> Ccop \<Rightarrow> int \<Rightarrow> StateId \<Rightarrow> StateId \<Rightarrow> Tensor \<Rightarrow> (Device, unit) act" where
  "copy_layer dbg co num_states src_state dst_state layer =
     and_then (lift_opt (state_bytes dbg co layer num_states)) (\<lambda>bytes.
     memcpy_d2d dbg (t_data layer + size_mul (nat dst_state) bytes) (t_data layer + size_mul (nat src_state) bytes) bytes)"

definition copy_state :: "bool \<Rightarrow> Ccop \<Rightarrow> StateStorage \<Rightarrow> StateId \<Rightarrow> StateId \<Rightarrow> (Device, unit) act" where
  "copy_state dbg co st src_state dst_state =
     (if src_state < 0 \<or> src_state \<ge> sg_num_states st \<or> dst_state < 0 \<or> dst_state \<ge> sg_num_states st then fail InvalidArgument
      else and_then (each (copy_layer dbg co (sg_num_states st) src_state dst_state) (sg_recurrent st)) (\<lambda>_.
        each (copy_layer dbg co (sg_num_states st) src_state dst_state) (sg_conv st)))"

section \<open>The pool\<close>

record StatePool =
  sp_storage :: StateStorage
  sp_states :: "State list"
  sp_max_active :: int
  sp_max_snapshots :: int
  sp_mutable_free :: "StateId list"
  sp_snapshot_free :: "StateId list"
  sp_active_by_seq :: "SequenceId \<rightharpoonup> StateId"

definition state_meta :: "int \<Rightarrow> int \<Rightarrow> State" where
  "state_meta max_active i = \<lparr>s_id = i, s_kind = (if i < max_active then Mutable else Snapshot), s_status = St_Free\<rparr>"

definition pool_of_states :: "StateStorage \<Rightarrow> int \<Rightarrow> int \<Rightarrow> StatePool" where
  "pool_of_states storage max_active max_snapshots =
     (let states = map (\<lambda>i. state_meta max_active (int i)) [0..<nat (max_active + max_snapshots)] in
      \<lparr>sp_storage = storage, sp_states = states, sp_max_active = max_active, sp_max_snapshots = max_snapshots,
       sp_mutable_free = map s_id (filter (\<lambda>m. s_kind m = Mutable) states),
       sp_snapshot_free = map s_id (filter (\<lambda>m. s_kind m \<noteq> Mutable) states),
       sp_active_by_seq = Map.empty\<rparr>)"

definition state_pool_create :: "bool \<Rightarrow> Ccop \<Rightarrow> ModelConfig \<Rightarrow> int \<Rightarrow> int \<Rightarrow> (Device, StatePool) act" where
  "state_pool_create dbg co c max_active max_snapshots =
     (if max_active \<le> 0 \<or> max_snapshots < 0 then fail InvalidArgument
      else and_then (check (require (max_active + max_snapshots \<le> INT_MAX))) (\<lambda>_.
        and_then (state_storage_create dbg co c (max_active + max_snapshots)) (\<lambda>storage.
        ret (pool_of_states storage max_active max_snapshots))))"

text \<open>Operations on pool and device together.\<close>

definition on_device :: "(Device, 'a) act \<Rightarrow> (StatePool \<times> Device, 'a) act" where
  "on_device m = (\<lambda>(p, d). case m d of None \<Rightarrow> None | Some (r, d') \<Rightarrow> Some (r, (p, d')))"

definition set_status :: "StateId \<Rightarrow> StateStatus \<Rightarrow> StatePool \<Rightarrow> StatePool" where
  "set_status s v p = p\<lparr>sp_states := (sp_states p)[nat s := (sp_states p ! nat s)\<lparr>s_status := v\<rparr>]\<rparr>"

definition acquire_active :: "bool \<Rightarrow> Ccop \<Rightarrow> SequenceId \<Rightarrow> (StatePool \<times> Device, unit) act" where
  "acquire_active dbg co seq = (\<lambda>(p, d).
     if sp_active_by_seq p seq \<noteq> None then Some (Inr (), (p, d))
     else case sp_mutable_free p of
       [] \<Rightarrow> Some (Inl MaxSequencesReached, (p, d))
     | state # rest \<Rightarrow>
         let m = sp_states p ! nat state; p = p\<lparr>sp_mutable_free := rest\<rparr> in
         and_then (check (assert_that dbg (s_status m = St_Free \<and> s_kind m = Mutable))) (\<lambda>_.
         and_then (or_else (on_device (zero_state dbg co (sp_storage p) state))
             (\<lambda>e (p, d). fail e (p\<lparr>sp_mutable_free := sp_mutable_free p @ [state]\<rparr>, d))) (\<lambda>_ (p, d).
         ret () ((set_status state St_InUse p)\<lparr>sp_active_by_seq := (sp_active_by_seq p)(seq \<mapsto> state)\<rparr>, d))) (p, d))"

definition release_active :: "bool \<Rightarrow> SequenceId \<Rightarrow> (StatePool \<times> Device, unit) act" where
  "release_active dbg seq = (\<lambda>(p, d). case sp_active_by_seq p seq of
     None \<Rightarrow> Some (Inr (), (p, d))
   | Some state \<Rightarrow>
       let p = p\<lparr>sp_active_by_seq := (sp_active_by_seq p)(seq := None)\<rparr> in
       and_then (check (assert_that dbg (state \<ge> 0 \<and> state < sp_max_active p))) (\<lambda>_.
       and_then (check (require (0 \<le> state \<and> state < int (length (sp_states p))))) (\<lambda>_.
       and_then (check (assert_that dbg (s_status (sp_states p ! nat state) = St_InUse \<and> s_kind (sp_states p ! nat state) = Mutable))) (\<lambda>_.
       and_then (check (require (state \<notin> set (sp_mutable_free p)))) (\<lambda>_ (p, d).
       ret () ((set_status state St_Free p)\<lparr>sp_mutable_free := sp_mutable_free p @ [state]\<rparr>, d))))) (p, d))"

definition active_state_of :: "StatePool \<Rightarrow> SequenceId \<Rightarrow> StateId option" where
  "active_state_of p seq = sp_active_by_seq p seq"

definition acquire_snapshot :: "bool \<Rightarrow> (StatePool \<times> Device, StateId) act" where
  "acquire_snapshot dbg = (\<lambda>(p, d). case sp_snapshot_free p of
     [] \<Rightarrow> Some (Inl MaxSequencesReached, (p, d))
   | state # rest \<Rightarrow>
       and_then (check (assert_that dbg (s_status (sp_states p ! nat state) = St_Free \<and> s_kind (sp_states p ! nat state) = Snapshot)))
         (\<lambda>_ (p, d). ret state (set_status state St_InUse (p\<lparr>sp_snapshot_free := rest\<rparr>), d)) (p, d))"

definition release_snapshot :: "bool \<Rightarrow> StateId \<Rightarrow> (StatePool \<times> Device, unit) act" where
  "release_snapshot dbg state = (\<lambda>(p, d).
     if state < sp_max_active p \<or> state \<ge> sp_max_active p + sp_max_snapshots p then Some (Inl InvalidArgument, (p, d))
     else and_then (check (assert_that dbg (s_status (sp_states p ! nat state) = St_InUse \<and> s_kind (sp_states p ! nat state) = Snapshot))) (\<lambda>_.
       and_then (check (require (state \<notin> set (sp_snapshot_free p)))) (\<lambda>_ (p, d).
       ret () ((set_status state St_Free p)\<lparr>sp_snapshot_free := sp_snapshot_free p @ [state]\<rparr>, d))) (p, d))"

definition snapshot_range :: "StatePool \<Rightarrow> StateId \<Rightarrow> StateId \<Rightarrow> bool" where
  "snapshot_range p active snapshot \<longleftrightarrow> \<not> (active < 0 \<or> active \<ge> sp_max_active p) \<and>
     \<not> (snapshot < sp_max_active p \<or> snapshot \<ge> sp_max_active p + sp_max_snapshots p)"

definition copy_active_to_snapshot :: "bool \<Rightarrow> Ccop \<Rightarrow> StateId \<Rightarrow> StateId \<Rightarrow> (StatePool \<times> Device, unit) act" where
  "copy_active_to_snapshot dbg co active snapshot = (\<lambda>(p, d).
     if \<not> snapshot_range p active snapshot then Some (Inl InvalidArgument, (p, d))
     else on_device (copy_state dbg co (sp_storage p) active snapshot) (p, d))"

definition restore_snapshot_to_active :: "bool \<Rightarrow> Ccop \<Rightarrow> StateId \<Rightarrow> StateId \<Rightarrow> (StatePool \<times> Device, unit) act" where
  "restore_snapshot_to_active dbg co snapshot active = (\<lambda>(p, d).
     if \<not> snapshot_range p active snapshot then Some (Inl InvalidArgument, (p, d))
     else on_device (copy_state dbg co (sp_storage p) snapshot active) (p, d))"

definition num_free_snapshots :: "StatePool \<Rightarrow> int" where
  "num_free_snapshots p = int (length (sp_snapshot_free p))"

section \<open>Slices of the storage\<close>

text \<open>Every layer tensor is divided evenly among the states.\<close>

definition slice_bytes :: "Ccop \<Rightarrow> int \<Rightarrow> Tensor \<Rightarrow> nat" where
  "slice_bytes co n t = tensor_nbytes co t div nat n"

definition slice_at :: "Ccop \<Rightarrow> int \<Rightarrow> StateId \<Rightarrow> Tensor \<Rightarrow> nat" where
  "slice_at co n s t = t_data t + nat s * slice_bytes co n t"

definition layer_wf :: "Ccop \<Rightarrow> int \<Rightarrow> Tensor \<Rightarrow> bool" where
  "layer_wf co n t \<longleftrightarrow> t_data t \<noteq> 0 \<and> tensor_nbytes co t \<le> SIZE_MAX \<and> nat n dvd tensor_nbytes co t \<and> 0 < tensor_nbytes co t"

definition storage_wf :: "Ccop \<Rightarrow> StateStorage \<Rightarrow> bool" where
  "storage_wf co st \<longleftrightarrow> 0 < sg_num_states st \<and> sg_num_states st \<le> INT_MAX \<and>
     list_all (layer_wf co (sg_num_states st)) (sg_recurrent st @ sg_conv st)"

text \<open>\<open>does_some d css r d'\<close>: a sequence of steps stops at its first failure.\<close>

definition does_some :: "Device \<Rightarrow> DeviceCmd list list \<Rightarrow> unit result \<Rightarrow> Device \<Rightarrow> bool" where
  "does_some d css r d' \<longleftrightarrow> (\<exists>pre suf. css = pre @ suf \<and> extends d d' (concat pre)) \<and> r \<noteq> Inl Ok \<and>
     (r = Inr () \<longrightarrow> extends d d' (concat css)) \<and> (healthy d \<longrightarrow> r = Inr ())"

lemma does_some_append:
  assumes "does_some d css (Inr ()) d1" "does_some d1 css' r d2"
  shows "does_some d (css @ css') r d2"
proof -
  obtain pre suf where p: "css' = pre @ suf" "extends d1 d2 (concat pre)" using assms(2) by (auto simp: does_some_def)
  have e: "extends d d1 (concat css)" using assms(1) by (simp add: does_some_def)
  have "extends d d2 (concat (css @ pre))" using extends_trans [OF e p(2)] by simp
  then have "\<exists>pre suf. css @ css' = pre @ suf \<and> extends d d2 (concat pre)" using p(1) by (intro exI [of _ "css @ pre"] exI [of _ suf]) simp
  moreover have "extends d d2 (concat (css @ css'))" if "r = Inr ()"
    using extends_trans [OF e, of d2 "concat css'"] assms(2) that by (simp add: does_some_def)
  ultimately show ?thesis
    using assms healthy_extends [OF e] unfolding does_some_def by blast
qed

lemma does_some_stop:
  assumes "does_some d css (Inl e) d1"
  shows "does_some d (css @ css') (Inl e) d1"
  using assms unfolding does_some_def by (metis append_assoc sum.distinct(1))

lemma does_some_single: "does d c r d1 \<Longrightarrow> does_some d [c] r d1"
  by (cases r) (auto simp: does_some_def does_def intro: exI [of _ "[c]"])

lemma each_does:
  assumes "\<And>x d. x \<in> set xs \<Longrightarrow> runs (f x) d (does d (g x))"
  shows "runs (each f xs) d (does_some d (map g xs))"
  using assms
proof (induction xs arbitrary: d)
  case Nil
  then show ?case by (auto simp: does_some_def)
next
  case (Cons x xs)
  show ?case
    unfolding each.simps
  proof (rule runs_and_thenI [OF Cons.prems])
    fix u d1 assume "does d (g x) (Inr u) d1"
    then have d1: "does_some d [g x] (Inr ()) d1" using does_some_single by simp
    show "runs (each f xs) d1 (does_some d (map g (x # xs)))"
      by (rule runs_mono [OF Cons.IH [OF Cons.prems]]) (use does_some_append [OF d1] in simp_all)
  next
    fix e d1 assume "does d (g x) (Inl e) d1"
    from does_some_stop [OF does_some_single [OF this]] show "does_some d (map g (x # xs)) (Inl e) d1" by simp
  qed simp
qed

lemma runs_and_then_some:
  assumes "runs m d (does_some d css)" "\<And>d1. runs n d1 (does_some d1 css')"
  shows "runs (and_then m (\<lambda>_. n)) d (does_some d (css @ css'))"
  by (rule runs_and_thenI [OF assms(1)]) (auto intro: does_some_append does_some_stop runs_mono [OF assms(2)])

lemma slice_exact:
  assumes "layer_wf co n t" "0 < n" "n \<le> INT_MAX" "0 \<le> s" "s < n"
  shows "state_bytes dbg co t n = Some (slice_bytes co n t)" "0 < slice_bytes co n t"
    "t_data t + size_mul (nat s) (slice_bytes co n t) = slice_at co n s t"
    "nat s * slice_bytes co n t + slice_bytes co n t \<le> tensor_nbytes co t"
proof -
  show "state_bytes dbg co t n = Some (slice_bytes co n t)" using assms by (simp add: state_bytes_def slice_bytes_def)
  obtain b where b: "tensor_nbytes co t = nat n * b" using assms(1) by (auto simp: layer_wf_def dvd_def)
  then have sb: "slice_bytes co n t = b" using assms(2) by (simp add: slice_bytes_def)
  show "0 < slice_bytes co n t" using assms(1) b sb by (auto simp: layer_wf_def)
  have "Suc (nat s) * b \<le> nat n * b" using assms by (intro mult_le_mono1) simp
  then show le: "nat s * slice_bytes co n t + slice_bytes co n t \<le> tensor_nbytes co t" by (simp add: b sb)
  then have "nat s * slice_bytes co n t \<le> SIZE_MAX" using assms(1) by (simp add: layer_wf_def)
  then show "t_data t + size_mul (nat s) (slice_bytes co n t) = slice_at co n s t" by (simp add: slice_at_def size_mul_exact)
qed

lemma zero_state_ok:
  assumes wf: "storage_wf co st" and s: "0 \<le> s" "s < sg_num_states st"
  shows "runs (zero_state dbg co st s) d (does_some d
    (map (\<lambda>t. [Memset (slice_at co (sg_num_states st) s t) 0 (slice_bytes co (sg_num_states st) t)]) (sg_recurrent st @ sg_conv st)))"
proof -
  have "runs (zero_layer dbg co (sg_num_states st) s t) d
      (does d [Memset (slice_at co (sg_num_states st) s t) 0 (slice_bytes co (sg_num_states st) t)])"
    if "t \<in> set (sg_recurrent st @ sg_conv st)" for t d
  proof -
    have t: "layer_wf co (sg_num_states st) t" using wf that by (auto simp: storage_wf_def list_all_iff)
    have "0 < sg_num_states st" "sg_num_states st \<le> INT_MAX" using wf by (simp_all add: storage_wf_def)
    note S = slice_exact [OF t this s]
    have "slice_at co (sg_num_states st) s t \<noteq> 0" using t by (simp add: slice_at_def layer_wf_def)
    then show ?thesis unfolding zero_layer_def using S by (simp add: runs_and_then runs_lift_opt runs_memset)
  qed
  then show ?thesis using s by (auto simp: zero_state_def intro!: runs_and_then_some each_does)
qed

lemma copy_state_ok:
  assumes wf: "storage_wf co st" and s: "0 \<le> a" "a < sg_num_states st" "0 \<le> b" "b < sg_num_states st"
  shows "runs (copy_state dbg co st a b) d (does_some d
    (map (\<lambda>t. [Copy_D2D (slice_at co (sg_num_states st) b t) (slice_at co (sg_num_states st) a t) (slice_bytes co (sg_num_states st) t)])
      (sg_recurrent st @ sg_conv st)))"
proof -
  have "runs (copy_layer dbg co (sg_num_states st) a b t) d
      (does d [Copy_D2D (slice_at co (sg_num_states st) b t) (slice_at co (sg_num_states st) a t) (slice_bytes co (sg_num_states st) t)])"
    if "t \<in> set (sg_recurrent st @ sg_conv st)" for t d
  proof -
    have t: "layer_wf co (sg_num_states st) t" using wf that by (auto simp: storage_wf_def list_all_iff)
    have n: "0 < sg_num_states st" "sg_num_states st \<le> INT_MAX" using wf by (simp_all add: storage_wf_def)
    note A = slice_exact [OF t n s(1,2)] and B = slice_exact [OF t n s(3,4)]
    have "slice_at co (sg_num_states st) x t \<noteq> 0" for x using t by (simp add: slice_at_def layer_wf_def)
    then show ?thesis unfolding copy_layer_def using A B by (simp add: runs_and_then runs_lift_opt runs_memcpy_d2d)
  qed
  then show ?thesis using s by (auto simp: copy_state_def intro!: runs_and_then_some each_does)
qed

section \<open>Creating storage and pool\<close>

lemma layer_wfI:
  assumes co: "ccop_ok co" and elem: "0 < co_dtype_size co dt" and shape: "\<forall>k \<in> set (n # rest). 0 < k" and a: "a \<noteq> 0"
    and le: "nat (prod_list (n # rest)) * co_dtype_size co dt \<le> SIZE_MAX"
  shows "layer_wf co n \<lparr>t_buffer = b, t_data = a, t_dtype = dt, t_shape = n # rest\<rparr>"
proof -
  have nb: "co_nbytes co dt (n # rest) = nat (prod_list (n # rest)) * co_dtype_size co dt"
    using co shape unfolding ccop_ok_def by blast
  have "0 < n" "0 < prod_list rest" using shape prod_list_pos [of rest] by simp_all
  moreover have "nat (prod_list (n # rest)) = nat n * nat (prod_list rest)" using shape by (simp add: nat_mult_distrib)
  ultimately show ?thesis using le elem a by (simp add: layer_wf_def tensor_nbytes_def nb)
qed

lemma tensor_empty_layer:
  assumes co: "ccop_ok co" and elem: "0 < co_dtype_size co dt" and nn: "nonnull d"
  shows "runs (tensor_empty dbg co dt (n # rest)) d (\<lambda>r d'. r \<noteq> Inl Ok \<and> nonnull d' \<and> (\<forall>t. r = Inr t \<longrightarrow> layer_wf co n t))"
proof (rule runs_mono [OF tensor_empty_spec [OF co elem]])
  let ?m = "nat (prod_list (n # rest)) * co_dtype_size co dt"
  let ?ok = "n # rest \<noteq> [] \<and> length (n # rest) \<le> co_max_rank co \<and> (\<forall>k \<in> set (n # rest). 0 < k) \<and> ?m \<le> SIZE_MAX"
  fix r d'
  assume A: "let m = ?m in if n # rest \<noteq> [] \<and> length (n # rest) \<le> co_max_rank co \<and> (\<forall>k \<in> set (n # rest). 0 < k) \<and> m \<le> SIZE_MAX
    then (\<exists>a \<in> range (dv_addr d). extends d d' [Malloc m a] \<and> (case r of Inl e \<Rightarrow> e \<noteq> Ok
      | Inr t \<Rightarrow> t = \<lparr>t_buffer = \<lparr>buf_data = a, buf_bytes = m\<rparr>, t_data = a, t_dtype = dt, t_shape = n # rest\<rparr> \<and>
          data_in_buffer (t_buffer t) (t_data t) (co_nbytes co dt (n # rest))))
    else r = Inl InvalidArgument \<and> d' = d"
  show "r \<noteq> Inl Ok \<and> nonnull d' \<and> (\<forall>t. r = Inr t \<longrightarrow> layer_wf co n t)"
  proof (cases ?ok)
    case True
    then obtain a where a: "a \<in> range (dv_addr d)" "extends d d' [Malloc ?m a]" "case r of Inl e \<Rightarrow> e \<noteq> Ok
        | Inr t \<Rightarrow> t = \<lparr>t_buffer = \<lparr>buf_data = a, buf_bytes = ?m\<rparr>, t_data = a, t_dtype = dt, t_shape = n # rest\<rparr> \<and>
            data_in_buffer (t_buffer t) (t_data t) (co_nbytes co dt (n # rest))"
      using A unfolding Let_def if_P [OF True] by blast
    have "a \<noteq> 0" using a(1) nn by (auto simp: nonnull_def)
    note W = layer_wfI [OF co elem _ this, of n rest]
    have "layer_wf co n t" if "r = Inr t" for t using W True a(3) that by simp
    then show ?thesis using a nn nonnull_extends [OF a(2)] by (cases r) auto
  next
    case False
    then show ?thesis using A nn unfolding Let_def if_not_P [OF False] by simp
  qed
qed

lemma state_layer_ok:
  assumes co: "ccop_ok co" and elem: "0 < co_dtype_size co DT_Float32" "0 < co_dtype_size co DT_BFloat16" and nn: "nonnull d"
  shows "runs (state_layer dbg co (n # rs) (n # cs)) d (\<lambda>r d'. r \<noteq> Inl Ok \<and> nonnull d' \<and>
    (\<forall>t u. r = Inr (t, u) \<longrightarrow> layer_wf co n t \<and> layer_wf co n u))"
  unfolding state_layer_def
proof (rule runs_and_thenI [OF tensor_empty_layer [OF co elem(1) nn]])
  fix t d1 assume t: "Inr t \<noteq> Inl Ok \<and> nonnull d1 \<and> (\<forall>u. Inr t = Inr u \<longrightarrow> layer_wf co n u)"
  show "runs (and_then (tensor_empty dbg co DT_BFloat16 (n # cs)) (\<lambda>c.
     and_then (backend_memset dbg (t_data t) 0 (tensor_nbytes co t)) (\<lambda>_.
     and_then (backend_memset dbg (t_data c) 0 (tensor_nbytes co c)) (\<lambda>_. ret (t, c))))) d1
     (\<lambda>r d'. r \<noteq> Inl Ok \<and> nonnull d' \<and> (\<forall>t u. r = Inr (t, u) \<longrightarrow> layer_wf co n t \<and> layer_wf co n u))"
  proof (rule runs_and_thenI [OF tensor_empty_layer [OF co elem(2)]])
    fix c d2 assume c: "Inr c \<noteq> Inl Ok \<and> nonnull d2 \<and> (\<forall>u. Inr c = Inr u \<longrightarrow> layer_wf co n u)"
    show "runs (and_then (backend_memset dbg (t_data t) 0 (tensor_nbytes co t)) (\<lambda>_.
       and_then (backend_memset dbg (t_data c) 0 (tensor_nbytes co c)) (\<lambda>_. ret (t, c)))) d2
       (\<lambda>r d'. r \<noteq> Inl Ok \<and> nonnull d' \<and> (\<forall>t u. r = Inr (t, u) \<longrightarrow> layer_wf co n t \<and> layer_wf co n u))"
      by (rule runs_and_thenI [OF runs_memset], use t c in \<open>simp add: layer_wf_def\<close>,
          rule runs_and_thenI [OF runs_memset], use t c in \<open>simp add: layer_wf_def\<close>)
        (use t c in \<open>auto simp: does_def dest!: nonnull_extends\<close>)
  qed (use t in auto)
qed auto

lemma state_layers_ok:
  assumes co: "ccop_ok co" and elem: "0 < co_dtype_size co DT_Float32" "0 < co_dtype_size co DT_BFloat16" and nn: "nonnull d"
  shows "runs (state_layers dbg co (n # rs) (n # cs) k) d (\<lambda>r d'. r \<noteq> Inl Ok \<and> nonnull d' \<and>
    (\<forall>ls. r = Inr ls \<longrightarrow> length ls = k \<and> (\<forall>(t, u) \<in> set ls. layer_wf co n t \<and> layer_wf co n u)))"
  using nn
proof (induction k arbitrary: d)
  case (Suc k)
  show ?case
    unfolding state_layers.simps
  proof (rule runs_and_thenI [OF state_layer_ok [OF co elem Suc.prems]])
    fix l d1 assume l: "Inr l \<noteq> Inl Ok \<and> nonnull d1 \<and> (\<forall>t u. Inr l = Inr (t, u) \<longrightarrow> layer_wf co n t \<and> layer_wf co n u)"
    show "runs (and_then (state_layers dbg co (n # rs) (n # cs) k) (\<lambda>ls. ret (l # ls))) d1 (\<lambda>r d'. r \<noteq> Inl Ok \<and> nonnull d' \<and>
      (\<forall>ls. r = Inr ls \<longrightarrow> length ls = Suc k \<and> (\<forall>(t, u) \<in> set ls. layer_wf co n t \<and> layer_wf co n u)))"
      by (rule runs_and_thenI [OF Suc.IH]) (use l in auto)
  qed auto
qed simp

lemma state_storage_create_ok:
  assumes co: "ccop_ok co" and elem: "0 < co_dtype_size co DT_Float32" "0 < co_dtype_size co DT_BFloat16" and nn: "nonnull d"
    and n: "n \<le> INT_MAX" and rank: "mc_ssm_time_step_rank c \<noteq> 0"
    and fits: "2 * (mc_ssm_group_count c * mc_ssm_state_size c) +
      mc_ssm_time_step_rank c * (mc_ssm_inner_size c sdiv mc_ssm_time_step_rank c) \<le> INT_MAX"
  shows "runs (state_storage_create dbg co c n) d (\<lambda>r d'. r \<noteq> Inl Ok \<and> nonnull d' \<and> (\<forall>st. r = Inr st \<longrightarrow>
    storage_wf co st \<and> sg_num_states st = n \<and> length (sg_recurrent st) = nat (count_gdn_layers c) \<and>
    length (sg_conv st) = nat (count_gdn_layers c) \<and> sg_num_gdn_layers st = count_gdn_layers c))"
proof -
  let ?Q = "\<lambda>r d'. r \<noteq> Inl Ok \<and> nonnull d' \<and> (\<forall>st. r = Inr st \<longrightarrow>
    storage_wf co st \<and> sg_num_states st = n \<and> length (sg_recurrent st) = nat (count_gdn_layers c) \<and>
    length (sg_conv st) = nat (count_gdn_layers c) \<and> sg_num_gdn_layers st = count_gdn_layers c)"
  have "runs (and_then (state_layers dbg co (n # rs) (n # cs) (nat (count_gdn_layers c))) (\<lambda>ls. and_then synchronize (\<lambda>_.
      ret \<lparr>sg_recurrent = map fst ls, sg_conv = map snd ls, sg_num_gdn_layers = count_gdn_layers c, sg_num_states = n\<rparr>))) d ?Q"
    if "0 < n" for rs cs
    by (rule runs_and_thenI [OF state_layers_ok [OF co elem nn]], unfold synchronize_def, rule runs_and_thenI [OF runs_cuda_call])
      (use that n nonnull_extends in \<open>auto simp: does_def storage_wf_def list_all_iff\<close>)
  then show ?thesis
    using nn rank fits by (simp add: state_storage_create_def Let_def runs_and_then [of "check _"] del: runs_and_thenI)
qed

section \<open>The pool's invariant\<close>

definition state_free :: "StatePool \<Rightarrow> StateId \<Rightarrow> bool" where
  "state_free p s \<longleftrightarrow> s \<in> set (sp_mutable_free p) \<or> s \<in> set (sp_snapshot_free p)"

definition lists_ok :: "StatePool \<Rightarrow> bool" where
  "lists_ok p \<longleftrightarrow> 0 < sp_max_active p \<and> 0 \<le> sp_max_snapshots p \<and>
     distinct (sp_mutable_free p) \<and> distinct (sp_snapshot_free p) \<and>
     set (sp_mutable_free p) \<subseteq> {0..<sp_max_active p} \<and>
     set (sp_snapshot_free p) \<subseteq> {sp_max_active p..<sp_max_active p + sp_max_snapshots p}"

definition metas_ok :: "StatePool \<Rightarrow> bool" where
  "metas_ok p \<longleftrightarrow> length (sp_states p) = nat (sp_max_active p + sp_max_snapshots p) \<and>
     (\<forall>i < length (sp_states p). sp_states p ! i =
       (state_meta (sp_max_active p) (int i))\<lparr>s_status := (if state_free p (int i) then St_Free else St_InUse)\<rparr>)"

definition owners_ok :: "StatePool \<Rightarrow> bool" where
  "owners_ok p \<longleftrightarrow> inj_on (sp_active_by_seq p) (dom (sp_active_by_seq p)) \<and>
     ran (sp_active_by_seq p) = {0..<sp_max_active p} - set (sp_mutable_free p)"

definition pool_ok :: "Ccop \<Rightarrow> StatePool \<Rightarrow> bool" where
  "pool_ok co p \<longleftrightarrow> storage_wf co (sp_storage p) \<and> sg_num_states (sp_storage p) = sp_max_active p + sp_max_snapshots p \<and>
     lists_ok p \<and> metas_ok p \<and> owners_ok p"

lemmas pool_defs = lists_ok_def metas_ok_def owners_ok_def state_free_def

lemma meta_at:
  assumes "metas_ok p" "0 \<le> s" "s < sp_max_active p + sp_max_snapshots p"
  shows "sp_states p ! nat s = (state_meta (sp_max_active p) s)\<lparr>s_status := (if state_free p s then St_Free else St_InUse)\<rparr>"
    "nat s < length (sp_states p)"
  using assms unfolding metas_ok_def by (auto simp: nat_less_iff)

lemma set_status_metas:
  assumes "metas_ok p" "0 \<le> s" "s < sp_max_active p + sp_max_snapshots p"
    and "\<And>i. state_free q i = (if i = s then v = St_Free else state_free p i)"
    and "sp_states q = sp_states (set_status s v p)" "sp_max_active q = sp_max_active p" "sp_max_snapshots q = sp_max_snapshots p"
  shows "metas_ok q"
proof -
  have "sp_states q ! i = (state_meta (sp_max_active q) (int i))\<lparr>s_status := (if state_free q (int i) then St_Free else St_InUse)\<rparr>"
    if "i < length (sp_states q)" for i
  proof (cases "int i = s")
    case True
    then show ?thesis using that assms meta_at [OF assms(1-3)] by (cases v) (auto simp: set_status_def)
  next
    case False
    then have "nat s \<noteq> i" using assms(2) by auto
    then show ?thesis using that assms False by (simp add: set_status_def metas_ok_def)
  qed
  then show ?thesis using assms by (simp add: metas_ok_def set_status_def)
qed

lemma set_status_fields [simp]:
  "sp_storage (set_status s v p) = sp_storage p" "sp_max_active (set_status s v p) = sp_max_active p"
  "sp_max_snapshots (set_status s v p) = sp_max_snapshots p" "sp_mutable_free (set_status s v p) = sp_mutable_free p"
  "sp_snapshot_free (set_status s v p) = sp_snapshot_free p" "sp_active_by_seq (set_status s v p) = sp_active_by_seq p"
  by (simp_all add: set_status_def)

lemma state_free_upd [simp]:
  "state_free (p\<lparr>sp_mutable_free := xs\<rparr>) s = (s \<in> set xs \<or> s \<in> set (sp_snapshot_free p))"
  "state_free (p\<lparr>sp_snapshot_free := xs\<rparr>) s = (s \<in> set (sp_mutable_free p) \<or> s \<in> set xs)"
  "state_free (p\<lparr>sp_active_by_seq := m\<rparr>) s = state_free p s" "state_free (set_status t v p) s = state_free p s"
  by (simp_all add: state_free_def)

text \<open>Giving the first free state to a sequence, taking it back, and the same for snapshots.\<close>

definition take_active :: "SequenceId \<Rightarrow> StateId \<Rightarrow> StateId list \<Rightarrow> StatePool \<Rightarrow> StatePool" where
  "take_active seq s rest p = (set_status s St_InUse (p\<lparr>sp_mutable_free := rest\<rparr>))\<lparr>sp_active_by_seq := (sp_active_by_seq p)(seq \<mapsto> s)\<rparr>"

definition give_active :: "SequenceId \<Rightarrow> StateId \<Rightarrow> StatePool \<Rightarrow> StatePool" where
  "give_active seq s p = (set_status s St_Free (p\<lparr>sp_active_by_seq := (sp_active_by_seq p)(seq := None)\<rparr>))\<lparr>sp_mutable_free := sp_mutable_free p @ [s]\<rparr>"

lemma inj_map_upd:
  assumes "inj_on m (dom m)" "s \<notin> ran m"
  shows "inj_on (m(k \<mapsto> s)) (dom (m(k \<mapsto> s)))"
proof (rule inj_onI)
  fix x y assume "x \<in> dom (m(k \<mapsto> s))" "y \<in> dom (m(k \<mapsto> s))" "(m(k \<mapsto> s)) x = (m(k \<mapsto> s)) y"
  then show "x = y" using assms inj_onD [OF assms(1), of x y] by (cases "x = k"; cases "y = k") (auto simp: ran_def)
qed

lemma inj_map_del:
  assumes "inj_on m (dom m)" "m k = Some s"
  shows "inj_on (m(k := None)) (dom (m(k := None)))" "ran (m(k := None)) = ran m - {s}"
proof -
  have u: "x = k" if "m x = Some s" for x
    using that assms(2) by (intro inj_onD [OF assms(1)]) (simp, blast, blast)
  show "ran (m(k := None)) = ran m - {s}"
  proof
    show "ran (m(k := None)) \<subseteq> ran m - {s}"
    proof
      fix v assume "v \<in> ran (m(k := None))"
      then obtain x where "x \<noteq> k" "m x = Some v" by (auto simp: ran_def split: if_splits)
      then show "v \<in> ran m - {s}" using u [of x] ranI [of m x v] by blast
    qed
    show "ran m - {s} \<subseteq> ran (m(k := None))"
    proof
      fix v assume "v \<in> ran m - {s}"
      then obtain x where "m x = Some v" "v \<noteq> s" by (auto simp: ran_def)
      then have "(m(k := None)) x = Some v" using assms(2) by auto
      then show "v \<in> ran (m(k := None))" by (rule ranI)
    qed
  qed
  have "(m(k := None)) x = m x" if "x \<in> dom (m(k := None))" for x using that by (auto split: if_splits)
  then show "inj_on (m(k := None)) (dom (m(k := None)))"
    using inj_on_subset [OF assms(1), of "dom m - {k}"] by (simp add: inj_on_def)
qed

lemma take_active_ok:
  assumes ok: "pool_ok co p" and f: "sp_mutable_free p = s # rest" and n: "sp_active_by_seq p seq = None"
  shows "pool_ok co (take_active seq s rest p)"
proof -
  let ?q = "take_active seq s rest p"
  have L: "lists_ok p" "metas_ok p" "owners_ok p" using ok by (simp_all add: pool_ok_def)
  have s: "0 \<le> s" "s < sp_max_active p" "s \<notin> set rest" "s \<notin> set (sp_snapshot_free p)" using L(1) f by (auto simp: lists_ok_def)
  have "s < sp_max_active p + sp_max_snapshots p" using s(2) L(1) by (simp add: lists_ok_def)
  then have "metas_ok ?q"
    by (rule set_status_metas [OF L(2) s(1), where v = St_InUse]) (use s(3,4) f in \<open>simp_all add: take_active_def state_free_def set_status_def\<close>)
  moreover have "owners_ok ?q"
  proof -
    have "s \<notin> ran (sp_active_by_seq p)" using L(3) f by (simp add: owners_ok_def)
    then have "inj_on ((sp_active_by_seq p)(seq \<mapsto> s)) (dom ((sp_active_by_seq p)(seq \<mapsto> s)))"
      using L(3) unfolding owners_ok_def by (intro inj_map_upd) simp_all
    moreover have "ran ((sp_active_by_seq p)(seq \<mapsto> s)) = {0..<sp_max_active p} - set rest"
    proof -
      have "ran (sp_active_by_seq p) = {0..<sp_max_active p} - insert s (set rest)" using L(3) f by (simp add: owners_ok_def)
      moreover have "insert s (A - insert s R) = A - R" if "s \<in> A" "s \<notin> R" for A R using that by blast
      ultimately show ?thesis using s(1-3) by (simp only: ran_map_upd [of "sp_active_by_seq p", OF n] atLeastLessThan_iff simp_thms)
    qed
    ultimately show ?thesis by (simp add: owners_ok_def take_active_def)
  qed
  moreover have "lists_ok ?q" using L(1) f by (simp add: lists_ok_def take_active_def)
  ultimately show ?thesis using ok by (simp add: pool_ok_def take_active_def)
qed

lemma give_active_ok:
  assumes ok: "pool_ok co p" and o: "sp_active_by_seq p seq = Some s"
  shows "pool_ok co (give_active seq s p)" "0 \<le> s" "s < sp_max_active p" "s \<notin> set (sp_mutable_free p)"
proof -
  let ?q = "give_active seq s p"
  have L: "lists_ok p" "metas_ok p" "owners_ok p" using ok by (simp_all add: pool_ok_def)
  have "s \<in> ran (sp_active_by_seq p)" using o by (rule ranI)
  then show s: "0 \<le> s" "s < sp_max_active p" "s \<notin> set (sp_mutable_free p)" using L(3) by (auto simp: owners_ok_def)
  have "s < sp_max_active p + sp_max_snapshots p" using s(2) L(1) by (simp add: lists_ok_def)
  then have "metas_ok ?q"
    by (rule set_status_metas [OF L(2) s(1), where v = St_Free]) (simp_all add: give_active_def state_free_def set_status_def)
  moreover have "owners_ok ?q"
  proof -
    note I = inj_map_del [of "sp_active_by_seq p", OF _ o]
    have "inj_on (sp_active_by_seq p) (dom (sp_active_by_seq p))" "ran (sp_active_by_seq p) = {0..<sp_max_active p} - set (sp_mutable_free p)"
      using L(3) by (simp_all add: owners_ok_def)
    then show ?thesis unfolding owners_ok_def using I by (simp add: give_active_def) blast
  qed
  moreover have "lists_ok ?q" using L(1) s by (auto simp: lists_ok_def give_active_def)
  ultimately show "pool_ok co (give_active seq s p)" using ok by (simp add: pool_ok_def give_active_def)
qed

section \<open>What the pool operations do\<close>

abbreviation zero_cmds :: "Ccop \<Rightarrow> StateStorage \<Rightarrow> StateId \<Rightarrow> DeviceCmd list" where
  "zero_cmds co st s \<equiv> concat (map (\<lambda>t. [Memset (slice_at co (sg_num_states st) s t) 0 (slice_bytes co (sg_num_states st) t)])
     (sg_recurrent st @ sg_conv st))"

abbreviation copy_cmds :: "Ccop \<Rightarrow> StateStorage \<Rightarrow> StateId \<Rightarrow> StateId \<Rightarrow> DeviceCmd list" where
  "copy_cmds co st a b \<equiv> concat (map (\<lambda>t. [Copy_D2D (slice_at co (sg_num_states st) b t) (slice_at co (sg_num_states st) a t)
     (slice_bytes co (sg_num_states st) t)]) (sg_recurrent st @ sg_conv st))"

lemma runs_cong: "m s = n s \<Longrightarrow> runs m s Q = runs n s Q"
  by (simp add: runs_def)

lemma runs_on_device: "runs (on_device m) (p, d) Q = runs m d (\<lambda>r d'. Q r (p, d'))"
  by (auto simp: runs_def on_device_def split: option.splits prod.splits)

lemma rotate_free_ok:
  assumes "pool_ok co p" "sp_mutable_free p = s # rest"
  shows "pool_ok co (p\<lparr>sp_mutable_free := rest @ [s]\<rparr>)"
proof -
  have "state_free (p\<lparr>sp_mutable_free := rest @ [s]\<rparr>) = state_free p" using assms(2) by (auto simp: state_free_def fun_eq_iff)
  then have "metas_ok (p\<lparr>sp_mutable_free := rest @ [s]\<rparr>)" using assms(1) by (simp add: pool_ok_def metas_ok_def)
  then show ?thesis using assms by (simp add: pool_ok_def lists_ok_def owners_ok_def)
qed

lemma acquire_active_spec:
  assumes ok: "pool_ok co p"
  shows "runs (acquire_active dbg co seq) (p, d) (\<lambda>r (p', d'). pool_ok co p' \<and> sp_storage p' = sp_storage p \<and>
    sp_snapshot_free p' = sp_snapshot_free p \<and> sp_max_active p' = sp_max_active p \<and> sp_max_snapshots p' = sp_max_snapshots p \<and> (case r of
      Inl e \<Rightarrow> e \<noteq> Ok \<and> sp_active_by_seq p seq = None \<and> sp_active_by_seq p' = sp_active_by_seq p \<and>
        (if sp_mutable_free p = [] then e = MaxSequencesReached \<and> d' = d else \<not> healthy d)
    | Inr _ \<Rightarrow> (case sp_active_by_seq p seq of Some s \<Rightarrow> p' = p \<and> d' = d
        | None \<Rightarrow> \<exists>s \<in> set (sp_mutable_free p). sp_active_by_seq p' = (sp_active_by_seq p)(seq \<mapsto> s) \<and>
            extends d d' (zero_cmds co (sp_storage p) s))))"
  (is "runs _ _ ?Q")
proof (cases "sp_active_by_seq p seq")
  case (Some s)
  then show ?thesis using ok by (simp add: acquire_active_def runs_def)
next
  case n: None
  show ?thesis
  proof (cases "sp_mutable_free p")
    case Nil
    then show ?thesis using ok n by (simp add: acquire_active_def runs_def)
  next
    case f: (Cons s rest)
    have L: "lists_ok p" "metas_ok p" and wf: "storage_wf co (sp_storage p)"
      and num: "sg_num_states (sp_storage p) = sp_max_active p + sp_max_snapshots p" using ok by (simp_all add: pool_ok_def)
    have s: "0 \<le> s" "s < sp_max_active p" "s < sg_num_states (sp_storage p)" "state_free p s" using L(1) f num by (auto simp: lists_ok_def state_free_def)
    have m: "s_status (sp_states p ! nat s) = St_Free \<and> s_kind (sp_states p ! nat s) = Mutable"
      using meta_at [OF L(2) s(1)] s num by (simp add: state_meta_def)
    let ?p = "p\<lparr>sp_mutable_free := rest\<rparr>"
    have "runs (and_then (or_else (on_device (zero_state dbg co (sp_storage p) s))
             (\<lambda>e (p, d). fail e (p\<lparr>sp_mutable_free := sp_mutable_free p @ [s]\<rparr>, d))) (\<lambda>_ (p, d).
         ret () ((set_status s St_InUse p)\<lparr>sp_active_by_seq := (sp_active_by_seq p)(seq \<mapsto> s)\<rparr>, d))) (?p, d) ?Q"
      unfolding runs_and_then runs_or_else runs_on_device
    proof (rule runs_mono [OF zero_state_ok [OF wf s(1,3)]])
      fix r d' assume A: "does_some d (map (\<lambda>t. [Memset (slice_at co (sg_num_states (sp_storage p)) s t) 0
        (slice_bytes co (sg_num_states (sp_storage p)) t)]) (sg_recurrent (sp_storage p) @ sg_conv (sp_storage p))) r d'"
      show "case r of Inl e \<Rightarrow> runs (\<lambda>(p, d). fail e (p\<lparr>sp_mutable_free := sp_mutable_free p @ [s]\<rparr>, d)) (?p, d')
            (\<lambda>r s'. case r of Inl e \<Rightarrow> ?Q (Inl e) s' | Inr x \<Rightarrow> runs ((\<lambda>_ (p, d).
         ret () ((set_status s St_InUse p)\<lparr>sp_active_by_seq := (sp_active_by_seq p)(seq \<mapsto> s)\<rparr>, d)) x) s' ?Q)
        | Inr x \<Rightarrow> (case Inr x of Inl e \<Rightarrow> ?Q (Inl e) (?p, d') | Inr x \<Rightarrow> runs ((\<lambda>_ (p, d).
         ret () ((set_status s St_InUse p)\<lparr>sp_active_by_seq := (sp_active_by_seq p)(seq \<mapsto> s)\<rparr>, d)) x) (?p, d') ?Q)"
      proof (cases r)
        case (Inl e)
        then show ?thesis using A rotate_free_ok [OF ok f] n f by (auto simp: does_some_def runs_def fail_def)
      next
        case (Inr u)
        then show ?thesis using A take_active_ok [OF ok f n] n f by (auto simp: does_some_def runs_def ret_def take_active_def)
      qed
    qed
    then show ?thesis using n f m by (simp add: acquire_active_def Let_def runs_and_then runs_def)
  qed
qed

lemma release_active_spec:
  assumes ok: "pool_ok co p"
  shows "runs (release_active dbg seq) (p, d) (\<lambda>r (p', d'). r = Inr () \<and> d' = d \<and> pool_ok co p' \<and> sp_storage p' = sp_storage p \<and>
    sp_snapshot_free p' = sp_snapshot_free p \<and> sp_max_active p' = sp_max_active p \<and> sp_max_snapshots p' = sp_max_snapshots p \<and>
    sp_active_by_seq p' = (sp_active_by_seq p)(seq := None) \<and>
    sp_mutable_free p' = sp_mutable_free p @ (case sp_active_by_seq p seq of None \<Rightarrow> [] | Some s \<Rightarrow> [s]))"
proof (cases "sp_active_by_seq p seq")
  case None
  then have "(sp_active_by_seq p)(seq := None) = sp_active_by_seq p" by (simp add: fun_upd_idem)
  then show ?thesis using ok None by (simp add: release_active_def runs_def)
next
  case (Some s)
  note G = give_active_ok [OF ok Some]
  have L: "lists_ok p" "metas_ok p" using ok by (simp_all add: pool_ok_def)
  have b: "s < sp_max_active p + sp_max_snapshots p" "s \<notin> set (sp_snapshot_free p)" using G(2,3) L(1) by (auto simp: lists_ok_def)
  have m: "s_status (sp_states p ! nat s) = St_InUse \<and> s_kind (sp_states p ! nat s) = Mutable"
    using meta_at [OF L(2) G(2) b(1)] G(3,4) b(2) by (simp add: state_meta_def state_free_def)
  have r: "s < int (length (sp_states p))" using meta_at(2) [OF L(2) G(2) b(1)] G(2) by simp
  show ?thesis
    using G m r Some by (simp add: release_active_def runs_def Let_def ret_def give_active_def)
qed

definition take_snapshot :: "StateId \<Rightarrow> StateId list \<Rightarrow> StatePool \<Rightarrow> StatePool" where
  "take_snapshot s rest p = set_status s St_InUse (p\<lparr>sp_snapshot_free := rest\<rparr>)"

definition give_snapshot :: "StateId \<Rightarrow> StatePool \<Rightarrow> StatePool" where
  "give_snapshot s p = (set_status s St_Free p)\<lparr>sp_snapshot_free := sp_snapshot_free p @ [s]\<rparr>"

lemma take_snapshot_ok:
  assumes ok: "pool_ok co p" and f: "sp_snapshot_free p = s # rest"
  shows "pool_ok co (take_snapshot s rest p)"
    "s_status (sp_states p ! nat s) = St_Free \<and> s_kind (sp_states p ! nat s) = Snapshot"
proof -
  have L: "lists_ok p" "metas_ok p" "owners_ok p" using ok by (simp_all add: pool_ok_def)
  have s: "0 \<le> s" "sp_max_active p \<le> s" "s < sp_max_active p + sp_max_snapshots p" "s \<notin> set rest" "s \<notin> set (sp_mutable_free p)"
    using L(1) f by (auto simp: lists_ok_def)
  show "s_status (sp_states p ! nat s) = St_Free \<and> s_kind (sp_states p ! nat s) = Snapshot"
    using meta_at [OF L(2) s(1,3)] s f by (simp add: state_meta_def state_free_def)
  have "metas_ok (take_snapshot s rest p)"
    by (rule set_status_metas [OF L(2) s(1,3), where v = St_InUse]) (use s(4,5) f in \<open>simp_all add: take_snapshot_def state_free_def set_status_def\<close>)
  moreover have "lists_ok (take_snapshot s rest p)" using L(1) f by (simp add: lists_ok_def take_snapshot_def)
  ultimately show "pool_ok co (take_snapshot s rest p)" using ok by (simp add: pool_ok_def take_snapshot_def owners_ok_def)
qed

lemma give_snapshot_ok:
  assumes ok: "pool_ok co p" and s: "sp_max_active p \<le> s" "s < sp_max_active p + sp_max_snapshots p" "s \<notin> set (sp_snapshot_free p)"
  shows "pool_ok co (give_snapshot s p)"
    "s_status (sp_states p ! nat s) = St_InUse \<and> s_kind (sp_states p ! nat s) = Snapshot"
proof -
  have L: "lists_ok p" "metas_ok p" "owners_ok p" using ok by (simp_all add: pool_ok_def)
  have t: "0 \<le> s" "s \<notin> set (sp_mutable_free p)" using L(1) s by (auto simp: lists_ok_def)
  show "s_status (sp_states p ! nat s) = St_InUse \<and> s_kind (sp_states p ! nat s) = Snapshot"
    using meta_at [OF L(2) t(1) s(2)] s t by (simp add: state_meta_def state_free_def)
  have "metas_ok (give_snapshot s p)"
    by (rule set_status_metas [OF L(2) t(1) s(2), where v = St_Free]) (simp_all add: give_snapshot_def state_free_def set_status_def)
  moreover have "lists_ok (give_snapshot s p)" using L(1) s by (simp add: lists_ok_def give_snapshot_def)
  ultimately show "pool_ok co (give_snapshot s p)" using ok by (simp add: pool_ok_def give_snapshot_def owners_ok_def)
qed

lemma acquire_snapshot_spec:
  assumes ok: "pool_ok co p"
  shows "runs (acquire_snapshot dbg) (p, d) (\<lambda>r (p', d'). d' = d \<and> (case sp_snapshot_free p of
    [] \<Rightarrow> r = Inl MaxSequencesReached \<and> p' = p
  | s # rest \<Rightarrow> r = Inr s \<and> p' = take_snapshot s rest p))"
  using take_snapshot_ok(2) [OF ok]
  by (cases "sp_snapshot_free p") (auto simp: acquire_snapshot_def runs_def ret_def take_snapshot_def)

lemma release_snapshot_spec:
  assumes ok: "pool_ok co p" and free: "s \<notin> set (sp_snapshot_free p)"
  shows "runs (release_snapshot dbg s) (p, d) (\<lambda>r (p', d'). d' = d \<and>
    (if sp_max_active p \<le> s \<and> s < sp_max_active p + sp_max_snapshots p then r = Inr () \<and> p' = give_snapshot s p
     else r = Inl InvalidArgument \<and> p' = p))"
  using give_snapshot_ok(2) [OF ok _ _ free] free
  by (auto simp: release_snapshot_def runs_def ret_def give_snapshot_def)

lemma copy_spec:
  assumes ok: "pool_ok co p"
  shows "runs (copy_active_to_snapshot dbg co a s) (p, d) (\<lambda>r (p', d'). p' = p \<and> (if snapshot_range p a s
      then does_some d (map (\<lambda>c. [c]) (copy_cmds co (sp_storage p) a s)) r d' else r = Inl InvalidArgument \<and> d' = d))"
    "runs (restore_snapshot_to_active dbg co s a) (p, d) (\<lambda>r (p', d'). p' = p \<and> (if snapshot_range p a s
      then does_some d (map (\<lambda>c. [c]) (copy_cmds co (sp_storage p) s a)) r d' else r = Inl InvalidArgument \<and> d' = d))"
proof -
  have wf: "storage_wf co (sp_storage p)" and num: "sg_num_states (sp_storage p) = sp_max_active p + sp_max_snapshots p"
    and pos: "0 < sp_max_active p" "0 \<le> sp_max_snapshots p" using ok by (simp_all add: pool_ok_def lists_ok_def)
  have c: "map (\<lambda>c. [c]) (concat (map (\<lambda>t. [f t]) xs)) = map (\<lambda>t. [f t]) xs" for f :: "Tensor \<Rightarrow> DeviceCmd" and xs
    by (induction xs) simp_all
  have "runs (copy_state dbg co (sp_storage p) x y) d (\<lambda>r d'. does_some d (map (\<lambda>c. [c]) (copy_cmds co (sp_storage p) x y)) r d')"
    if "0 \<le> x" "x < sp_max_active p + sp_max_snapshots p" "0 \<le> y" "y < sp_max_active p + sp_max_snapshots p" for x y
    unfolding c using copy_state_ok [OF wf, of x y] that by (simp add: num)
  note C = this
  show "runs (copy_active_to_snapshot dbg co a s) (p, d) (\<lambda>r (p', d'). p' = p \<and> (if snapshot_range p a s
      then does_some d (map (\<lambda>c. [c]) (copy_cmds co (sp_storage p) a s)) r d' else r = Inl InvalidArgument \<and> d' = d))"
  proof (cases "snapshot_range p a s")
    case True
    then have "copy_active_to_snapshot dbg co a s (p, d) = on_device (copy_state dbg co (sp_storage p) a s) (p, d)"
      by (simp add: copy_active_to_snapshot_def)
    from runs_cong [of "copy_active_to_snapshot dbg co a s" "(p, d)" "on_device (copy_state dbg co (sp_storage p) a s)", OF this] show ?thesis using C [of a s] True pos by (simp add: runs_on_device snapshot_range_def)
  qed (simp add: copy_active_to_snapshot_def runs_def)
  show "runs (restore_snapshot_to_active dbg co s a) (p, d) (\<lambda>r (p', d'). p' = p \<and> (if snapshot_range p a s
      then does_some d (map (\<lambda>c. [c]) (copy_cmds co (sp_storage p) s a)) r d' else r = Inl InvalidArgument \<and> d' = d))"
  proof (cases "snapshot_range p a s")
    case True
    then have "restore_snapshot_to_active dbg co s a (p, d) = on_device (copy_state dbg co (sp_storage p) s a) (p, d)"
      by (simp add: restore_snapshot_to_active_def)
    from runs_cong [of "restore_snapshot_to_active dbg co s a" "(p, d)" "on_device (copy_state dbg co (sp_storage p) s a)", OF this] show ?thesis using C [of s a] True pos by (simp add: runs_on_device snapshot_range_def)
  qed (simp add: restore_snapshot_to_active_def runs_def)
qed

lemma pool_of_states_free:
  assumes "0 < m" "0 \<le> n"
  shows "set (sp_mutable_free (pool_of_states st m n)) = {0..<m}" "set (sp_snapshot_free (pool_of_states st m n)) = {m..<m + n}"
    "distinct (sp_mutable_free (pool_of_states st m n))" "distinct (sp_snapshot_free (pool_of_states st m n))"
proof -
  let ?p = "pool_of_states st m n"
  let ?f = "\<lambda>b. filter (\<lambda>i. (int i < m) = b) [0..<nat (m + n)]"
  have free: "sp_mutable_free ?p = map int (?f True)" "sp_snapshot_free ?p = map int (?f False)"
    by (simp_all add: pool_of_states_def Let_def filter_map o_def state_meta_def)
  have ints: "int ` {i. i < nat (m + n) \<and> (int i < m) = b} = {x. 0 \<le> x \<and> x < m + n \<and> (x < m) = b}" for b
  proof (intro set_eqI iffI)
    fix x assume "x \<in> {x. 0 \<le> x \<and> x < m + n \<and> (x < m) = b}"
    then show "x \<in> int ` {i. i < nat (m + n) \<and> (int i < m) = b}" by (intro image_eqI [of _ _ "nat x"]) auto
  qed auto
  show "set (sp_mutable_free ?p) = {0..<m}" "set (sp_snapshot_free ?p) = {m..<m + n}"
  proof -
    have f: "set (map int (?f b)) = {x. 0 \<le> x \<and> x < m + n \<and> (x < m) = b}" for b using ints [of b] by simp
    show "set (sp_mutable_free ?p) = {0..<m}" unfolding free f using assms by (intro set_eqI) (simp, linarith)
    show "set (sp_snapshot_free ?p) = {m..<m + n}" unfolding free f using assms by (intro set_eqI) (simp, linarith)
  qed
  show "distinct (sp_mutable_free ?p)" "distinct (sp_snapshot_free ?p)" unfolding free by (simp_all add: distinct_map inj_on_def)
qed

lemma pool_of_states_ok:
  assumes "storage_wf co st" "sg_num_states st = m + n" "0 < m" "0 \<le> n"
  shows "pool_ok co (pool_of_states st m n)"
proof -
  let ?p = "pool_of_states st m n"
  note sets = pool_of_states_free [OF assms(3,4), of st]
  have "lists_ok ?p"
    unfolding lists_ok_def using sets assms(3,4) by (simp add: pool_of_states_def Let_def)
  moreover have "metas_ok ?p"
  proof -
    have st: "sp_states ?p = map (\<lambda>i. state_meta m (int i)) [0..<nat (m + n)]" "sp_max_active ?p = m" "sp_max_snapshots ?p = n"
      by (simp_all add: pool_of_states_def Let_def)
    have "state_free ?p (int i)" if "i < nat (m + n)" for i using that sets(1,2) by (simp add: state_free_def) linarith
    then show ?thesis unfolding metas_ok_def st by (simp add: state_meta_def)
  qed
  moreover have "owners_ok ?p" unfolding owners_ok_def sets(1) by (simp add: pool_of_states_def Let_def)
  ultimately show ?thesis using assms by (simp add: pool_ok_def) (simp add: pool_of_states_def Let_def)
qed

lemma full_pool:
  assumes "pool_ok co p" "sp_mutable_free p = []"
  shows "card (dom (sp_active_by_seq p)) = nat (sp_max_active p)"
proof -
  have o: "inj_on (sp_active_by_seq p) (dom (sp_active_by_seq p))" "ran (sp_active_by_seq p) = {0..<sp_max_active p}"
    using assms by (simp_all add: pool_ok_def owners_ok_def)
  have "sp_active_by_seq p ` dom (sp_active_by_seq p) = Some ` ran (sp_active_by_seq p)" by (force simp: ran_def dom_def image_iff)
  then have "card (dom (sp_active_by_seq p)) = card (Some ` {0..<sp_max_active p})" using o by (metis card_image)
  then show ?thesis by (simp add: card_image)
qed

text \<open>
  C30. Acquiring a recurrent state never aborts and keeps the pool's invariant. On success the sequence
  owns a mutable state that no other sequence owns, every other sequence keeps what it had, and if the
  state is new to the sequence the commands issued clear exactly its slice of every layer. On failure
  nothing changes hands; with a working device the only failure is that every mutable state is owned.
\<close>

theorem acquire_active_exclusive:
  assumes "pool_ok co p"
  shows "runs (acquire_active dbg co seq) (p, d) (\<lambda>r (p', d'). pool_ok co p' \<and> (case r of
      Inl e \<Rightarrow> (\<forall>q. active_state_of p' q = active_state_of p q) \<and> active_state_of p seq = None \<and>
        (healthy d \<longrightarrow> e = MaxSequencesReached \<and> card (dom (sp_active_by_seq p)) = nat (sp_max_active p))
    | Inr _ \<Rightarrow> \<exists>s. active_state_of p' seq = Some s \<and> 0 \<le> s \<and> s < sp_max_active p \<and>
        (\<forall>q. q \<noteq> seq \<longrightarrow> active_state_of p' q = active_state_of p q \<and> active_state_of p' q \<noteq> Some s) \<and>
        issued d d' = (if active_state_of p seq = None then zero_cmds co (sp_storage p) s else [])))"
proof (rule runs_mono [OF acquire_active_spec [OF assms]], goal_cases)
  case (1 r pd)
  obtain p' d' where pd: "pd = (p', d')" by (cases pd)
  have ok: "pool_ok co p'" and fr: "sp_max_active p' = sp_max_active p"
    and A: "case r of Inl e \<Rightarrow> e \<noteq> Ok \<and> sp_active_by_seq p seq = None \<and> sp_active_by_seq p' = sp_active_by_seq p \<and>
        (if sp_mutable_free p = [] then e = MaxSequencesReached \<and> d' = d else \<not> healthy d)
    | Inr _ \<Rightarrow> (case sp_active_by_seq p seq of Some s \<Rightarrow> p' = p \<and> d' = d
        | None \<Rightarrow> \<exists>s \<in> set (sp_mutable_free p). sp_active_by_seq p' = (sp_active_by_seq p)(seq \<mapsto> s) \<and>
            extends d d' (zero_cmds co (sp_storage p) s))"
    using 1 unfolding pd prod.case by blast+
  have excl: "0 \<le> s \<and> s < sp_max_active p \<and> (\<forall>q. q \<noteq> seq \<longrightarrow> sp_active_by_seq p' q \<noteq> Some s)"
    if "sp_active_by_seq p' seq = Some s" for s
  proof -
    have "inj_on (sp_active_by_seq p') (dom (sp_active_by_seq p'))" using ok by (simp add: pool_ok_def owners_ok_def)
    from inj_onD [OF this, of _ seq] have "q = seq" if "sp_active_by_seq p' q = Some s" for q
      using that \<open>sp_active_by_seq p' seq = Some s\<close> by (metis domI)
    then show ?thesis using give_active_ok(2,3) [OF ok that] by (auto simp: fr)
  qed
  show ?case
  proof (cases r)
    case (Inl e)
    then show ?thesis using A ok full_pool [OF assms] by (auto simp: pd active_state_of_def split: if_splits)
  next
    case (Inr u)
    show ?thesis
    proof (cases "sp_active_by_seq p seq")
      case None
      then obtain s where s: "sp_active_by_seq p' = (sp_active_by_seq p)(seq \<mapsto> s)" "extends d d' (zero_cmds co (sp_storage p) s)"
        using A Inr by auto
      then show ?thesis using excl [of s] ok Inr None extends_issued by (auto simp: pd active_state_of_def)
    next
      case (Some s)
      then show ?thesis using A excl [of s] ok Inr by (auto simp: pd active_state_of_def issued_def)
    qed
  qed
qed

definition model_storage :: StateStorage where
  "model_storage = \<lparr>sg_recurrent = [\<lparr>t_buffer = \<lparr>buf_data = 4096, buf_bytes = 96\<rparr>, t_data = 4096, t_dtype = DT_Float32, t_shape = [3, 2, 2, 2]\<rparr>],
     sg_conv = [\<lparr>t_buffer = \<lparr>buf_data = 8192, buf_bytes = 36\<rparr>, t_data = 8192, t_dtype = DT_BFloat16, t_shape = [3, 2, 3]\<rparr>],
     sg_num_gdn_layers = 1, sg_num_states = 3\<rparr>"

lemma model_pool_ok: "pool_ok model_ccop (pool_of_states model_storage 2 1)"
  by (rule pool_of_states_ok)
    (simp_all add: storage_wf_def model_storage_def layer_wf_def tensor_nbytes_def model_ccop_def SIZE_MAX_def INT_MAX_def)

theorem acquire_active_exclusive_witness:
  "pool_ok model_ccop (pool_of_states model_storage 2 1) \<and>
   runs (acquire_active True model_ccop 7) (pool_of_states model_storage 2 1, model_device) (\<lambda>r (p', d').
     \<exists>s. active_state_of p' 7 = Some s \<and> issued model_device d' = zero_cmds model_ccop model_storage s)"
proof -
  have n: "active_state_of (pool_of_states model_storage 2 1) 7 = None" "dom (sp_active_by_seq (pool_of_states model_storage 2 1)) = {}"
    "sp_max_active (pool_of_states model_storage 2 1) = 2" "sp_storage (pool_of_states model_storage 2 1) = model_storage"
    by (simp_all add: active_state_of_def pool_of_states_def Let_def)
  have h: "healthy model_device" by (simp add: healthy_def model_device_def)
  show ?thesis
  proof (rule conjI [OF model_pool_ok], rule runs_mono [OF acquire_active_exclusive [OF model_pool_ok]])
    fix r and pd :: "StatePool \<times> Device"
    assume "case pd of (p', d') \<Rightarrow> pool_ok model_ccop p' \<and> (case r of
      Inl e \<Rightarrow> (\<forall>q. active_state_of p' q = active_state_of (pool_of_states model_storage 2 1) q) \<and>
        active_state_of (pool_of_states model_storage 2 1) 7 = None \<and>
        (healthy model_device \<longrightarrow> e = MaxSequencesReached \<and>
          card (dom (sp_active_by_seq (pool_of_states model_storage 2 1))) = nat (sp_max_active (pool_of_states model_storage 2 1)))
    | Inr _ \<Rightarrow> \<exists>s. active_state_of p' 7 = Some s \<and> 0 \<le> s \<and> s < sp_max_active (pool_of_states model_storage 2 1) \<and>
        (\<forall>q. q \<noteq> 7 \<longrightarrow> active_state_of p' q = active_state_of (pool_of_states model_storage 2 1) q \<and> active_state_of p' q \<noteq> Some s) \<and>
        issued model_device d' = (if active_state_of (pool_of_states model_storage 2 1) 7 = None
          then zero_cmds model_ccop (sp_storage (pool_of_states model_storage 2 1)) s else []))"
    then show "case pd of (p', d') \<Rightarrow> \<exists>s. active_state_of p' 7 = Some s \<and> issued model_device d' = zero_cmds model_ccop model_storage s"
      using n h by (cases r; cases pd) auto
  qed
qed



end
