(* ===== verification/State_Cache.thy ===== *)
theory State_Cache
  imports State_Pool Prefix_Hash
begin

text \<open>
  The snapshot cache of recurrent states: \<^verbatim>\<open>src/src/cache/state_cache.{h,cpp}\<close>. Entries are immutable and
  their hashes are distinct, so an iterator into \<^verbatim>\<open>entries_\<close> is the entry it points to and \<^verbatim>\<open>is_in_lru\<close> is
  membership in \<open>sc_lru\<close>. The cache holds a reference to the pool; operations run on cache, pool and
  device together.
\<close>

record StateCacheEntry =
  ce_hash :: hash
  ce_frontier :: int
  ce_state :: StateId

record StateCache =
  sc_frontier_depth :: int
  sc_entries :: "StateCacheEntry list"
  sc_lru :: "StateCacheEntry list"
  sc_by_hash :: "hash \<rightharpoonup> StateCacheEntry"
  sc_hits :: nat
  sc_misses :: nat
  sc_evictions :: nat

record StateCacheStats =
  ss_lookup_hits :: nat
  ss_lookup_misses :: nat
  ss_evictions :: nat
  ss_cached_snapshots :: nat

type_synonym cache_world = "StateCache \<times> StatePool \<times> Device"

definition state_cache_new :: "bool \<Rightarrow> int \<Rightarrow> StateCache option" where
  "state_cache_new dbg frontier_depth = do {
     assert_that dbg (frontier_depth \<ge> 0);
     Some \<lparr>sc_frontier_depth = frontier_depth, sc_entries = [], sc_lru = [], sc_by_hash = Map.empty,
       sc_hits = 0, sc_misses = 0, sc_evictions = 0\<rparr>
   }"

definition on_pool :: "(StatePool \<times> Device, 'a) act \<Rightarrow> (cache_world, 'a) act" where
  "on_pool m = (\<lambda>(c, pd). case m pd of None \<Rightarrow> None | Some (r, pd') \<Rightarrow> Some (r, (c, pd')))"

definition on_cache :: "(StateCache \<Rightarrow> StateCache) \<Rightarrow> (cache_world, unit) act" where
  "on_cache f = (\<lambda>(c, pd). Some (Inr (), (f c, pd)))"

text \<open>A result cast to \<^verbatim>\<open>void\<close>.\<close>

definition ignored :: "('s, unit) act \<Rightarrow> ('s, unit) act" where
  "ignored m = or_else m (\<lambda>_. ret ())"

definition has :: "StateCache \<Rightarrow> hash \<Rightarrow> bool" where
  "has c h \<longleftrightarrow> sc_by_hash c h \<noteq> None"

definition state_id_of :: "StateCache \<Rightarrow> hash \<Rightarrow> StateId" where
  "state_id_of c h = (case sc_by_hash c h of None \<Rightarrow> kInvalidStateId | Some e \<Rightarrow> ce_state e)"

definition is_in_lru :: "StateCacheEntry \<Rightarrow> StateCache \<Rightarrow> bool" where
  "is_in_lru e c \<longleftrightarrow> e \<in> set (sc_lru c)"

definition state_erase_entry :: "StateCacheEntry \<Rightarrow> StateCache \<Rightarrow> StateCache" where
  "state_erase_entry e c = (let h = ce_hash e;
     c = (if is_in_lru e c then c\<lparr>sc_lru := remove1 e (sc_lru c)\<rparr> else c);
     c = c\<lparr>sc_by_hash := (sc_by_hash c)(h := None)\<rparr> in
     c\<lparr>sc_entries := remove1 e (sc_entries c)\<rparr>)"

definition state_evict_one :: "bool \<Rightarrow> (cache_world, bool) act" where
  "state_evict_one dbg = (\<lambda>(c, pd). case sc_lru c of
     [] \<Rightarrow> Some (Inr False, (c, pd))
   | victim # _ \<Rightarrow> (case sc_by_hash c (ce_hash victim) of
       None \<Rightarrow> None
     | Some e \<Rightarrow>
         and_then (on_cache (state_erase_entry e)) (\<lambda>_.
         and_then (ignored (on_pool (release_snapshot dbg (ce_state victim)))) (\<lambda>_.
         and_then (on_cache (\<lambda>c. c\<lparr>sc_evictions := sc_evictions c + 1\<rparr>)) (\<lambda>_. ret True))) (c, pd)))"

definition add_entry :: "hash \<Rightarrow> int \<Rightarrow> StateId \<Rightarrow> StateCache \<Rightarrow> StateCache" where
  "add_entry h frontier_block s c = (let e = \<lparr>ce_hash = h, ce_frontier = frontier_block, ce_state = s\<rparr> in
     c\<lparr>sc_entries := sc_entries c @ [e], sc_by_hash := (sc_by_hash c)(h \<mapsto> e), sc_lru := sc_lru c @ [e]\<rparr>)"

definition snapshot :: "bool \<Rightarrow> Ccop \<Rightarrow> hash \<Rightarrow> int \<Rightarrow> StateId \<Rightarrow> (cache_world, unit) act" where
  "snapshot dbg co h frontier_block active_state = (\<lambda>(c, p, d).
     if frontier_block < 0 \<or> frontier_block \<ge> sc_frontier_depth c then Some (Inl InvalidArgument, (c, p, d))
     else if has c h then Some (Inr (), (c, p, d))
     else and_then (if num_free_snapshots p = 0
         then and_then (state_evict_one dbg) (\<lambda>b. if b then ret () else fail MaxSequencesReached) else ret ()) (\<lambda>_.
       and_then (on_pool (acquire_snapshot dbg)) (\<lambda>s.
       and_then (or_else (on_pool (copy_active_to_snapshot dbg co active_state s))
           (\<lambda>e. and_then (ignored (on_pool (release_snapshot dbg s))) (\<lambda>_. fail e))) (\<lambda>_.
       on_cache (add_entry h frontier_block s)))) (c, p, d))"

definition state_restore :: "bool \<Rightarrow> Ccop \<Rightarrow> hash \<Rightarrow> StateId \<Rightarrow> (cache_world, unit) act" where
  "state_restore dbg co h active_state = (\<lambda>(c, pd). case sc_by_hash c h of
     None \<Rightarrow> Some (Inl InvalidArgument, (c\<lparr>sc_misses := sc_misses c + 1\<rparr>, pd))
   | Some e \<Rightarrow>
       let c = c\<lparr>sc_hits := sc_hits c + 1\<rparr>;
         c = (if is_in_lru e c then c\<lparr>sc_lru := remove1 e (sc_lru c) @ [e]\<rparr> else c) in
       on_pool (restore_snapshot_to_active dbg co (ce_state e) active_state) (c, pd))"

definition state_cache_stats :: "StateCache \<Rightarrow> StateCacheStats" where
  "state_cache_stats c = \<lparr>ss_lookup_hits = sc_hits c, ss_lookup_misses = sc_misses c, ss_evictions = sc_evictions c,
     ss_cached_snapshots = length (sc_entries c)\<rparr>"

text \<open>The destructor gives every snapshot back.\<close>

definition state_cache_destroy :: "bool \<Rightarrow> (cache_world, unit) act" where
  "state_cache_destroy dbg = (\<lambda>(c, pd).
     and_then (each (\<lambda>e. ignored (on_pool (release_snapshot dbg (ce_state e)))) (sc_entries c)) (\<lambda>_.
     on_cache (\<lambda>c. c\<lparr>sc_lru := [], sc_entries := []\<rparr>)) (c, pd))"

section \<open>Invariant\<close>

definition index_ok :: "StateCache \<Rightarrow> bool" where
  "index_ok c \<longleftrightarrow> distinct (map ce_hash (sc_entries c)) \<and> distinct (sc_lru c) \<and> set (sc_lru c) = set (sc_entries c) \<and>
     (\<forall>h e. sc_by_hash c h = Some e \<longleftrightarrow> e \<in> set (sc_entries c) \<and> ce_hash e = h)"

definition snapshots_ok :: "StateCache \<Rightarrow> StatePool \<Rightarrow> bool" where
  "snapshots_ok c p \<longleftrightarrow> distinct (map ce_state (sc_entries c)) \<and>
     ce_state ` set (sc_entries c) = {sp_max_active p..<sp_max_active p + sp_max_snapshots p} - set (sp_snapshot_free p)"

definition cache_ok :: "Ccop \<Rightarrow> StateCache \<Rightarrow> StatePool \<Rightarrow> bool" where
  "cache_ok co c p \<longleftrightarrow> index_ok c \<and> snapshots_ok c p \<and> pool_ok co p"

lemma entry_unique:
  assumes "index_ok c" "e \<in> set (sc_entries c)"
  shows "sc_by_hash c (ce_hash e) = Some e"
  using assms by (simp add: index_ok_def)

lemma erase_index:
  assumes ok: "index_ok c" and e: "e \<in> set (sc_entries c)"
  shows "index_ok (state_erase_entry e c)" "sc_entries (state_erase_entry e c) = remove1 e (sc_entries c)"
    "sc_lru (state_erase_entry e c) = remove1 e (sc_lru c)" "sc_by_hash (state_erase_entry e c) = (sc_by_hash c)(ce_hash e := None)"
    "sc_frontier_depth (state_erase_entry e c) = sc_frontier_depth c"
proof -
  show f: "sc_entries (state_erase_entry e c) = remove1 e (sc_entries c)"
    "sc_lru (state_erase_entry e c) = remove1 e (sc_lru c)" "sc_by_hash (state_erase_entry e c) = (sc_by_hash c)(ce_hash e := None)"
    "sc_frontier_depth (state_erase_entry e c) = sc_frontier_depth c"
    by (simp_all add: state_erase_entry_def Let_def is_in_lru_def remove1_idem)
  have d: "distinct (map ce_hash (sc_entries c))" "distinct (sc_entries c)" "distinct (sc_lru c)" "set (sc_lru c) = set (sc_entries c)"
    using ok by (auto simp: index_ok_def dest: distinct_map [THEN iffD1])
  have "x = e" if "x \<in> set (sc_entries c)" "ce_hash x = ce_hash e" for x
    using d(1) e that by (auto simp: distinct_map dest: inj_onD)
  then have "((sc_by_hash c)(ce_hash e := None)) h = Some x \<longleftrightarrow> x \<in> set (remove1 e (sc_entries c)) \<and> ce_hash x = h" for h x
    using ok d(2) by (auto simp: index_ok_def)
  moreover have "distinct (map ce_hash (remove1 e (sc_entries c)))" using d(1) by (simp add: distinct_map inj_on_def)
  ultimately show "index_ok (state_erase_entry e c)"
    unfolding index_ok_def f using d by simp
qed

lemma runs_on_pool: "runs (on_pool m) (c, pd) Q = runs m pd (\<lambda>r pd'. Q r (c, pd'))"
  by (auto simp: runs_def on_pool_def split: option.splits prod.splits)

lemma runs_on_cache [simp]: "runs (on_cache f) (c, pd) Q = Q (Inr ()) (f c, pd)"
  by (simp add: runs_def on_cache_def)

lemma runs_ignored: "runs m s P \<Longrightarrow> (\<And>r s'. P r s' \<Longrightarrow> Q (Inr ()) s') \<Longrightarrow> runs (ignored m) s Q"
  unfolding ignored_def by (erule runs_or_elseI) auto

lemma snapshot_fields [simp]:
  "sp_storage (give_snapshot s p) = sp_storage p" "sp_max_active (give_snapshot s p) = sp_max_active p"
  "sp_max_snapshots (give_snapshot s p) = sp_max_snapshots p" "sp_active_by_seq (give_snapshot s p) = sp_active_by_seq p"
  "sp_snapshot_free (give_snapshot s p) = sp_snapshot_free p @ [s]"
  "sp_storage (take_snapshot s rest p) = sp_storage p" "sp_max_active (take_snapshot s rest p) = sp_max_active p"
  "sp_max_snapshots (take_snapshot s rest p) = sp_max_snapshots p" "sp_active_by_seq (take_snapshot s rest p) = sp_active_by_seq p"
  "sp_snapshot_free (take_snapshot s rest p) = rest"
  by (simp_all add: give_snapshot_def take_snapshot_def)

lemma snapshot_owned:
  assumes "snapshots_ok c p" "e \<in> set (sc_entries c)"
  shows "sp_max_active p \<le> ce_state e" "ce_state e < sp_max_active p + sp_max_snapshots p" "ce_state e \<notin> set (sp_snapshot_free p)"
proof -
  have "ce_state e \<in> {sp_max_active p..<sp_max_active p + sp_max_snapshots p} - set (sp_snapshot_free p)"
    using assms unfolding snapshots_ok_def by blast
  then show "sp_max_active p \<le> ce_state e" "ce_state e < sp_max_active p + sp_max_snapshots p" "ce_state e \<notin> set (sp_snapshot_free p)"
    by simp_all
qed

text \<open>\<open>evicted\<close>: the cache after its least recently used entry is gone.\<close>

definition evicted :: "StateCacheEntry \<Rightarrow> StateCache \<Rightarrow> StateCache" where
  "evicted v c = (state_erase_entry v c)\<lparr>sc_evictions := sc_evictions c + 1\<rparr>"

lemma evicted_ok:
  assumes ok: "cache_ok co c p" and v: "v \<in> set (sc_entries c)"
  shows "cache_ok co (evicted v c) (give_snapshot (ce_state v) p)"
proof -
  have I: "index_ok c" "snapshots_ok c p" "pool_ok co p" using ok by (simp_all add: cache_ok_def)
  note E = erase_index [OF I(1) v] and O = snapshot_owned [OF I(2) v]
  have d: "distinct (map ce_state (sc_entries c))" "distinct (sc_entries c)"
    using I(2) by (auto simp: snapshots_ok_def dest: distinct_map [THEN iffD1])
  have inj: "inj_on ce_state (set (sc_entries c))" using d(1) by (simp add: distinct_map)
  have "ce_state ` set (remove1 v (sc_entries c)) = ce_state ` set (sc_entries c) - {ce_state v}"
    using inj v d(2) by (auto simp: inj_on_def)
  then have im: "ce_state ` set (remove1 v (sc_entries c)) =
      {sp_max_active p..<sp_max_active p + sp_max_snapshots p} - set (sp_snapshot_free p @ [ce_state v])"
    using I(2) unfolding snapshots_ok_def by (simp only: set_append) auto
  have "distinct (map ce_state (remove1 v (sc_entries c)))" using d by (simp add: distinct_map inj_on_def)
  then have "snapshots_ok (evicted v c) (give_snapshot (ce_state v) p)"
    unfolding snapshots_ok_def using im by (simp add: evicted_def E(2))
  moreover have "index_ok (evicted v c)" using E(1) by (simp add: evicted_def index_ok_def)
  ultimately show ?thesis using give_snapshot_ok(1) [OF I(3) O] by (simp add: cache_ok_def)
qed

lemma state_evict_one_spec:
  assumes ok: "cache_ok co c p"
  shows "runs (state_evict_one dbg) (c, p, d) (\<lambda>r (c', p', d'). d' = d \<and> (case sc_lru c of
    [] \<Rightarrow> r = Inr False \<and> c' = c \<and> p' = p
  | v # _ \<Rightarrow> r = Inr True \<and> c' = evicted v c \<and> p' = give_snapshot (ce_state v) p))"
proof (cases "sc_lru c")
  case Nil
  then show ?thesis by (simp add: state_evict_one_def runs_def)
next
  case (Cons v vs)
  have I: "index_ok c" "snapshots_ok c p" "pool_ok co p" using ok by (simp_all add: cache_ok_def)
  have v: "v \<in> set (sc_entries c)" using I(1) Cons by (auto simp: index_ok_def)
  note O = snapshot_owned [OF I(2) v]
  have ev: "sc_evictions (state_erase_entry v c) = sc_evictions c" by (simp add: state_erase_entry_def Let_def)
  have "runs (and_then (on_cache (state_erase_entry v)) (\<lambda>_.
         and_then (ignored (on_pool (release_snapshot dbg (ce_state v)))) (\<lambda>_.
         and_then (on_cache (\<lambda>c. c\<lparr>sc_evictions := sc_evictions c + 1\<rparr>)) (\<lambda>_. ret True)))) (c, p, d)
      (\<lambda>r (c', p', d'). d' = d \<and> r = Inr True \<and> c' = evicted v c \<and> p' = give_snapshot (ce_state v) p)"
    unfolding runs_and_then runs_on_cache sum.case
    by (rule runs_ignored [where P = "\<lambda>r (c', p', d'). d' = d \<and> c' = state_erase_entry v c \<and> p' = give_snapshot (ce_state v) p"])
      (use O in \<open>auto simp: runs_on_pool evicted_def ev intro!: runs_mono [OF release_snapshot_spec [OF I(3) O(3)]]\<close>)
  then show ?thesis using Cons entry_unique [OF I(1) v] by (simp add: state_evict_one_def runs_def)
qed

lemma add_entry_ok:
  assumes ok: "cache_ok co c p" and f: "sp_snapshot_free p = s # rest" and new: "\<not> has c h"
  shows "cache_ok co (add_entry h b s c) (take_snapshot s rest p)"
proof -
  let ?e = "\<lparr>ce_hash = h, ce_frontier = b, ce_state = s\<rparr>"
  have I: "index_ok c" "snapshots_ok c p" "pool_ok co p" using ok by (simp_all add: cache_ok_def)
  have fresh: "h \<notin> ce_hash ` set (sc_entries c)"
  proof
    assume "h \<in> ce_hash ` set (sc_entries c)"
    then obtain e where "e \<in> set (sc_entries c)" "h = ce_hash e" by auto
    then show False using entry_unique [OF I(1)] new by (simp add: has_def)
  qed
  have a: "sc_entries (add_entry h b s c) = sc_entries c @ [?e]" "sc_lru (add_entry h b s c) = sc_lru c @ [?e]"
    "sc_by_hash (add_entry h b s c) = (sc_by_hash c)(h \<mapsto> ?e)" by (simp_all add: add_entry_def Let_def)
  have "?e \<notin> set (sc_entries c)" using fresh by force
  then have "index_ok (add_entry h b s c)" using I(1) fresh unfolding index_ok_def a by auto
  moreover have "snapshots_ok (add_entry h b s c) (take_snapshot s rest p)"
  proof -
    have "distinct (s # rest)" "s \<in> {sp_max_active p..<sp_max_active p + sp_max_snapshots p}"
      using I(3) f by (auto simp: pool_ok_def lists_ok_def)
    then show ?thesis using I(2) f unfolding snapshots_ok_def a by auto
  qed
  ultimately show ?thesis using take_snapshot_ok(1) [OF I(3) f] by (simp add: cache_ok_def)
qed

text \<open>Room for one more snapshot: the pool after evicting if nothing is free.\<close>

definition ensure_room :: "StateCache \<Rightarrow> StatePool \<Rightarrow> StateCache \<times> StatePool" where
  "ensure_room c p = (if sp_snapshot_free p = [] then (evicted (hd (sc_lru c)) c, give_snapshot (ce_state (hd (sc_lru c))) p) else (c, p))"

lemma lru_nonempty:
  assumes ok: "cache_ok co c p" and "sp_snapshot_free p = []" "0 < sp_max_snapshots p"
  shows "sc_lru c \<noteq> []"
proof -
  have "sp_max_active p \<in> ce_state ` set (sc_entries c)" using assms by (simp add: cache_ok_def snapshots_ok_def)
  then show ?thesis using ok by (auto simp: cache_ok_def index_ok_def)
qed

lemma ensure_room_ok:
  assumes ok: "cache_ok co c p" and n: "0 < sp_max_snapshots p" and new: "\<not> has c h" and mr: "ensure_room c p = (c', p')"
  shows "cache_ok co c' p'" "sp_snapshot_free p' \<noteq> []" "\<not> has c' h" "sp_storage p' = sp_storage p" "sp_max_active p' = sp_max_active p"
    "sp_max_snapshots p' = sp_max_snapshots p" "sp_active_by_seq p' = sp_active_by_seq p"
proof -
  show "cache_ok co c' p'" "sp_snapshot_free p' \<noteq> []" "\<not> has c' h"
  proof (atomize(full), cases "sp_snapshot_free p = []")
    case True
    note l = lru_nonempty [OF ok True n]
    then have v: "hd (sc_lru c) \<in> set (sc_entries c)" using ok by (auto simp: cache_ok_def index_ok_def)
    have "index_ok c" using ok by (simp add: cache_ok_def)
    note E = erase_index [OF this v]
    show "cache_ok co c' p' \<and> sp_snapshot_free p' \<noteq> [] \<and> \<not> has c' h"
      using True mr evicted_ok [OF ok v] new by (auto simp: ensure_room_def has_def evicted_def E)
  next
    case False
    then show "cache_ok co c' p' \<and> sp_snapshot_free p' \<noteq> [] \<and> \<not> has c' h" using ok mr new by (auto simp: ensure_room_def)
  qed
  show "sp_storage p' = sp_storage p" "sp_max_active p' = sp_max_active p" "sp_max_snapshots p' = sp_max_snapshots p"
    "sp_active_by_seq p' = sp_active_by_seq p"
    using mr by (auto simp: ensure_room_def split: if_splits)
qed

lemma runs_ensure_room:
  assumes ok: "cache_ok co c p" and n: "0 < sp_max_snapshots p"
  shows "runs (if num_free_snapshots p = 0
         then and_then (state_evict_one dbg) (\<lambda>b. if b then ret () else fail MaxSequencesReached) else ret ()) (c, p, d)
    (\<lambda>r (c', p', d'). r = Inr () \<and> d' = d \<and> ensure_room c p = (c', p'))"
proof (cases "sp_snapshot_free p = []")
  case True
  obtain v vs where l: "sc_lru c = v # vs" using lru_nonempty [OF ok True n] by (cases "sc_lru c") auto
  have "runs (and_then (state_evict_one dbg) (\<lambda>b. if b then ret () else fail MaxSequencesReached)) (c, p, d)
    (\<lambda>r (c', p', d'). r = Inr () \<and> d' = d \<and> ensure_room c p = (c', p'))"
    by (rule runs_and_thenI [OF state_evict_one_spec [OF ok]]) (use l True in \<open>auto simp: ensure_room_def\<close>)
  then show ?thesis using True by (simp add: num_free_snapshots_def)
next
  case False
  then show ?thesis by (simp add: num_free_snapshots_def ensure_room_def)
qed

text \<open>A failed copy gives the snapshot back; the cache is then unchanged but for the eviction.\<close>

lemma give_back_ok:
  assumes ok: "cache_ok co c p" and f: "sp_snapshot_free p = s # rest"
  shows "cache_ok co c (give_snapshot s (take_snapshot s rest p))"
proof -
  have I: "index_ok c" "snapshots_ok c p" "pool_ok co p" using ok by (simp_all add: cache_ok_def)
  have "s \<in> {sp_max_active p..<sp_max_active p + sp_max_snapshots p}" "s \<notin> set rest" using I(3) f by (auto simp: pool_ok_def lists_ok_def)
  then have "pool_ok co (give_snapshot s (take_snapshot s rest p))"
    by (intro give_snapshot_ok(1) take_snapshot_ok(1) [OF I(3) f]) simp_all
  moreover have "snapshots_ok c (give_snapshot s (take_snapshot s rest p))" using I(2) f by (simp add: snapshots_ok_def)
  ultimately show ?thesis using I(1) by (simp add: cache_ok_def)
qed

lemma concat_singles: "concat (map (\<lambda>c. [c]) cs) = cs"
  by (induction cs) simp_all

lemma does_some_copy:
  assumes "does_some d (map (\<lambda>c. [c]) cs) r d'"
  shows "r \<noteq> Inl Ok" "r = Inr () \<Longrightarrow> extends d d' cs" "healthy d \<Longrightarrow> r = Inr ()"
  using assms by (simp_all add: does_some_def concat_singles)

definition snapshot_post :: "Ccop \<Rightarrow> hash \<Rightarrow> int \<Rightarrow> StateId \<Rightarrow> StateCache \<Rightarrow> StatePool \<Rightarrow> Device \<Rightarrow> unit result \<Rightarrow> cache_world \<Rightarrow> bool" where
  "snapshot_post co h b a c p d r w \<longleftrightarrow> (\<exists>c1 p1 s rest c' p' d'. w = (c', p', d') \<and> ensure_room c p = (c1, p1) \<and> sp_snapshot_free p1 = s # rest \<and>
     cache_ok co c' p' \<and> (case r of
       Inl e \<Rightarrow> e \<noteq> Ok \<and> \<not> healthy d \<and> c' = c1 \<and> p' = give_snapshot s (take_snapshot s rest p1)
     | Inr _ \<Rightarrow> c' = add_entry h b s c1 \<and> p' = take_snapshot s rest p1 \<and> extends d d' (copy_cmds co (sp_storage p) a s)))"

lemma snapshot_new:
  assumes ok: "cache_ok co c p" and n: "0 < sp_max_snapshots p" and new: "\<not> has c h" and b: "0 \<le> b" "b < sc_frontier_depth c"
    and a: "0 \<le> a" "a < sp_max_active p"
  shows "runs (snapshot dbg co h b a) (c, p, d) (snapshot_post co h b a c p d)"
proof -
  obtain c1 p1 where mr: "ensure_room c p = (c1, p1)" by (cases "ensure_room c p")
  note M = ensure_room_ok [OF ok n new mr]
  obtain s rest where f: "sp_snapshot_free p1 = s # rest" using M(2) by (cases "sp_snapshot_free p1") auto
  let ?p = "take_snapshot s rest p1"
  have P1: "pool_ok co p1" using M(1) by (simp add: cache_ok_def)
  note P = take_snapshot_ok(1) [OF P1 f]
  have s: "sp_max_active p1 \<le> s" "s < sp_max_active p1 + sp_max_snapshots p1" "s \<notin> set rest"
    using P1 f by (auto simp: pool_ok_def lists_ok_def)
  have sr: "snapshot_range ?p a s" using a s M(5) by (simp add: snapshot_range_def)
  let ?copy = "or_else (on_pool (copy_active_to_snapshot dbg co a s)) (\<lambda>e. and_then (ignored (on_pool (release_snapshot dbg s))) (\<lambda>_. fail e))"
  have copy: "runs ?copy (c1, ?p, d) (\<lambda>r w. case r of Inl e \<Rightarrow> snapshot_post co h b a c p d (Inl e) w
      | Inr _ \<Rightarrow> \<exists>d'. w = (c1, ?p, d') \<and> extends d d' (copy_cmds co (sp_storage p) a s))"
    unfolding runs_or_else runs_on_pool
  proof (rule runs_mono [OF copy_spec(1) [OF P]], goal_cases)
    case (1 r pd)
    then obtain d' where pd: "pd = (?p, d')" and D: "does_some d (map (\<lambda>c. [c]) (copy_cmds co (sp_storage ?p) a s)) r d'"
      using sr by (cases pd) auto
    note D = does_some_copy [OF D]
    show ?case
    proof (cases r)
      case (Inl e)
      have "runs (and_then (ignored (on_pool (release_snapshot dbg s))) (\<lambda>_. fail e)) (c1, ?p, d') (\<lambda>r w. r = Inl e \<and> snapshot_post co h b a c p d r w)"
        unfolding runs_and_then
        by (rule runs_ignored [where P = "\<lambda>_ w. w = (c1, give_snapshot s ?p, d')"])
          (use s f mr D(1,3) Inl give_back_ok [OF M(1) f] in \<open>auto simp: runs_on_pool snapshot_post_def intro!: runs_mono [OF release_snapshot_spec [OF P]]\<close>)
      then show ?thesis using Inl pd by (auto elim!: runs_mono)
    next
      case (Inr u)
      then show ?thesis using pd D(2) M(4) by simp
    qed
  qed
  have "runs (and_then (on_pool (acquire_snapshot dbg)) (\<lambda>s.
       and_then (or_else (on_pool (copy_active_to_snapshot dbg co a s))
           (\<lambda>e. and_then (ignored (on_pool (release_snapshot dbg s))) (\<lambda>_. fail e))) (\<lambda>_.
       on_cache (add_entry h b s)))) (c1, p1, d) (snapshot_post co h b a c p d)"
    unfolding runs_and_then [of "on_pool (acquire_snapshot dbg)"] runs_on_pool
  proof (rule runs_mono [OF acquire_snapshot_spec [OF P1]], goal_cases)
    case (1 r pd)
    then have pd: "pd = (?p, d)" "r = Inr s" using f by (auto split: prod.splits)
    show ?case
      unfolding pd sum.case
      by (rule runs_and_thenI [OF copy]) (use mr f add_entry_ok [OF M(1) f M(3)] in \<open>auto simp: snapshot_post_def\<close>)
  qed
  then have "runs (and_then (if num_free_snapshots p = 0
         then and_then (state_evict_one dbg) (\<lambda>b. if b then ret () else fail MaxSequencesReached) else ret ()) (\<lambda>_.
       and_then (on_pool (acquire_snapshot dbg)) (\<lambda>s.
       and_then (or_else (on_pool (copy_active_to_snapshot dbg co a s))
           (\<lambda>e. and_then (ignored (on_pool (release_snapshot dbg s))) (\<lambda>_. fail e))) (\<lambda>_.
       on_cache (add_entry h b s))))) (c, p, d) (snapshot_post co h b a c p d)"
    by (intro runs_and_thenI [OF runs_ensure_room [OF ok n]]) (auto simp: mr)
  then show ?thesis using new b by (simp add: snapshot_def runs_def)
qed

lemma restore_spec:
  assumes ok: "cache_ok co c p" and e: "sc_by_hash c h = Some e" and a: "0 \<le> a" "a < sp_max_active p"
  shows "runs (state_restore dbg co h a) (c, p, d) (\<lambda>r (c', p', d'). p' = p \<and> cache_ok co c' p \<and>
    sc_lru c' = remove1 e (sc_lru c) @ [e] \<and> r \<noteq> Inl Ok \<and> (healthy d \<longrightarrow> r = Inr ()) \<and>
    (r = Inr () \<longrightarrow> extends d d' (copy_cmds co (sp_storage p) (ce_state e) a)))"
proof -
  have I: "index_ok c" "snapshots_ok c p" "pool_ok co p" using ok by (simp_all add: cache_ok_def)
  have m: "e \<in> set (sc_entries c)" "e \<in> set (sc_lru c)" using I(1) e by (auto simp: index_ok_def)
  note O = snapshot_owned [OF I(2) m(1)]
  let ?c = "c\<lparr>sc_hits := sc_hits c + 1, sc_lru := remove1 e (sc_lru c) @ [e]\<rparr>"
  have c: "cache_ok co ?c p" using ok m by (auto simp: cache_ok_def index_ok_def snapshots_ok_def)
  have "runs (on_pool (restore_snapshot_to_active dbg co (ce_state e) a)) (?c, p, d) (\<lambda>r (c', p', d'). p' = p \<and> cache_ok co c' p \<and>
    sc_lru c' = remove1 e (sc_lru c) @ [e] \<and> r \<noteq> Inl Ok \<and> (healthy d \<longrightarrow> r = Inr ()) \<and>
    (r = Inr () \<longrightarrow> extends d d' (copy_cmds co (sp_storage p) (ce_state e) a)))"
    unfolding runs_on_pool
    by (rule runs_mono [OF copy_spec(2) [OF I(3)]])
      (use O a c in \<open>auto simp: snapshot_range_def simp del: map_append map_map map_concat dest: does_some_copy\<close>)
  then show ?thesis using e m by (simp add: state_restore_def runs_def is_in_lru_def)
qed

section \<open>Contents of the device memory\<close>

text \<open>
  How the device executes a command is a parameter. What the cache relies on is the documented effect
  of a copy between ranges that do not overlap.
\<close>

definition copies_ok :: "(DeviceCmd \<Rightarrow> (nat \<Rightarrow> int) \<Rightarrow> nat \<Rightarrow> int) \<Rightarrow> bool" where
  "copies_ok exec \<longleftrightarrow> (\<forall>dst src n m. dst + n \<le> src \<or> src + n \<le> dst \<longrightarrow>
     exec (Copy_D2D dst src n) m = (\<lambda>x. if dst \<le> x \<and> x < dst + n then m (src + (x - dst)) else m x))"

definition apart :: "Ccop \<Rightarrow> Tensor \<Rightarrow> Tensor \<Rightarrow> bool" where
  "apart co t u \<longleftrightarrow> t_data t + tensor_nbytes co t \<le> t_data u \<or> t_data u + tensor_nbytes co u \<le> t_data t"

lemma slice_inside:
  assumes "layer_wf co n t" "0 \<le> s" "s < n" "n \<le> INT_MAX" "k < slice_bytes co n t"
  shows "t_data t \<le> slice_at co n s t + k" "slice_at co n s t + k < t_data t + tensor_nbytes co t"
  using slice_exact(4) [OF assms(1) _ assms(4,2,3)] assms(2,3,5) by (simp_all add: slice_at_def)

lemma slices_apart:
  assumes "layer_wf co n t" "0 \<le> a" "a < n" "0 \<le> b" "b < n" "a \<noteq> b"
  shows "slice_at co n b t + slice_bytes co n t \<le> slice_at co n a t \<or> slice_at co n a t + slice_bytes co n t \<le> slice_at co n b t"
proof -
  have "Suc (nat b) * slice_bytes co n t \<le> nat a * slice_bytes co n t \<or> Suc (nat a) * slice_bytes co n t \<le> nat b * slice_bytes co n t"
  proof -
    have "Suc (nat b) \<le> nat a \<or> Suc (nat a) \<le> nat b" using assms(2,4,6) by arith
    then show ?thesis by (meson mult_le_mono1)
  qed
  then show ?thesis by (auto simp: slice_at_def)
qed

lemma copy_all:
  assumes ex: "copies_ok exec" and wf: "list_all (layer_wf co n) ts" and ap: "sorted_wrt (apart co) ts"
    and ab: "0 \<le> a" "a < n" "0 \<le> b" "b < n" "a \<noteq> b" and n: "n \<le> INT_MAX"
  defines "cs \<equiv> map (\<lambda>t. Copy_D2D (slice_at co n b t) (slice_at co n a t) (slice_bytes co n t)) ts"
  shows "(\<forall>t \<in> set ts. \<forall>k < slice_bytes co n t. fold exec cs m (slice_at co n b t + k) = m (slice_at co n a t + k)) \<and>
    (\<forall>x. (\<forall>t \<in> set ts. \<not> (t_data t \<le> x \<and> x < t_data t + tensor_nbytes co t)) \<longrightarrow> fold exec cs m x = m x)"
  using wf ap unfolding cs_def
proof (induction ts arbitrary: m)
  case (Cons t ts)
  let ?f = "\<lambda>t. Copy_D2D (slice_at co n b t) (slice_at co n a t) (slice_bytes co n t)"
  let ?m = "exec (?f t) m"
  have t: "layer_wf co n t" and ts: "list_all (layer_wf co n) ts" "sorted_wrt (apart co) ts" and tu: "\<And>u. u \<in> set ts \<Longrightarrow> apart co t u"
    using Cons.prems by simp_all
  have m: "?m = (\<lambda>x. if slice_at co n b t \<le> x \<and> x < slice_at co n b t + slice_bytes co n t
      then m (slice_at co n a t + (x - slice_at co n b t)) else m x)"
    using ex slices_apart [OF t ab] unfolding copies_ok_def by blast
  note IH = Cons.IH [OF ts, of ?m]
  have out: "?m x = m x" if "\<not> (t_data t \<le> x \<and> x < t_data t + tensor_nbytes co t)" for x
  proof (cases "slice_at co n b t \<le> x \<and> x < slice_at co n b t + slice_bytes co n t")
    case True
    then have "x - slice_at co n b t < slice_bytes co n t" by linarith
    from slice_inside [OF t ab(3,4) n this] that True show ?thesis by simp
  qed (auto simp: m)
  have away: "\<not> (t_data u \<le> x \<and> x < t_data u + tensor_nbytes co u)" if "u \<in> set ts" "t_data t \<le> x" "x < t_data t + tensor_nbytes co t" for u x
    using tu [OF that(1)] that(2,3) by (auto simp: apart_def)
  have "fold exec (map ?f ts) ?m (slice_at co n b t + k) = m (slice_at co n a t + k)" if "k < slice_bytes co n t" for k
    using IH away slice_inside [OF t ab(3,4) n that] that by (simp add: m)
  moreover have "fold exec (map ?f ts) ?m (slice_at co n b u + k) = m (slice_at co n a u + k)" if "u \<in> set ts" "k < slice_bytes co n u" for u k
  proof -
    have u: "layer_wf co n u" using ts(1) that(1) by (simp add: list_all_iff)
    have "?m (slice_at co n a u + k) = m (slice_at co n a u + k)"
      using slice_inside [OF u ab(1,2) n that(2)] away [OF that(1), of "slice_at co n a u + k"] by (intro out) blast
    then show ?thesis using IH that by simp
  qed
  ultimately show ?case using IH out by auto
qed simp

text \<open>
  C29. Taking a snapshot of a recurrent state and restoring it later, into any active state, brings the
  state back: after the restore every layer's slice holds what the snapshotted state held, provided
  nothing wrote to the snapshot in between. Neither operation can fail on a working device, however full
  the cache is, and the entry is found again.
\<close>

theorem snapshot_restore_roundtrip:
  assumes ok: "cache_ok co c p" and room: "0 < sp_max_snapshots p" and new: "\<not> has c h" and b: "0 \<le> b" "b < sc_frontier_depth c"
    and a: "0 \<le> a" "a < sp_max_active p" "0 \<le> a'" "a' < sp_max_active p"
    and h1: "healthy d" and h2: "healthy d2" and ex: "copies_ok exec"
    and ap: "sorted_wrt (apart co) (sg_recurrent (sp_storage p) @ sg_conv (sp_storage p))"
  defines "layers \<equiv> set (sg_recurrent (sp_storage p) @ sg_conv (sp_storage p))" and "n \<equiv> sg_num_states (sp_storage p)"
  shows "runs (snapshot dbg co h b a) (c, p, d) (\<lambda>r (c1, p1, d1). r = Inr () \<and> has c1 h \<and>
    runs (state_restore dbg co h a') (c1, p1, d2) (\<lambda>r (c2, p2, d3). r = Inr () \<and> cache_ok co c2 p2 \<and>
      (\<forall>m m'. (\<forall>t \<in> layers. \<forall>k < slice_bytes co n t. m' (slice_at co n (state_id_of c1 h) t + k) =
          fold exec (issued d d1) m (slice_at co n (state_id_of c1 h) t + k)) \<longrightarrow>
        (\<forall>t \<in> layers. \<forall>k < slice_bytes co n t. fold exec (issued d2 d3) m' (slice_at co n a' t + k) = m (slice_at co n a t + k)))))"
proof (rule runs_mono [OF snapshot_new [OF ok room new b a(1,2)]], goal_cases)
  case (1 r w)
  then obtain c1 p0 s rest d1 where mr: "ensure_room c p = (c1, p0)" "sp_snapshot_free p0 = s # rest" and r: "r = Inr ()"
    and w: "w = (add_entry h b s c1, take_snapshot s rest p0, d1)" and ok1: "cache_ok co (add_entry h b s c1) (take_snapshot s rest p0)"
    and cp: "extends d d1 (copy_cmds co (sp_storage p) a s)"
    using h1 unfolding snapshot_post_def by (cases r) auto
  let ?c = "add_entry h b s c1" and ?p = "take_snapshot s rest p0"
  note M = ensure_room_ok [OF ok room new mr(1)]
  have e: "sc_by_hash ?c h = Some \<lparr>ce_hash = h, ce_frontier = b, ce_state = s\<rparr>" by (simp add: add_entry_def Let_def)
  have st: "state_id_of ?c h = s" "has ?c h" using e by (simp_all add: state_id_of_def has_def)
  have pk: "pool_ok co p" "pool_ok co p0" using ok M(1) by (simp_all add: cache_ok_def)
  have s: "sp_max_active p \<le> s" "s < n" using pk(2) mr(2) M(4-6) by (auto simp: pool_ok_def lists_ok_def n_def)
  have wf: "list_all (layer_wf co n) (sg_recurrent (sp_storage p) @ sg_conv (sp_storage p))" "n \<le> INT_MAX" "sp_max_active p \<le> n"
    using pk(1) unfolding n_def by (auto simp: pool_ok_def storage_wf_def lists_ok_def)
  have ss: "concat (map (\<lambda>t. [f t]) xs) = map f xs" for f :: "Tensor \<Rightarrow> DeviceCmd" and xs by (induction xs) simp_all
  have C: "\<forall>t \<in> layers. \<forall>k < slice_bytes co n t. fold exec (copy_cmds co (sp_storage p) x y) m (slice_at co n y t + k) = m (slice_at co n x t + k)"
    if "0 \<le> x" "x < n" "0 \<le> y" "y < n" "x \<noteq> y" for x y m
    using copy_all [OF ex wf(1) ap that wf(2), of m] unfolding layers_def ss n_def by blast
  have "runs (state_restore dbg co h a') (?c, ?p, d2) (\<lambda>r (c2, p2, d3). r = Inr () \<and> cache_ok co c2 p2 \<and>
      extends d2 d3 (copy_cmds co (sp_storage p) s a'))"
    using h2 M(4) by (intro runs_mono [OF restore_spec [OF ok1 e a(3)]]) (use a(4) M(5) in auto)
  then show ?case
    unfolding w prod.case st r
  proof (intro conjI refl st(2), elim runs_mono, goal_cases)
    case (1 r2 w2)
    then obtain c2 p2 d3 where w2: "w2 = (c2, p2, d3)" "r2 = Inr ()" "cache_ok co c2 p2" "extends d2 d3 (copy_cmds co (sp_storage p) s a')"
      by (cases w2) auto
    show ?case
      unfolding w2 prod.case using w2(3) C [of a s] C [of s a'] a s wf(3) by (simp add: extends_issued [OF cp] extends_issued [OF w2(4)])
  qed
qed


fun model_exec :: "DeviceCmd \<Rightarrow> (nat \<Rightarrow> int) \<Rightarrow> nat \<Rightarrow> int" where
  "model_exec (Copy_D2D dst src n) m = (\<lambda>x. if dst \<le> x \<and> x < dst + n then m (src + (x - dst)) else m x)"
| "model_exec _ m = m"

definition model_cache :: StateCache where
  "model_cache = \<lparr>sc_frontier_depth = 4, sc_entries = [], sc_lru = [], sc_by_hash = Map.empty, sc_hits = 0, sc_misses = 0, sc_evictions = 0\<rparr>"

lemma model_cache_ok: "cache_ok model_ccop model_cache (pool_of_states model_storage 2 1)"
  using model_pool_ok pool_of_states_free(2) [of 2 1 model_storage]
  by (simp add: cache_ok_def index_ok_def snapshots_ok_def model_cache_def) (simp add: pool_of_states_def Let_def)

theorem snapshot_restore_roundtrip_witness:
  "runs (snapshot True model_ccop 5 0 0) (model_cache, pool_of_states model_storage 2 1, model_device) (\<lambda>r (c1, p1, d1).
     r = Inr () \<and> has c1 5 \<and> runs (state_restore True model_ccop 5 1) (c1, p1, model_device) (\<lambda>r (c2, p2, d3). r = Inr ()))"
proof -
  have P: "sp_max_active (pool_of_states model_storage 2 1) = 2" "sp_max_snapshots (pool_of_states model_storage 2 1) = 1"
    "sp_storage (pool_of_states model_storage 2 1) = model_storage"
    by (simp_all add: pool_of_states_def Let_def)
  have ap: "sorted_wrt (apart model_ccop) (sg_recurrent (sp_storage (pool_of_states model_storage 2 1)) @
      sg_conv (sp_storage (pool_of_states model_storage 2 1)))"
    unfolding P by (simp add: model_storage_def apart_def tensor_nbytes_def model_ccop_def)
  have ex: "copies_ok model_exec" by (simp add: copies_ok_def)
  have h: "healthy model_device" by (simp add: healthy_def model_device_def)
  have "\<not> has model_cache 5" by (simp add: has_def model_cache_def)
  from snapshot_restore_roundtrip [OF model_cache_ok _ this, of 0 0 1 model_device model_device model_exec True] show ?thesis
    using P ap ex h by (simp add: model_cache_def) (elim runs_mono, auto elim!: runs_mono)
qed

end
