(* ===== verification/Batch_Translate.thy ===== *)
theory Batch_Translate
  imports State_Pool Scheduler_Inv
begin

text \<open>
  Translation of a scheduled batch into device arrays: \<^verbatim>\<open>Worker::BatchTranslator::translate\<close> of
  \<^verbatim>\<open>src/src/worker/worker.cpp\<close> and \<^verbatim>\<open>PhysicalBatch\<close> of \<^verbatim>\<open>model_runner.h\<close>. The host vectors are lists with
  indexed writes; a write or read outside a vector, or an \<^verbatim>\<open>int\<close> that does not fit, is undefined. A
  tensor member that was never set is \<^term>\<open>None\<close>.
\<close>

record PhysicalBatch =
  pb_num_tokens :: int
  pb_token_ids :: "Tensor option"
  pb_positions :: "Tensor option"
  pb_slot_mapping :: "Tensor option"
  pb_batch_size :: int
  pb_max_blocks_per_req :: int
  pb_block_table :: "Tensor option"
  pb_query_start_loc :: "Tensor option"
  pb_context_lens :: "Tensor option"
  pb_logits_indices :: "Tensor option"
  pb_state_mapping :: "Tensor option"
  pb_mode :: ForwardMode
  pb_item_seq_ids :: "SequenceId list"
  pb_item_kinds :: "WorkKind list"
  pb_item_token_counts :: "int list"
  pb_sample_flags :: "bool list"
  pb_logits_rows_host :: "int list"
  pb_num_logits :: int
  pb_max_position_id :: int

fun work_context :: "WorkItem \<Rightarrow> int" where
  "work_context (Prefill_Work w) = (case pc_expected_context_len w of None \<Rightarrow> 0 | Some c \<Rightarrow> c)"
| "work_context (Decode_Work w) = (case dt_expected_context_len w of None \<Rightarrow> 0 | Some c \<Rightarrow> c)"

fun work_table :: "WorkItem \<Rightarrow> BlockTable" where
  "work_table (Prefill_Work w) = pc_block_table w"
| "work_table (Decode_Work w) = dt_block_table w"

fun work_writes :: "WorkItem \<Rightarrow> bool" where
  "work_writes (Prefill_Work w) = True"
| "work_writes (Decode_Work w) = dt_write_kv w"

fun late_bound :: "WorkItem \<Rightarrow> bool" where
  "late_bound (Prefill_Work w) = False"
| "late_bound (Decode_Work w) = dt_late_bind w"

text \<open>The first loop: the assertions, the widest table and the number of tokens.\<close>

fun scan_items :: "bool \<Rightarrow> int \<Rightarrow> WorkItem list \<Rightarrow> int \<Rightarrow> int \<Rightarrow> (int \<times> int) option" where
  "scan_items dbg bs [] widest total_tokens = Some (widest, total_tokens)"
| "scan_items dbg bs (item # items) widest total_tokens = do {
     let context = work_context item;
     let table = work_table item;
     let writes = work_writes item;
     assert_that dbg (\<not> late_bound item);
     assert_that dbg (block_ids table \<noteq> []);
     assert_that dbg (context \<ge> 0);
     assert_that dbg (context + (if writes then work_token_count item else 0) \<le> token_capacity table bs);
     require (total_tokens + work_token_count item \<le> INT_MAX);
     scan_items dbg bs items (max widest (table_size table)) (total_tokens + work_token_count item)
   }"

text \<open>The host arrays and the running totals of the second loop.\<close>

record Arrays =
  ar_token_ids :: "int list"
  ar_positions :: "int list"
  ar_slots :: "int list"
  ar_block_table :: "int list"
  ar_query_start :: "int list"
  ar_context_lens :: "int list"
  ar_logits_indices :: "int list"
  ar_item_counts :: "int list"
  ar_item_seq_ids :: "SequenceId list"
  ar_item_kinds :: "WorkKind list"
  ar_sample_flags :: "bool list"
  ar_logits_rows :: "int list"
  ar_offset :: int
  ar_num_logits :: int
  ar_max_position :: int
  ar_has_prefill :: bool
  ar_has_decode :: bool

definition arrays_init :: "nat \<Rightarrow> int \<Rightarrow> int \<Rightarrow> Arrays" where
  "arrays_init cnt widest total_tokens =
     \<lparr>ar_token_ids = replicate (nat total_tokens) 0, ar_positions = replicate (nat total_tokens) 0,
      ar_slots = replicate (nat total_tokens) 0, ar_block_table = replicate (cnt * nat widest) (-1),
      ar_query_start = replicate (cnt + 1) 0, ar_context_lens = replicate cnt 0,
      ar_logits_indices = replicate cnt (-1), ar_item_counts = replicate cnt 0, ar_item_seq_ids = replicate cnt 0,
      ar_item_kinds = replicate cnt WKPrefillChunk, ar_sample_flags = replicate cnt False, ar_logits_rows = [],
      ar_offset = 0, ar_num_logits = 0, ar_max_position = 0, ar_has_prefill = False, ar_has_decode = False\<rparr>"

definition put :: "int \<Rightarrow> 'a \<Rightarrow> 'a list \<Rightarrow> 'a list option" where
  "put i v xs = (if 0 \<le> i \<and> i < int (length xs) then Some (xs[nat i := v]) else None)"

definition get :: "int \<Rightarrow> 'a list \<Rightarrow> 'a option" where
  "get i xs = (if 0 \<le> i \<and> i < int (length xs) then Some (xs ! nat i) else None)"

text \<open>The slot of a position; \<^verbatim>\<open>/\<close> and \<^verbatim>\<open>%\<close> truncate towards zero.\<close>

definition slot_of :: "int \<Rightarrow> BlockTable \<Rightarrow> int \<Rightarrow> int option" where
  "slot_of bs table pos = do {
     require (bs \<noteq> 0);
     b \<leftarrow> get (pos sdiv bs) (block_ids table);
     let slot = b * bs + pos smod bs;
     require (INT_MIN \<le> slot \<and> slot \<le> INT_MAX);
     Some slot
   }"

fun put_blocks :: "int list \<Rightarrow> int \<Rightarrow> int list \<Rightarrow> int list option" where
  "put_blocks [] at xs = Some xs"
| "put_blocks (b # bs) at xs = do { xs \<leftarrow> put at b xs; put_blocks bs (at + 1) xs }"

fun fill_prefill :: "int \<Rightarrow> PrefillChunk \<Rightarrow> int \<Rightarrow> int \<Rightarrow> nat \<Rightarrow> Arrays \<Rightarrow> Arrays option" where
  "fill_prefill bs work context t 0 a = Some a"
| "fill_prefill bs work context t (Suc left) a = do {
     let pos = context + t;
     let at = ar_offset a + t;
     require (pos \<le> INT_MAX);
     tok \<leftarrow> get t (pc_tokens work);
     ids \<leftarrow> put at tok (ar_token_ids a);
     ps \<leftarrow> put at pos (ar_positions a);
     slot \<leftarrow> slot_of bs (pc_block_table work) pos;
     ss \<leftarrow> put at slot (ar_slots a);
     fill_prefill bs work context (t + 1) left (a\<lparr>ar_token_ids := ids, ar_positions := ps, ar_slots := ss\<rparr>)
   }"

definition fill_decode :: "int \<Rightarrow> DecodeOneToken \<Rightarrow> int \<Rightarrow> Arrays \<Rightarrow> Arrays option" where
  "fill_decode bs work context a = do {
     let writes = dt_write_kv work;
     let pos = (if writes then context else max 0 (context - 1));
     ids \<leftarrow> put (ar_offset a) (dt_input_token work) (ar_token_ids a);
     ps \<leftarrow> put (ar_offset a) pos (ar_positions a);
     slot \<leftarrow> (if writes then slot_of bs (dt_block_table work) pos else Some (-1));
     ss \<leftarrow> put (ar_offset a) slot (ar_slots a);
     Some (a\<lparr>ar_token_ids := ids, ar_positions := ps, ar_slots := ss\<rparr>)
   }"

definition fill_work :: "int \<Rightarrow> WorkItem \<Rightarrow> int \<Rightarrow> Arrays \<Rightarrow> (Arrays \<times> bool) option" where
  "fill_work bs item context a = (case item of
     Prefill_Work work \<Rightarrow> do { a \<leftarrow> fill_prefill bs work context 0 (nat (work_token_count item)) a; Some (a, pc_needs_sample work) }
   | Decode_Work work \<Rightarrow> do { a \<leftarrow> fill_decode bs work context a; Some (a, True) })"

definition fill_item :: "int \<Rightarrow> int \<Rightarrow> int \<Rightarrow> WorkItem \<Rightarrow> Arrays \<Rightarrow> Arrays option" where
  "fill_item bs widest i item a = do {
     let context = work_context item;
     let table = work_table item;
     let tokens = work_token_count item;
     let prefill = is_prefill_work item;
     let writes = work_writes item;
     let offset = ar_offset a;
     counts \<leftarrow> put i tokens (ar_item_counts a);
     seqs \<leftarrow> put i (work_sequence_id item) (ar_item_seq_ids a);
     kinds \<leftarrow> put i (work_kind item) (ar_item_kinds a);
     query \<leftarrow> put i offset (ar_query_start a);
     tables \<leftarrow> put_blocks (block_ids table) (i * widest) (ar_block_table a);
     (a, flag) \<leftarrow> fill_work bs item context (a\<lparr>ar_item_counts := counts, ar_item_seq_ids := seqs, ar_item_kinds := kinds,
       ar_has_prefill := ar_has_prefill a \<or> prefill, ar_has_decode := ar_has_decode a \<or> \<not> prefill,
       ar_query_start := query, ar_block_table := tables\<rparr>);
     flags \<leftarrow> put i flag (ar_sample_flags a);
     ctx \<leftarrow> put i (context + (if writes then tokens else 0)) (ar_context_lens a);
     last_pos \<leftarrow> get (offset + tokens - 1) (ar_positions a);
     let a = a\<lparr>ar_sample_flags := flags, ar_context_lens := ctx, ar_max_position := max (ar_max_position a) last_pos\<rparr>;
     a \<leftarrow> (if flag then do {
         idx \<leftarrow> put i (ar_num_logits a) (ar_logits_indices a);
         Some (a\<lparr>ar_logits_indices := idx, ar_num_logits := ar_num_logits a + 1,
           ar_logits_rows := ar_logits_rows a @ [offset + tokens - 1]\<rparr>)
       } else Some a);
     Some (a\<lparr>ar_offset := offset + tokens\<rparr>)
   }"

fun fill_items :: "int \<Rightarrow> int \<Rightarrow> int \<Rightarrow> WorkItem list \<Rightarrow> Arrays \<Rightarrow> Arrays option" where
  "fill_items bs widest i [] a = Some a"
| "fill_items bs widest i (item # items) a = do {
     a \<leftarrow> fill_item bs widest i item a;
     fill_items bs widest (i + 1) items a
   }"

definition host_arrays :: "bool \<Rightarrow> int \<Rightarrow> WorkItem list \<Rightarrow> (int \<times> int \<times> Arrays) option" where
  "host_arrays dbg bs items = do {
     assert_that dbg (bs > 0);
     assert_that dbg (items \<noteq> []);
     (widest, total_tokens) \<leftarrow> scan_items dbg bs items 0 0;
     a \<leftarrow> fill_items bs widest 0 items (arrays_init (length items) widest total_tokens);
     query \<leftarrow> put (int (length items)) (ar_offset a) (ar_query_start a);
     Some (widest, total_tokens, a\<lparr>ar_query_start := query\<rparr>)
   }"

definition state_slots :: "StatePool option \<Rightarrow> SequenceId list \<Rightarrow> int list" where
  "state_slots sp seqs = (case sp of None \<Rightarrow> map (\<lambda>_. -1) seqs
     | Some p \<Rightarrow> map (\<lambda>q. case active_state_of p q of None \<Rightarrow> -1 | Some s \<Rightarrow> s) seqs)"

definition mode_of :: "Arrays \<Rightarrow> ForwardMode" where
  "mode_of a = (if ar_has_prefill a \<and> ar_has_decode a then FMMixed else if ar_has_prefill a then FMPrefill else FMDecode)"

definition upload :: "bool \<Rightarrow> Ccop \<Rightarrow> int list \<Rightarrow> int list \<Rightarrow> (Device, Tensor) act" where
  "upload dbg co values shape = from_host dbg co (Some values) DT_Int32 shape"

definition translate :: "bool \<Rightarrow> Ccop \<Rightarrow> int \<Rightarrow> StatePool option \<Rightarrow> ScheduledBatch \<Rightarrow> (Device, PhysicalBatch) act" where
  "translate dbg co bs sp batch =
     and_then (lift_opt (host_arrays dbg bs (sb_items batch))) (\<lambda>(widest, total_tokens, a).
     let cnt = int (length (sb_items batch)) in
     and_then (upload dbg co (ar_token_ids a) [total_tokens]) (\<lambda>token.
     and_then (upload dbg co (ar_positions a) [total_tokens]) (\<lambda>position.
     and_then (upload dbg co (ar_slots a) [total_tokens]) (\<lambda>slot.
     and_then (upload dbg co (ar_block_table a) [cnt, widest]) (\<lambda>table.
     and_then (upload dbg co (ar_query_start a) [cnt + 1]) (\<lambda>query.
     and_then (upload dbg co (ar_context_lens a) [cnt]) (\<lambda>context.
     and_then (upload dbg co (ar_logits_indices a) [cnt]) (\<lambda>logits.
     and_then (if sp \<noteq> None then and_then (upload dbg co (state_slots sp (ar_item_seq_ids a)) [cnt]) (\<lambda>t. ret (Some t)) else ret None) (\<lambda>mapping.
     and_then synchronize (\<lambda>_.
     ret \<lparr>pb_num_tokens = total_tokens, pb_token_ids = Some token, pb_positions = Some position, pb_slot_mapping = Some slot,
       pb_batch_size = cnt, pb_max_blocks_per_req = widest, pb_block_table = Some table, pb_query_start_loc = Some query,
       pb_context_lens = Some context, pb_logits_indices = Some logits, pb_state_mapping = mapping, pb_mode = mode_of a,
       pb_item_seq_ids = ar_item_seq_ids a, pb_item_kinds = ar_item_kinds a, pb_item_token_counts = ar_item_counts a,
       pb_sample_flags = ar_sample_flags a, pb_logits_rows_host = ar_logits_rows a, pb_num_logits = ar_num_logits a,
       pb_max_position_id = ar_max_position a\<rparr>))))))))))"

end
