(* ===== verification/Translate_Spec.thy ===== *)
theory Translate_Spec
  imports Batch_Translate Engine_Safety
begin

text \<open>
  What the translated arrays hold: the indexed writes of the translator produce the concatenation of the
  items' tokens, positions and slots, and every slot written lies in a block of the item's own table.
\<close>

section \<open>What the arrays hold\<close>

fun item_tokens :: "WorkItem \<Rightarrow> int list" where
  "item_tokens (Prefill_Work w) = pc_tokens w"
| "item_tokens (Decode_Work w) = [dt_input_token w]"

fun item_positions :: "WorkItem \<Rightarrow> int list" where
  "item_positions (Prefill_Work w) = map (\<lambda>t. work_context (Prefill_Work w) + int t) [0..<length (pc_tokens w)]"
| "item_positions (Decode_Work w) = [if dt_write_kv w then work_context (Decode_Work w) else max 0 (work_context (Decode_Work w) - 1)]"

definition slot_at :: "int \<Rightarrow> BlockId list \<Rightarrow> int \<Rightarrow> int" where
  "slot_at bs table pos = table ! nat (pos div bs) * bs + pos mod bs"

definition item_slots :: "int \<Rightarrow> WorkItem \<Rightarrow> int list" where
  "item_slots bs it = (if work_writes it then map (slot_at bs (item_table it)) (item_positions it) else [-1])"

definition item_row :: "int \<Rightarrow> WorkItem \<Rightarrow> int list" where
  "item_row widest it = item_table it @ replicate (nat widest - length (item_table it)) (-1)"

definition item_context :: "WorkItem \<Rightarrow> int" where
  "item_context it = work_context it + (if work_writes it then work_token_count it else 0)"

definition token_total :: "WorkItem list \<Rightarrow> int" where
  "token_total items = (\<Sum>it \<leftarrow> items. work_token_count it)"

definition sample_total :: "WorkItem list \<Rightarrow> int" where
  "sample_total items = int (length (filter samples items))"

definition starts :: "WorkItem list \<Rightarrow> nat \<Rightarrow> int list" where
  "starts items n = map (\<lambda>i. token_total (take i items)) [0..<n]"

definition logits_at :: "WorkItem list \<Rightarrow> nat \<Rightarrow> int" where
  "logits_at items i = (if samples (items ! i) then sample_total (take i items) else -1)"

definition sampled_rows :: "WorkItem list \<Rightarrow> int list" where
  "sampled_rows items = map (\<lambda>i. token_total (take (Suc i) items) - 1) (filter (\<lambda>i. samples (items ! i)) [0..<length items])"

text \<open>The item stays inside its blocks and its arithmetic inside \<^verbatim>\<open>int\<close>.\<close>

definition item_ready :: "int \<Rightarrow> WorkItem \<Rightarrow> bool" where
  "item_ready bs it \<longleftrightarrow> 0 \<le> work_context it \<and> item_context it \<le> int (length (item_table it)) * bs \<and>
     item_context it \<le> INT_MAX \<and> 0 < work_token_count it \<and> int (length (item_tokens it)) = work_token_count it \<and>
     (\<forall>b \<in> set (item_table it). 0 \<le> b \<and> b * bs + bs - 1 \<le> INT_MAX)"

text \<open>The arrays after a prefix of the items; what is still to come holds the initial values.\<close>

definition arrays_of :: "int \<Rightarrow> int \<Rightarrow> nat \<Rightarrow> nat \<Rightarrow> WorkItem list \<Rightarrow> Arrays" where
  "arrays_of bs widest tot n items = (let more = tot - nat (token_total items); left = n - length items in
     \<lparr>ar_token_ids = concat (map item_tokens items) @ replicate more 0,
      ar_positions = concat (map item_positions items) @ replicate more 0,
      ar_slots = concat (map (item_slots bs) items) @ replicate more 0,
      ar_block_table = concat (map (item_row widest) items) @ replicate (left * nat widest) (-1),
      ar_query_start = starts items (length items) @ replicate (left + 1) 0,
      ar_context_lens = map item_context items @ replicate left 0,
      ar_logits_indices = map (logits_at items) [0..<length items] @ replicate left (-1),
      ar_item_counts = map work_token_count items @ replicate left 0,
      ar_item_seq_ids = map work_sequence_id items @ replicate left 0,
      ar_item_kinds = map work_kind items @ replicate left WKPrefillChunk,
      ar_sample_flags = map samples items @ replicate left False,
      ar_logits_rows = sampled_rows items,
      ar_offset = token_total items, ar_num_logits = sample_total items,
      ar_max_position = fold (\<lambda>it m. max m (last (item_positions it))) items 0,
      ar_has_prefill = list_ex is_prefill_work items, ar_has_decode = list_ex (\<lambda>it. \<not> is_prefill_work it) items\<rparr>)"

lemma put_next: "i = int (length xs) \<Longrightarrow> put i v (xs @ replicate (Suc k) z) = Some ((xs @ [v]) @ replicate k z)"
  by (simp add: put_def list_update_append)

lemma put_map_next:
  "put (int (length xs)) v (map f xs @ z # r) = Some (map f xs @ v # r)"
  "put (int n) v (map g [0..<n] @ z # r') = Some (map g [0..<n] @ v # r')"
  "put (int n) t (starts ys n @ u # r'') = Some (starts ys n @ t # r'')"
  by (simp_all add: put_def list_update_append starts_def)

lemma put_blocks_next:
  "i = int (length xs) \<Longrightarrow> put_blocks ys i (xs @ replicate (length ys + k) z) = Some ((xs @ ys) @ replicate k z)"
proof (induction ys arbitrary: i xs)
  case (Cons y ys)
  from Cons.IH [of "i + 1" "xs @ [y]"] Cons.prems show ?case
    using put_next [OF Cons.prems, of y "length ys + k" z] by simp
qed simp

lemma slot_of_ok:
  assumes "0 < bs" "0 \<le> pos" "pos < int (length (block_ids table)) * bs" "\<forall>b \<in> set (block_ids table). 0 \<le> b \<and> b * bs + bs - 1 \<le> INT_MAX"
  shows "slot_of bs table pos = Some (slot_at bs (block_ids table) pos)"
proof -
  have d: "pos sdiv bs = pos div bs" "pos smod bs = pos mod bs" using assms(1,2) by (simp_all add: signed_divide_int_def signed_modulo_int_def sgn_if)
  have r: "0 \<le> pos div bs" "pos div bs < int (length (block_ids table))"
  proof -
    have "pos div bs * bs \<le> pos" using assms(1) by (simp flip: minus_mod_eq_div_mult)
    then have "pos div bs * bs < int (length (block_ids table)) * bs" using assms(3) by linarith
    then show "pos div bs < int (length (block_ids table))" using assms(1) by simp
  qed (use assms(1,2) in \<open>simp add: pos_imp_zdiv_nonneg_iff\<close>)
  then have m: "block_ids table ! nat (pos div bs) \<in> set (block_ids table)" by (simp add: nat_less_iff)
  have b: "0 \<le> pos mod bs" "pos mod bs \<le> bs - 1" using assms(1) by simp_all
  have "0 \<le> block_ids table ! nat (pos div bs) * bs" using assms(1,4) m by (simp add: zero_le_mult_iff)
  moreover have "block_ids table ! nat (pos div bs) * bs + pos mod bs \<le> INT_MAX" using assms(4) m b(2) by fastforce
  ultimately show ?thesis using assms(1) r b by (simp add: slot_of_def get_def d slot_at_def INT_MIN_def)
qed

lemma fill_prefill_ok:
  assumes bs: "0 < bs" and c: "0 \<le> context" and cap: "context + int (length (pc_tokens w)) \<le> int (length (block_ids (pc_block_table w))) * bs"
    and im: "context + int (length (pc_tokens w)) \<le> INT_MAX"
    and blocks: "\<forall>b \<in> set (block_ids (pc_block_table w)). 0 \<le> b \<and> b * bs + bs - 1 \<le> INT_MAX"
    and len: "t + left = length (pc_tokens w)"
    and ar: "ar_token_ids a = X @ replicate (left + k) 0" "ar_positions a = P @ replicate (left + k) 0" "ar_slots a = S @ replicate (left + k) 0"
    and off: "int (length X) = ar_offset a + int t" "length P = length X" "length S = length X"
  shows "fill_prefill bs w context (int t) left a = Some (a\<lparr>
    ar_token_ids := X @ drop t (pc_tokens w) @ replicate k 0,
    ar_positions := P @ map (\<lambda>i. context + int i) [t..<length (pc_tokens w)] @ replicate k 0,
    ar_slots := S @ map (\<lambda>i. slot_at bs (block_ids (pc_block_table w)) (context + int i)) [t..<length (pc_tokens w)] @ replicate k 0\<rparr>)"
  using len ar off
proof (induction left arbitrary: t a X P S)
  case 0
  then show ?case by simp
next
  case (Suc left)
  have t: "t < length (pc_tokens w)" using Suc.prems(1) by simp
  have pos: "0 \<le> context + int t" "context + int t < int (length (block_ids (pc_block_table w))) * bs" using c cap t by simp_all
  have idx: "ar_offset a + int t = int (length X)" "ar_offset a + int t = int (length P)" "ar_offset a + int t = int (length S)"
    using Suc.prems(5-7) by simp_all
  have d: "drop t (pc_tokens w) = pc_tokens w ! t # drop (Suc t) (pc_tokens w)" using t by (simp add: Cons_nth_drop_Suc)
  have u: "[t..<length (pc_tokens w)] = t # [Suc t..<length (pc_tokens w)]" using t by (simp add: upt_conv_Cons)
  let ?s = "slot_at bs (block_ids (pc_block_table w)) (context + int t)"
  let ?a = "a\<lparr>ar_token_ids := (X @ [pc_tokens w ! t]) @ replicate (left + k) 0, ar_positions := (P @ [context + int t]) @ replicate (left + k) 0,
    ar_slots := (S @ [?s]) @ replicate (left + k) 0\<rparr>"
  have step: "fill_prefill bs w context (int t) (Suc left) a = fill_prefill bs w context (int (Suc t)) left ?a"
    using pos im t slot_of_ok [OF bs pos blocks] put_next [OF idx(1), of "pc_tokens w ! t" "left + k" 0] put_next [OF idx(2), of "context + int t" "left + k" 0]
      put_next [OF idx(3), of ?s "left + k" 0]
    by (simp add: get_def Let_def Suc.prems(2-4) add.commute [of 1])
  show ?case
    unfolding step d u using Suc.IH [of "Suc t" ?a "X @ [pc_tokens w ! t]" "P @ [context + int t]" "S @ [?s]"] Suc.prems by simp
qed

lemma arrays_of_sel [simp]:
  "ar_offset (arrays_of bs wd tot n items) = token_total items"
  "ar_num_logits (arrays_of bs wd tot n items) = sample_total items"
  by (simp_all add: arrays_of_def Let_def)

lemma token_total_append [simp]: "token_total (xs @ ys) = token_total xs + token_total ys" "token_total [] = 0"
  "token_total (x # ys) = work_token_count x + token_total ys"
  by (simp_all add: token_total_def)

lemma sample_total_append [simp]: "sample_total (xs @ [x]) = sample_total xs + (if samples x then 1 else 0)" "sample_total [] = 0"
  by (simp_all add: sample_total_def)

lemma item_lengths:
  assumes "item_ready bs it"
  shows "length (item_tokens it) = nat (work_token_count it)" "length (item_positions it) = nat (work_token_count it)"
    "length (item_slots bs it) = nat (work_token_count it)"
  using assms by (cases it; auto simp: item_ready_def item_slots_def)+

lemma total_lengths:
  assumes "\<forall>it \<in> set items. item_ready bs it"
  shows "0 \<le> token_total items" "length (concat (map item_tokens items)) = nat (token_total items)"
    "length (concat (map item_positions items)) = nat (token_total items)"
    "length (concat (map (item_slots bs) items)) = nat (token_total items)"
proof -
  have "0 \<le> token_total items \<and> length (concat (map item_tokens items)) = nat (token_total items) \<and>
    length (concat (map item_positions items)) = nat (token_total items) \<and> length (concat (map (item_slots bs) items)) = nat (token_total items)"
    using assms
  proof (induction items)
    case (Cons it items)
    have "0 < work_token_count it" using Cons.prems by (simp add: item_ready_def)
    then show ?case using Cons item_lengths [of bs it] by (auto simp: nat_add_distrib)
  qed simp
  then show "0 \<le> token_total items" "length (concat (map item_tokens items)) = nat (token_total items)"
    "length (concat (map item_positions items)) = nat (token_total items)"
    "length (concat (map (item_slots bs) items)) = nat (token_total items)" by simp_all
qed

lemma fill_work_ok:
  assumes bs: "0 < bs" and rdy: "item_ready bs it"
    and ar: "ar_token_ids a = X @ replicate (length (item_tokens it) + k) 0" "ar_positions a = P @ replicate (length (item_tokens it) + k) 0"
      "ar_slots a = S @ replicate (length (item_tokens it) + k) 0"
    and off: "int (length X) = ar_offset a" "length P = length X" "length S = length X"
  shows "fill_work bs it (work_context it) a = Some (a\<lparr>ar_token_ids := X @ item_tokens it @ replicate k 0,
    ar_positions := P @ item_positions it @ replicate k 0, ar_slots := S @ item_slots bs it @ replicate k 0\<rparr>, samples it)"
proof (cases it)
  case (Prefill_Work w)
  have n: "nat (work_token_count it) = length (pc_tokens w)" using rdy Prefill_Work by (auto simp: item_ready_def)
  have "fill_prefill bs w (work_context it) (int 0) (length (pc_tokens w)) a = Some (a\<lparr>
    ar_token_ids := X @ drop 0 (pc_tokens w) @ replicate k 0,
    ar_positions := P @ map (\<lambda>i. work_context it + int i) [0..<length (pc_tokens w)] @ replicate k 0,
    ar_slots := S @ map (\<lambda>i. slot_at bs (block_ids (pc_block_table w)) (work_context it + int i)) [0..<length (pc_tokens w)] @ replicate k 0\<rparr>)"
    by (rule fill_prefill_ok [OF bs]) (use rdy ar off Prefill_Work in \<open>auto simp: item_ready_def item_context_def\<close>)
  then show ?thesis using n Prefill_Work by (simp add: fill_work_def item_slots_def o_def)
next
  case (Decode_Work w)
  let ?pos = "hd (item_positions it)"
  have slot: "(if dt_write_kv w then slot_of bs (dt_block_table w) ?pos else Some (-1)) = Some (hd (item_slots bs it))"
    using slot_of_ok [OF bs, of ?pos "dt_block_table w"] rdy Decode_Work by (auto simp: item_ready_def item_slots_def item_context_def)
  have idx: "ar_offset a = int (length X)" "ar_offset a = int (length P)" "ar_offset a = int (length S)" using off by simp_all
  show ?thesis
    using put_next [OF idx(1), of "dt_input_token w" k 0] put_next [OF idx(2), of ?pos k 0] put_next [OF idx(3), of "hd (item_slots bs it)" k 0] slot ar Decode_Work
    by (cases "dt_write_kv w") (simp_all add: fill_work_def fill_decode_def Let_def item_slots_def)
qed

lemma starts_snoc:
  "starts (items @ [it]) (Suc (length items)) = starts items (length items) @ [token_total items]"
proof -
  have "map (\<lambda>i. token_total (take i (items @ [it]))) [0..<length items] = map (\<lambda>i. token_total (take i items)) [0..<length items]"
    by (rule map_cong) auto
  then show ?thesis by (simp add: starts_def)
qed

lemma logits_at_snoc:
  "map (logits_at (items @ [it])) [0..<length items] = map (logits_at items) [0..<length items]"
  "logits_at (items @ [it]) (length items) = (if samples it then sample_total items else -1)"
  by (auto simp: logits_at_def nth_append)

lemma sampled_rows_snoc:
  "sampled_rows (items @ [it]) = sampled_rows items @ (if samples it then [token_total items + work_token_count it - 1] else [])"
proof -
  have f: "filter (\<lambda>i. samples ((items @ [it]) ! i)) [0..<length items] = filter (\<lambda>i. samples (items ! i)) [0..<length items]"
    by (rule filter_cong) (auto simp: nth_append)
  have "map (\<lambda>i. token_total (take (Suc i) (items @ [it])) - 1) (filter (\<lambda>i. samples (items ! i)) [0..<length items]) = sampled_rows items"
    unfolding sampled_rows_def by (rule map_cong) auto
  then show ?thesis by (simp add: sampled_rows_def f)
qed

lemma fill_item_ok:
  assumes bs: "0 < bs" and rdy: "\<forall>x \<in> set (items @ [it]). item_ready bs x" and n: "length items < n"
    and tot: "token_total (items @ [it]) \<le> int tot" and wd: "int (length (item_table it)) \<le> wd" "\<forall>x \<in> set items. int (length (item_table x)) \<le> wd"
  shows "fill_item bs wd (int (length items)) it (arrays_of bs wd tot n items) = Some (arrays_of bs wd tot n (items @ [it]))"
proof -
  let ?a = "arrays_of bs wd tot n items" and ?len = "int (length items)"
  define k left where k: "k = tot - nat (token_total (items @ [it]))" and left: "left = n - Suc (length items)"
  have it: "item_ready bs it" and items: "\<forall>x \<in> set items. item_ready bs x" using rdy by simp_all
  note L = total_lengths [OF items] and I = item_lengths [OF it]
  have pos: "0 < work_token_count it" using it by (simp add: item_ready_def)
  have more: "tot - nat (token_total items) = length (item_tokens it) + k"
    using tot L(1) I(1) pos unfolding k by (simp add: nat_add_distrib)
  have lefts: "n - length items = Suc left" using n left by simp
  have rows: "length (concat (map (item_row wd) items)) = length items * nat wd"
    using wd(2) by (induction items) (auto simp: item_row_def)
  have tables: "put_blocks (block_ids (work_table it)) (?len * wd) (ar_block_table ?a) =
      Some (concat (map (item_row wd) (items @ [it])) @ replicate (left * nat wd) (-1))"
  proof -
    have w0: "0 \<le> wd" using wd(1) by simp
    have tb: "block_ids (work_table it) = item_table it" by (cases it) simp_all
    have "Suc left * nat wd = length (item_table it) + ((nat wd - length (item_table it)) + left * nat wd)" using wd(1) by simp
    moreover have "?len * wd = int (length (concat (map (item_row wd) items)))" using w0 by (simp add: rows)
    moreover have "replicate (nat wd + left * nat wd - length (item_table it)) (-1 :: int) =
        replicate (nat wd - length (item_table it)) (-1) @ replicate (left * nat wd) (-1)" using wd(1) by (simp flip: replicate_add)
    ultimately show ?thesis
      using put_blocks_next [of "?len * wd" "concat (map (item_row wd) items)" "item_table it" "(nat wd - length (item_table it)) + left * nat wd" "-1"]
      by (simp add: tb arrays_of_def Let_def lefts item_row_def replicate_add)
  qed
  have W: "fill_work bs it (work_context it) a = Some (a\<lparr>ar_token_ids := concat (map item_tokens items) @ item_tokens it @ replicate k 0,
      ar_positions := concat (map item_positions items) @ item_positions it @ replicate k 0,
      ar_slots := concat (map (item_slots bs) items) @ item_slots bs it @ replicate k 0\<rparr>, samples it)"
    if "ar_token_ids a = ar_token_ids ?a" "ar_positions a = ar_positions ?a" "ar_slots a = ar_slots ?a" "ar_offset a = token_total items" for a
    by (rule fill_work_ok [OF bs it]) (use that L more in \<open>simp_all add: arrays_of_def Let_def\<close>)
  have last: "get (token_total items + work_token_count it - 1) (concat (map item_positions items) @ item_positions it @ replicate k 0) =
      Some (last (item_positions it))"
  proof -
    have "item_positions it \<noteq> []" using I(2) pos by auto
    moreover have "nat (token_total items + work_token_count it - 1) = nat (token_total items) + (length (item_positions it) - 1)"
      using L(1) I(2) pos by (simp add: nat_diff_distrib nat_add_distrib)
    moreover have "\<not> nat (token_total items) + nat (work_token_count it) - Suc 0 < nat (token_total items)" using pos by linarith
    ultimately show ?thesis using L(1,3) I(2) pos by (simp add: get_def nth_append last_conv_nth)
  qed
  have cz: "work_context it + (if work_writes it then work_token_count it else 0) = item_context it" by (simp add: item_context_def)
  show ?thesis
    unfolding fill_item_def Let_def tables cz
    using last
    by (simp add: W put_map_next arrays_of_def [of bs wd tot n items] arrays_of_def [of bs wd tot n "items @ [it]"] Let_def lefts more left [symmetric] k
      starts_snoc logits_at_snoc sampled_rows_snoc)
qed

definition widest_table :: "WorkItem list \<Rightarrow> int" where
  "widest_table items = fold (\<lambda>it m. max m (int (length (item_table it)))) items 0"

lemma widest_fold:
  "m \<le> fold (\<lambda>it m. max m (int (length (item_table it)))) items m \<and>
   (\<forall>it \<in> set items. int (length (item_table it)) \<le> fold (\<lambda>it m. max m (int (length (item_table it)))) items m)"
  by (induction items arbitrary: m) (auto simp: le_max_iff_disj intro: order_trans [OF max.cobounded1] order_trans [OF max.cobounded2])

lemma widest_bound: "it \<in> set items \<Longrightarrow> int (length (item_table it)) \<le> widest_table items"
  using widest_fold [of 0 items] by (simp add: widest_table_def)

lemma work_table_ids [simp]: "block_ids (work_table it) = item_table it"
  by (cases it) simp_all

lemma scan_items_ok:
  assumes "\<forall>it \<in> set items. item_ready bs it \<and> (dbg \<longrightarrow> item_table it \<noteq> [] \<and> \<not> late_bound it)" "0 \<le> tt" "tt + token_total items \<le> INT_MAX"
  shows "scan_items dbg bs items m tt = Some (fold (\<lambda>it m. max m (int (length (item_table it)))) items m, tt + token_total items)"
  using assms
proof (induction items arbitrary: m tt)
  case (Cons it items)
  have it: "item_ready bs it" "dbg \<longrightarrow> item_table it \<noteq> [] \<and> \<not> late_bound it" and rest: "\<forall>x \<in> set items. item_ready bs x" using Cons.prems by auto
  have p: "0 < work_token_count it" using it by (simp add: item_ready_def)
  have cap: "work_context it + (if work_writes it then work_token_count it else 0) \<le> token_capacity (work_table it) bs"
    using it(1) by (simp add: item_ready_def item_context_def token_capacity_def table_size_def)
  have "0 \<le> token_total items" using total_lengths(1) [OF rest] .
  then show ?case
    using Cons.IH [of "tt + work_token_count it"] Cons.prems it cap p
    by (simp add: item_ready_def Let_def table_size_def add.assoc) (simp add: assert_that_def)
qed simp

lemma fill_items_ok:
  assumes "0 < bs" "\<forall>x \<in> set (pre @ items). item_ready bs x \<and> int (length (item_table x)) \<le> wd" "n = length (pre @ items)"
    "token_total (pre @ items) \<le> int tot"
  shows "fill_items bs wd (int (length pre)) items (arrays_of bs wd tot n pre) = Some (arrays_of bs wd tot n (pre @ items))"
  using assms(2-4)
proof (induction items arbitrary: pre)
  case (Cons it items)
  have "0 \<le> token_total items" using total_lengths(1) [of items bs] Cons.prems(1) by simp
  then have "fill_item bs wd (int (length pre)) it (arrays_of bs wd tot n pre) = Some (arrays_of bs wd tot n (pre @ [it]))"
    by (intro fill_item_ok [OF assms(1)]) (use Cons.prems in auto)
  then show ?case using Cons.IH [of "pre @ [it]"] Cons.prems by (simp add: add.commute)
qed simp

lemma arrays_init_of: "arrays_init n wd tt = arrays_of bs wd (nat tt) n []"
  by (simp add: arrays_init_def arrays_of_def starts_def sampled_rows_def Let_def)

lemma host_arrays_eq:
  assumes bs: "0 < bs" and ne: "items \<noteq> []" and rdy: "\<forall>it \<in> set items. item_ready bs it \<and> (dbg \<longrightarrow> item_table it \<noteq> [] \<and> \<not> late_bound it)"
    and tot: "token_total items \<le> INT_MAX"
  shows "host_arrays dbg bs items = Some (widest_table items, token_total items,
    (arrays_of bs (widest_table items) (nat (token_total items)) (length items) items)\<lparr>ar_query_start := starts items (Suc (length items))\<rparr>)"
proof -
  let ?w = "widest_table items" and ?n = "length items"
  have r: "\<forall>x \<in> set ([] @ items). item_ready bs x \<and> int (length (item_table x)) \<le> ?w" using rdy widest_bound by auto
  have t: "0 \<le> token_total items" using total_lengths(1) [of items bs] rdy by simp
  have f: "fill_items bs ?w 0 items (arrays_init ?n ?w (token_total items)) = Some (arrays_of bs ?w (nat (token_total items)) ?n items)"
    unfolding arrays_init_of [of _ _ _ bs] using fill_items_ok [OF bs r, of ?n "nat (token_total items)"] t by simp
  have "put (int ?n) (token_total items) (starts items ?n @ [0]) = Some (starts items ?n @ [token_total items])"
    by (simp add: put_map_next)
  moreover have "starts items (Suc ?n) = starts items ?n @ [token_total items]" by (simp add: starts_def)
  ultimately show ?thesis
    using bs ne scan_items_ok [OF rdy, of 0 0] tot f
    by (simp add: host_arrays_def widest_table_def [symmetric]) (simp add: arrays_of_def Let_def)
qed

lemma work_context_eq: "work_context w = context_before_of w"
  by (cases w) simp_all

lemma slot_block:
  assumes "0 < bs" "0 \<le> pos" "pos < int (length table) * bs"
  shows "slot_at bs table pos div bs \<in> set table" "slot_at bs table pos mod bs = pos mod bs"
proof -
  have "pos div bs * bs \<le> pos" using assms(1) by (simp flip: minus_mod_eq_div_mult)
  then have "pos div bs * bs < int (length table) * bs" using assms(3) by linarith
  then have i: "nat (pos div bs) < length table" using assms(1,2) by (simp add: nat_less_iff pos_imp_zdiv_nonneg_iff)
  have "slot_at bs table pos div bs = table ! nat (pos div bs)" using assms(1) by (simp add: slot_at_def)
  then show "slot_at bs table pos div bs \<in> set table" using i by simp
  show "slot_at bs table pos mod bs = pos mod bs" by (simp add: slot_at_def)
qed

lemma item_positions_range:
  assumes "item_ready bs it" "work_writes it" "pos \<in> set (item_positions it)"
  shows "work_context it \<le> pos" "pos < item_context it"
  using assms by (cases it; auto simp: item_ready_def item_context_def)+

text \<open>
  C26. Translation writes every device array by index, yet what it uploads is the plain concatenation of
  the items: tokens, positions and slots one after the other, the block tables as rows padded with -1,
  the running token offsets as query starts, and compact logits rows for exactly the items that sample.
  No index leaves its vector, no slot overflows, and no assertion fails.
\<close>

theorem translate_arrays_concat:
  assumes "0 < bs" "items \<noteq> []" "\<forall>it \<in> set items. item_ready bs it \<and> (dbg \<longrightarrow> item_table it \<noteq> [] \<and> \<not> late_bound it)"
    "token_total items \<le> INT_MAX"
  shows "\<exists>a. host_arrays dbg bs items = Some (widest_table items, token_total items, a) \<and>
    ar_token_ids a = concat (map item_tokens items) \<and> ar_positions a = concat (map item_positions items) \<and>
    ar_slots a = concat (map (item_slots bs) items) \<and> ar_block_table a = concat (map (item_row (widest_table items)) items) \<and>
    ar_query_start a = map (\<lambda>i. token_total (take i items)) [0..<length items + 1] \<and>
    ar_context_lens a = map item_context items \<and> ar_sample_flags a = map samples items \<and>
    ar_num_logits a = int (length (ar_logits_rows a)) \<and>
    (\<forall>i < length items. if samples (items ! i)
      then 0 \<le> ar_logits_indices a ! i \<and> ar_logits_rows a ! nat (ar_logits_indices a ! i) = token_total (take (Suc i) items) - 1
      else ar_logits_indices a ! i = -1)"
proof -
  let ?a = "(arrays_of bs (widest_table items) (nat (token_total items)) (length items) items)\<lparr>ar_query_start := starts items (Suc (length items))\<rparr>"
  have nth_sampled: "sampled_rows items ! nat (sample_total (take i items)) = token_total (take (Suc i) items) - 1"
    if "i < length items" "samples (items ! i)" for i
  proof -
    let ?P = "\<lambda>i. samples (items ! i)"
    have "[0..<length items] = [0..<i] @ i # [Suc i..<length items]" using that(1) by (metis less_imp_add_positive upt_add_eq_append upt_conv_Cons zero_le less_add_same_cancel1)
    then have f: "filter ?P [0..<length items] = filter ?P [0..<i] @ i # filter ?P [Suc i..<length items]" using that(2) by simp
    have "take i items = map ((!) items) [0..<i]" using that(1) by (intro nth_equalityI) simp_all
    then have "sample_total (take i items) = int (length (filter ?P [0..<i]))" by (simp add: sample_total_def filter_map o_def)
    then show ?thesis by (simp add: sampled_rows_def f nth_append)
  qed
  have n: "sample_total items = int (length (sampled_rows items))"
  proof -
    have "filter samples items = map ((!) items) (filter (\<lambda>i. samples (items ! i)) [0..<length items])"
      by (metis (mono_tags, lifting) filter_map map_nth o_def filter_cong)
    then show ?thesis by (simp add: sample_total_def sampled_rows_def)
  qed
  show ?thesis
    by (rule exI [of _ ?a]) (use host_arrays_eq [OF assms] nth_sampled n in
      \<open>auto simp: arrays_of_def Let_def starts_def logits_at_def sample_total_def\<close>)
qed

theorem translate_arrays_concat_witness:
  "\<exists>a. host_arrays True 2 (flying run_e6) = Some (2, 3, a) \<and> ar_token_ids a = [1, 2, 3] \<and> ar_positions a = [0, 1, 2] \<and>
    ar_slots a = [0, 1, 2] \<and> ar_query_start a = [0, 3]"
proof -
  let ?items = "flying run_e6"
  have r: "\<forall>it \<in> set ?items. item_ready 2 it \<and> (True \<longrightarrow> item_table it \<noteq> [] \<and> \<not> late_bound it)"
    by (simp add: run_flight item_ready_def item_context_def INT_MAX_def)
  have t: "token_total ?items \<le> INT_MAX" by (simp add: run_flight INT_MAX_def)
  have "(0 :: int) < 2" "?items \<noteq> []" by (simp_all add: run_flight)
  from translate_arrays_concat [OF this r t] show ?thesis
    by (auto simp: run_flight widest_table_def item_slots_def slot_at_def numeral_eq_Suc upt_conv_Cons)
qed

lemma flight_ready:
  assumes cfg: "config_ok cfg" and run: "runs_to cfg heap e" and w: "w \<in> set (flying e)" and fits: "context_before_of w + kv_token_count w \<le> INT_MAX"
  shows "item_ready (kv_block_size cfg) w" "i \<in> set (item_table w) \<Longrightarrow> 0 < refs (sc_block_pool (ec_sched e)) i"
proof -
  let ?s = "ec_sched e"
  have inv: "sched_inv_at {} (flying e) {#} ?s"
    using engine_invD(1) [OF runs_to_inv [OF cfg run]] by (simp add: sched_inv_def)
  obtain pre post where fl: "flying e = pre @ w # post" using w by (meson split_list)
  obtain r sch where r: "r \<in> live ?s" "scheduling (sc_heap ?s r) = Some sch"
    and ok: "seq_ok (ctx_capacity ?s) (kv_block_size (sc_config ?s))
      (items_of (ss_seq_id sch) pre @ w # items_of (ss_seq_id sch) post) (sc_heap ?s r) sch"
    by (rule flight_owner [OF inv [unfolded fl]]) blast
  have it: "item_fits (kv_block_size cfg) (block_ids (ss_block_table sch)) w" "item_wf w"
    using seq_okD(2) [OF ok, of w] runs_to_config_sched [OF cfg run] by simp_all
  show pos: "0 < refs (sc_block_pool ?s) i" if "i \<in> set (item_table w)" for i
  proof -
    have "i \<in> set (tab_of ?s r)"
      using that it(1) set_mono_prefix by (fastforce simp: item_fits_def tab_of_def sched_of_def r(2))
    then have "i \<in># held ?s" by (simp add: held_remove [OF r(1)])
    then show ?thesis using sched_inv_atD(5) [OF inv] by (auto simp: kv_inv_def intro: owned_pos)
  qed
  have C: "cfg_inv ?s" using sched_inv_atD(1) [OF inv] .
  have b: "0 \<le> b \<and> b * kv_block_size cfg + kv_block_size cfg - 1 \<le> INT_MAX" if "b \<in> set (item_table w)" for b
  proof -
    have "valid_id (sc_block_pool ?s) b" using refs_pos_used [OF pos [OF that]] used_valid by blast
    then have b: "0 \<le> b" "b < max_blocks cfg"
      using C runs_to_config_sched [OF cfg run] by (auto simp: cfg_inv_def pool_geom_def valid_id_def)
    have bs: "0 < kv_block_size cfg" "max_blocks cfg * kv_block_size cfg \<le> INT_MAX" using cfg validate_ok(2,3) by (auto simp: config_ok_def)
    have "(b + 1) * kv_block_size cfg \<le> max_blocks cfg * kv_block_size cfg" using b bs by (intro mult_right_mono) simp_all
    then show ?thesis using b bs by (simp add: distrib_right)
  qed
  have "item_context w = context_before_of w + kv_token_count w" by (cases w) (simp_all add: item_context_def)
  then show "item_ready (kv_block_size cfg) w"
    using it fits b by (cases w) (auto simp: item_ready_def item_fits_def item_wf_def)
qed



end
