(* ===== verification/Worker_Ops.thy ===== *)
theory Worker_Ops
  imports Batch_Translate State_Cache Float_Bits "HOL-Library.More_List"
begin

text \<open>
  The execution side: \<^verbatim>\<open>ModelRunner::inference\<close> of \<^verbatim>\<open>src/src/worker/model_runner.h\<close>, the worker of
  \<^verbatim>\<open>src/src/worker/worker.{h,cpp}\<close> and \<^verbatim>\<open>src/src/executor/single_device_executor.cpp\<close>. A loaded model is its
  configuration and its \<^verbatim>\<open>forward\<close> method, a function on the device; opening a checkpoint is an argument.
  A completion channel is a number, and \<^verbatim>\<open>resolve\<close> records what is posted to it. The queue is the state
  the mutex protects; exceptions of the standard library are not modelled.
\<close>

record ForwardInput =
  fi_token_ids :: "Tensor option"
  fi_num_tokens :: int
  fi_positions :: "Tensor option"
  fi_max_position_id :: int
  fi_mode :: ForwardMode
  fi_slot_mapping :: "Tensor option"
  fi_block_table :: "Tensor option"
  fi_query_start_loc :: "Tensor option"
  fi_context_lens :: "Tensor option"
  fi_batch_size :: int
  fi_max_blocks_per_req :: int
  fi_state_mapping :: "Tensor option"
  fi_logits_indices_host :: "int list"
  fi_num_logits :: int

record ForwardOutput =
  fo_logits :: Tensor
  fo_tokens_out :: Tensor

record Model =
  md_config :: ModelConfig
  md_forward :: "ForwardInput \<Rightarrow> ForwardOutput \<Rightarrow> BlockStorage \<Rightarrow> StateStorage option \<Rightarrow> (Device, unit) act"

section \<open>Inference\<close>

definition forward_input :: "PhysicalBatch \<Rightarrow> ForwardInput" where
  "forward_input batch = \<lparr>fi_token_ids = pb_token_ids batch, fi_num_tokens = pb_num_tokens batch, fi_positions = pb_positions batch,
     fi_max_position_id = pb_max_position_id batch, fi_mode = pb_mode batch, fi_slot_mapping = pb_slot_mapping batch,
     fi_block_table = pb_block_table batch, fi_query_start_loc = pb_query_start_loc batch, fi_context_lens = pb_context_lens batch,
     fi_batch_size = pb_batch_size batch, fi_max_blocks_per_req = pb_max_blocks_per_req batch,
     fi_state_mapping = pb_state_mapping batch, fi_logits_indices_host = pb_logits_rows_host batch,
     fi_num_logits = pb_num_logits batch\<rparr>"

definition batch_shape_ok :: "PhysicalBatch \<Rightarrow> bool" where
  "batch_shape_ok batch \<longleftrightarrow> (let T = pb_num_tokens batch; B = pb_batch_size batch in
     pb_token_ids batch \<noteq> None \<and> pb_positions batch \<noteq> None \<and> pb_slot_mapping batch \<noteq> None \<and> pb_block_table batch \<noteq> None \<and>
     pb_query_start_loc batch \<noteq> None \<and> pb_context_lens batch \<noteq> None \<and> pb_logits_indices batch \<noteq> None \<and>
     T > 0 \<and> B > 0 \<and> pb_max_blocks_per_req batch > 0 \<and>
     int (length (pb_item_seq_ids batch)) = B \<and> int (length (pb_item_kinds batch)) = B \<and>
     (pb_mode batch \<noteq> FMDecode \<or> T = B) \<and>
     int (length (pb_item_token_counts batch)) = B \<and> int (length (pb_sample_flags batch)) = B \<and>
     int (length (pb_logits_rows_host batch)) = pb_num_logits batch \<and> pb_max_position_id batch \<ge> 0)"

definition sampling_shape_ok :: "int \<Rightarrow> SamplingParams \<Rightarrow> bool" where
  "sampling_shape_ok V sampling \<longleftrightarrow> top_k sampling \<ge> 0 \<and> top_k sampling \<le> V \<and>
     f32_isfinite (top_p sampling) \<and> f32_lt 0 (top_p sampling) \<and>
     f32_isfinite (temperature sampling) \<and> f32_le 0 (temperature sampling)"

definition greedy :: "SamplingParams \<Rightarrow> bool" where
  "greedy sampling \<longleftrightarrow> top_k sampling = 0 \<and> f32_le 0x3F800000 (top_p sampling) \<and> f32_le (temperature sampling) 0"

definition result_of :: "PhysicalBatch \<Rightarrow> SamplingParams \<Rightarrow> int list \<Rightarrow> nat \<Rightarrow> WorkItemResult" where
  "result_of batch sampling tokens_host i = (let sampled = pb_sample_flags batch ! i in
     \<lparr>item_index = int i, wr_seq_id = pb_item_seq_ids batch ! i, wr_kind = pb_item_kinds batch ! i,
      sampled_tokens = (if sampled then [tokens_host ! i] else []), tokens_consumed = pb_item_token_counts batch ! i,
      wr_eos = (sampled \<and> eos_token_id sampling \<ge> 0 \<and> tokens_host ! i = eos_token_id sampling), wr_stale = False\<rparr>)"

definition inference :: "bool \<Rightarrow> Ccop \<Rightarrow> Model \<Rightarrow> PhysicalBatch \<Rightarrow> BlockStorage \<Rightarrow> StateStorage option \<Rightarrow> SamplingParams \<Rightarrow>
    (Device, WorkItemResult list) act" where
  "inference dbg co model batch block_storage state_storage sampling =
     (let B = pb_batch_size batch; V = mc_vocab_size (md_config model); num_logits = (if pb_num_logits batch > 0 then pb_num_logits batch else 1) in
     and_then (check (assert_that dbg (batch_shape_ok batch))) (\<lambda>_.
     and_then (check (assert_that dbg (V > 0))) (\<lambda>_.
     and_then (check (assert_that dbg (sampling_shape_ok V sampling))) (\<lambda>_.
     if \<not> greedy sampling then fail Unsupported
     else
     and_then (check (assert_that dbg (nat (size_cast V) \<le> SIZE_MAX div nat num_logits))) (\<lambda>_.
     and_then (check (assert_that dbg (size_mul (nat num_logits) (nat (size_cast V)) \<le> SIZE_MAX div 4))) (\<lambda>_.
     and_then (tensor_empty dbg co DT_Float32 [num_logits, V]) (\<lambda>logits.
     and_then (tensor_empty dbg co DT_Int32 [B]) (\<lambda>tokens.
     and_then (md_forward model (forward_input batch) \<lparr>fo_logits = logits, fo_tokens_out = tokens\<rparr> block_storage state_storage) (\<lambda>_.
     and_then (ccop_call ''greedy_sample'' ([t_data logits] @ (case pb_logits_indices batch of None \<Rightarrow> [] | Some t \<Rightarrow> [t_data t]) @ [t_data tokens]) []) (\<lambda>_.
     and_then (memcpy_d2h dbg (t_data tokens) (nat B * 4)) (\<lambda>host.
     let tokens_host = map (nth_default 0 host) [0..<nat B] in
     and_then (check (require (nat B \<le> length (pb_item_seq_ids batch) \<and> nat B \<le> length (pb_item_kinds batch) \<and>
       nat B \<le> length (pb_sample_flags batch) \<and> nat B \<le> length (pb_item_token_counts batch)))) (\<lambda>_.
     ret (map (result_of batch sampling tokens_host) [0..<nat B])))))))))))))"

section \<open>The worker\<close>

record PendingBatch =
  pd_batch :: ScheduledBatch
  pd_chan :: nat

record ResolvedBatch =
  rb_batch :: ScheduledBatch
  rb_original_indices :: "nat list"
  rb_stale_results :: "WorkItemResult list"

record Worker =
  wk_queue :: "PendingBatch list"
  wk_running :: bool
  wk_thread :: bool
  wk_latest_tokens :: "SequenceId \<rightharpoonup> int"
  wk_failed_sequences :: "SequenceId set"
  wk_initialized :: bool
  wk_config :: EngineConfig
  wk_backend :: "int option"
  wk_model :: "Model option"
  wk_block_storage :: "BlockStorage option"
  wk_state_pool :: "StatePool option"
  wk_state_cache :: "StateCache option"
  wk_posted :: "(nat \<times> BatchResult result) list"

text \<open>\<^verbatim>\<open>resolve_batch\<close>: one item, then the loop.\<close>

definition late_bind :: "Worker \<Rightarrow> bool \<Rightarrow> WorkItem \<Rightarrow> WorkItem option" where
  "late_bind wk stale item = (case item of
     Prefill_Work work \<Rightarrow> Some item
   | Decode_Work work \<Rightarrow>
       if stale \<or> \<not> dt_late_bind work then Some item
       else do {
         token \<leftarrow> wk_latest_tokens wk (dt_seq_id work);
         Some (Decode_Work (work\<lparr>dt_input_token := token, dt_late_bind := False\<rparr>))
       })"

definition stale_result :: "nat \<Rightarrow> WorkItem \<Rightarrow> WorkItemResult" where
  "stale_result i item = \<lparr>item_index = int i, wr_seq_id = work_sequence_id item, wr_kind = work_kind item,
     sampled_tokens = [], tokens_consumed = 0, wr_eos = False, wr_stale = True\<rparr>"

fun resolve_loop :: "Worker \<Rightarrow> nat \<Rightarrow> WorkItem list \<Rightarrow> ResolvedBatch \<Rightarrow> ResolvedBatch option" where
  "resolve_loop wk i [] resolved = Some resolved"
| "resolve_loop wk i (item # items) resolved = do {
     let stale = (work_sequence_id item \<in> wk_failed_sequences wk);
     item' \<leftarrow> late_bind wk stale item;
     resolve_loop wk (i + 1) items
       (if stale then resolved\<lparr>rb_stale_results := rb_stale_results resolved @ [stale_result i item]\<rparr>
        else resolved\<lparr>rb_batch := (rb_batch resolved)\<lparr>sb_items := sb_items (rb_batch resolved) @ [item']\<rparr>,
          rb_original_indices := rb_original_indices resolved @ [i]\<rparr>)
   }"

definition resolve_batch :: "Worker \<Rightarrow> ScheduledBatch \<Rightarrow> ResolvedBatch option" where
  "resolve_batch wk batch = resolve_loop wk 0 (sb_items batch)
     \<lparr>rb_batch = \<lparr>sb_batch_id = sb_batch_id batch, sb_items = [], sb_sampling = sb_sampling batch\<rparr>, rb_original_indices = [], rb_stale_results = []\<rparr>"

text \<open>\<^verbatim>\<open>resolve\<close> posts a completion; what is posted to a channel is recorded in order.\<close>

definition resolve :: "nat \<Rightarrow> BatchResult result \<Rightarrow> Worker \<Rightarrow> Worker" where
  "resolve chan result wk = wk\<lparr>wk_posted := wk_posted wk @ [(chan, result)]\<rparr>"

definition fail_sequences :: "WorkItem list \<Rightarrow> Worker \<Rightarrow> Worker" where
  "fail_sequences items wk = wk\<lparr>wk_failed_sequences := wk_failed_sequences wk \<union> work_sequence_id ` set items\<rparr>"

definition note_latest :: "WorkItem \<Rightarrow> WorkItemResult \<Rightarrow> Worker \<Rightarrow> Worker" where
  "note_latest item res wk = (let put = (\<lambda>t. wk\<lparr>wk_latest_tokens := (wk_latest_tokens wk)(wr_seq_id res \<mapsto> t)\<rparr>) in
     if sampled_tokens res \<noteq> [] then put (hd (sampled_tokens res))
     else case item of
       Prefill_Work work \<Rightarrow> if pc_tokens work \<noteq> [] then put (last (pc_tokens work)) else wk
     | Decode_Work work \<Rightarrow> if dt_write_kv work then put (dt_input_token work) else wk)"

fun remap_results :: "ScheduledBatch \<Rightarrow> nat list \<Rightarrow> WorkItemResult list \<Rightarrow> Worker \<Rightarrow> (WorkItemResult list \<times> Worker) option" where
  "remap_results batch original [] wk = Some ([], wk)"
| "remap_results batch original (res # results) wk = do {
     index \<leftarrow> get (item_index res) original;
     item \<leftarrow> get (int index) (sb_items batch);
     let res = res\<lparr>item_index := int index\<rparr>;
     (rs, wk) \<leftarrow> remap_results batch original results (note_latest item res wk);
     Some (res # rs, wk)
   }"

definition lift_dev :: "(Device, 'a) act \<Rightarrow> (Worker \<times> Device, 'a) act" where
  "lift_dev m = (\<lambda>(wk, d). case m d of None \<Rightarrow> None | Some (r, d') \<Rightarrow> Some (r, (wk, d')))"

definition acquire_state :: "bool \<Rightarrow> Ccop \<Rightarrow> SequenceId \<Rightarrow> (Worker \<times> Device, unit) act" where
  "acquire_state dbg co seq = (\<lambda>(wk, d). case wk_state_pool wk of
     None \<Rightarrow> Some (Inr (), (wk, d))
   | Some p \<Rightarrow> (case acquire_active dbg co seq (p, d) of None \<Rightarrow> None
       | Some (r, (p', d')) \<Rightarrow> Some (r, (wk\<lparr>wk_state_pool := Some p'\<rparr>, d'))))"

text \<open>The part of \<^verbatim>\<open>process_batch\<close> that can fail: states, translation, inference.\<close>

definition execute :: "bool \<Rightarrow> Ccop \<Rightarrow> ScheduledBatch \<Rightarrow> (Worker \<times> Device, WorkItemResult list) act" where
  "execute dbg co batch =
     and_then (each (\<lambda>item. acquire_state dbg co (work_sequence_id item)) (sb_items batch)) (\<lambda>_ (wk, d).
     and_then (lift_dev (translate dbg co (kv_block_size (wk_config wk)) (wk_state_pool wk) batch)) (\<lambda>physical.
     case (wk_model wk, wk_block_storage wk) of
       (Some model, Some storage) \<Rightarrow>
         lift_dev (inference dbg co model physical storage (map_option sp_storage (wk_state_pool wk)) (sb_sampling batch))
     | _ \<Rightarrow> (\<lambda>_. None)) (wk, d))"

definition process_batch :: "bool \<Rightarrow> Ccop \<Rightarrow> PendingBatch \<Rightarrow> Worker \<times> Device \<Rightarrow> (Worker \<times> Device) option" where
  "process_batch dbg co pending = (\<lambda>(wk, d). do {
     assert_that dbg (wk_initialized wk \<and> wk_backend wk \<noteq> None \<and> wk_block_storage wk \<noteq> None);
     assert_that dbg (sb_items (pd_batch pending) \<noteq> []);
     resolved \<leftarrow> resolve_batch wk (pd_batch pending);
     let id = sb_batch_id (pd_batch pending);
     if sb_items (rb_batch resolved) = []
     then Some (resolve (pd_chan pending) (Inr \<lparr>br_batch_id = id, br_items = rb_stale_results resolved\<rparr>) wk, d)
     else do {
       assert_that dbg (wk_model wk \<noteq> None);
       (r, (wk, d)) \<leftarrow> execute dbg co (rb_batch resolved) (wk, d);
       case r of
         Inl e \<Rightarrow> Some (resolve (pd_chan pending) (Inl e) (fail_sequences (sb_items (rb_batch resolved)) wk), d)
       | Inr results \<Rightarrow> do {
           (items, wk) \<leftarrow> remap_results (pd_batch pending) (rb_original_indices resolved) results wk;
           let items = sort_key item_index (items @ rb_stale_results resolved);
           Some (resolve (pd_chan pending) (Inr \<lparr>br_batch_id = id, br_items = items\<rparr>) wk, d)
         }
     }
   })"

definition process_command :: "bool \<Rightarrow> Ccop \<Rightarrow> PendingBatch \<Rightarrow> Worker \<times> Device \<Rightarrow> (Worker \<times> Device) option" where
  "process_command dbg co pending = (\<lambda>(wk, d).
     if \<not> wk_running wk then Some (resolve (pd_chan pending) (Inl ServerShuttingDown) wk, d)
     else process_batch dbg co pending (wk, d))"


section \<open>Life of the worker\<close>

definition worker_new :: "EngineConfig \<Rightarrow> Worker" where
  "worker_new cfg = \<lparr>wk_queue = [], wk_running = False, wk_thread = False, wk_latest_tokens = Map.empty, wk_failed_sequences = {},
     wk_initialized = False, wk_config = cfg, wk_backend = None, wk_model = None, wk_block_storage = None, wk_state_pool = None,
     wk_state_cache = None, wk_posted = []\<rparr>"

text \<open>
  Members are destroyed in the order of the source; the cache's destructor gives its snapshots back to
  the pool, which is destroyed next. Buffers given back are not logged.
\<close>

definition drop_cache :: "bool \<Rightarrow> Worker \<Rightarrow> Device \<Rightarrow> Worker option" where
  "drop_cache dbg wk d = (case (wk_state_cache wk, wk_state_pool wk) of
     (Some c, Some p) \<Rightarrow> (case state_cache_destroy dbg (c, p, d) of None \<Rightarrow> None
       | Some (_, (c', p', d')) \<Rightarrow> Some (wk\<lparr>wk_state_cache := None, wk_state_pool := Some p'\<rparr>))
   | _ \<Rightarrow> Some (wk\<lparr>wk_state_cache := None\<rparr>))"

definition reset_resources :: "bool \<Rightarrow> Worker \<times> Device \<Rightarrow> (Worker \<times> Device) option" where
  "reset_resources dbg = (\<lambda>(wk, d). do {
     let wk = wk\<lparr>wk_initialized := False, wk_latest_tokens := Map.empty, wk_failed_sequences := {}, wk_model := None,
       wk_block_storage := None\<rparr>;
     wk \<leftarrow> drop_cache dbg wk d;
     let d = (if wk_backend wk = None then d else backend_destroy d);
     Some (wk\<lparr>wk_state_pool := None, wk_backend := None\<rparr>, d)
   })"

text \<open>
  \<^verbatim>\<open>init_resources\<close>. \<open>open_weights\<close> is \<^verbatim>\<open>Checkpoint::open\<close> with \<^verbatim>\<open>weights()\<close>, and \<open>registry w\<close> the models
  registered for weights \<open>w\<close>. What is built before an error stays in the worker.
\<close>

definition on_dev :: "(Device, 'a) act \<Rightarrow> ('a \<Rightarrow> Worker \<Rightarrow> Worker) \<Rightarrow> (Worker \<times> Device, 'a) act" where
  "on_dev m f = (\<lambda>(wk, d). case m d of None \<Rightarrow> None
     | Some (Inl e, d') \<Rightarrow> Some (Inl e, (wk, d'))
     | Some (Inr x, d') \<Rightarrow> Some (Inr x, (f x wk, d')))"

definition init_state_pool :: "bool \<Rightarrow> Ccop \<Rightarrow> ModelConfig \<Rightarrow> EngineConfig \<Rightarrow> (Worker \<times> Device, unit) act" where
  "init_state_pool dbg co model engine =
     and_then (on_dev (state_pool_create dbg co model (max_sequences engine) (state_prefix_cache_blocks engine))
       (\<lambda>p wk. wk\<lparr>wk_state_pool := Some p\<rparr>)) (\<lambda>_.
     and_then (lift_opt (state_cache_new dbg (state_prefix_cache_blocks engine))) (\<lambda>c (wk, d).
     ret () (wk\<lparr>wk_state_cache := Some c\<rparr>, d)))"

definition init_resources :: "bool \<Rightarrow> Ccop \<Rightarrow> (string \<Rightarrow> 'w result) \<Rightarrow> ('w \<Rightarrow> (Device, Model) act registry) \<Rightarrow> string \<Rightarrow>
    ModelConfig \<Rightarrow> EngineConfig \<Rightarrow> (Worker \<times> Device, unit) act" where
  "init_resources dbg co open_weights registry path model engine = (\<lambda>(wk, d).
     and_then (on_dev (backend_create (device_id engine)) (\<lambda>b wk. wk\<lparr>wk_backend := Some b\<rparr>)) (\<lambda>_.
     and_then (lift (open_weights path)) (\<lambda>w.
     and_then (on_dev (registry_create model (registry w)) (\<lambda>m wk. wk\<lparr>wk_model := Some m\<rparr>)) (\<lambda>_.
     and_then (lift_opt (if mc_arch model = Arch_Qwen3_5 then num_kv_layers dbg model else Some (mc_n_layers model))) (\<lambda>layers.
     and_then (on_dev (storage_create dbg co layers (max_blocks engine) (kv_block_size engine) (mc_n_kv_heads model) (mc_head_dim model) DT_BFloat16)
       (\<lambda>s wk. wk\<lparr>wk_block_storage := Some s\<rparr>)) (\<lambda>storage.
     and_then (check (assert_that dbg (bs_block_size storage = kv_block_size engine))) (\<lambda>_.
     and_then (if mc_arch model = Arch_Qwen3_5 then init_state_pool dbg co model engine else ret ()) (\<lambda>_ (wk, d).
     ret () (wk\<lparr>wk_initialized := True\<rparr>, d)))))))) (wk\<lparr>wk_config := engine\<rparr>, d))"

definition worker_init :: "bool \<Rightarrow> Ccop \<Rightarrow> (string \<Rightarrow> 'w result) \<Rightarrow> ('w \<Rightarrow> (Device, Model) act registry) \<Rightarrow> string \<Rightarrow>
    ModelConfig \<Rightarrow> EngineConfig \<Rightarrow> (Worker \<times> Device, unit) act" where
  "worker_init dbg co open_weights registry path model engine = (\<lambda>(wk, d).
     if wk_running wk \<or> wk_thread wk then Some (Inl InvalidArgument, (wk, d))
     else and_then (or_else (init_resources dbg co open_weights registry path model engine)
         (\<lambda>e s. case reset_resources dbg s of None \<Rightarrow> None | Some s' \<Rightarrow> fail e s')) (\<lambda>_ (wk, d).
       ret () (wk\<lparr>wk_running := True, wk_thread := True\<rparr>, d)) (wk, d))"

definition enqueue_execute_batch :: "ScheduledBatch \<Rightarrow> nat \<Rightarrow> Worker \<Rightarrow> nat result \<times> Worker" where
  "enqueue_execute_batch batch chan wk =
     (if \<not> wk_running wk then (Inl ServerShuttingDown, wk)
      else (Inr chan, wk\<lparr>wk_queue := wk_queue wk @ [\<lparr>pd_batch = batch, pd_chan = chan\<rparr>]\<rparr>))"

definition release_sequence :: "bool \<Rightarrow> SequenceId \<Rightarrow> (Worker \<times> Device, unit) act" where
  "release_sequence dbg seq = (\<lambda>(wk, d). case wk_state_pool wk of
     None \<Rightarrow> Some (Inr (), (wk, d))
   | Some p \<Rightarrow> (case release_active dbg seq (p, d) of None \<Rightarrow> None
       | Some (r, (p', d')) \<Rightarrow> Some (r, (wk\<lparr>wk_state_pool := Some p'\<rparr>, d'))))"

text \<open>
  The worker thread beside the threads that call \<^verbatim>\<open>enqueue_execute_batch\<close> and \<^verbatim>\<open>shutdown\<close>. \<open>wl_local\<close> is the
  thread's \<^verbatim>\<open>local_queue\<close>; the thread sleeps when no rule of its own applies.
\<close>

record Work_Loop =
  wl_local :: "PendingBatch list"
  wl_worker :: Worker
  wl_device :: Device
  wl_done :: bool
  wl_accepted :: "nat list"

inductive thread_step :: "bool \<Rightarrow> Ccop \<Rightarrow> Work_Loop \<Rightarrow> Work_Loop \<Rightarrow> bool" for dbg co where
  take: "\<not> wl_done l \<Longrightarrow> wl_local l = [] \<Longrightarrow> wk_queue (wl_worker l) \<noteq> [] \<Longrightarrow>
    thread_step dbg co l (l\<lparr>wl_local := wk_queue (wl_worker l), wl_worker := (wl_worker l)\<lparr>wk_queue := []\<rparr>\<rparr>)"
| command: "\<not> wl_done l \<Longrightarrow> wl_local l = c # cs \<Longrightarrow> process_command dbg co c (wl_worker l, wl_device l) = Some (wk, d) \<Longrightarrow>
    thread_step dbg co l (l\<lparr>wl_local := cs, wl_worker := wk, wl_device := d\<rparr>)"
| exit: "\<not> wl_done l \<Longrightarrow> wl_local l = [] \<Longrightarrow> wk_queue (wl_worker l) = [] \<Longrightarrow> \<not> wk_running (wl_worker l) \<Longrightarrow>
    reset_resources dbg (wl_worker l, wl_device l) = Some (wk, d) \<Longrightarrow>
    thread_step dbg co l (l\<lparr>wl_worker := wk, wl_device := d, wl_done := True\<rparr>)"

inductive client_step :: "Work_Loop \<Rightarrow> Work_Loop \<Rightarrow> bool" where
  enqueue: "enqueue_execute_batch batch chan (wl_worker l) = (Inr c, wk) \<Longrightarrow>
    client_step l (l\<lparr>wl_worker := wk, wl_accepted := wl_accepted l @ [chan]\<rparr>)"
| stop: "client_step l (l\<lparr>wl_worker := (wl_worker l)\<lparr>wk_running := False\<rparr>\<rparr>)"

section \<open>The executor\<close>

datatype asio_error = No_Error | Operation_Aborted | Channel_Cancelled | Eof | Channel_Closed | Other_Error int

fun to_error_code :: "asio_error \<Rightarrow> ErrorCode" where
  "to_error_code No_Error = Ok"
| "to_error_code Operation_Aborted = ChannelCancelled"
| "to_error_code Channel_Cancelled = ChannelCancelled"
| "to_error_code Eof = ChannelClosed"
| "to_error_code Channel_Closed = ChannelClosed"
| "to_error_code (Other_Error _) = ChannelError"

definition execute_batch :: "ScheduledBatch \<Rightarrow> nat \<Rightarrow> Worker \<Rightarrow> nat result \<times> Worker" where
  "execute_batch batch chan wk = (case enqueue_execute_batch batch chan wk of
     (Inl e, wk) \<Rightarrow> (Inl e, wk) | (Inr future, wk) \<Rightarrow> (Inr future, wk))"

definition collect_batch :: "asio_error \<Rightarrow> BatchResult result \<Rightarrow> BatchResult result" where
  "collect_batch ec result = (if ec \<noteq> No_Error then Inl (to_error_code ec) else case result of Inl e \<Rightarrow> Inl e | Inr r \<Rightarrow> Inr r)"

definition executor_release_sequence :: "bool \<Rightarrow> SequenceId \<Rightarrow> (Worker \<times> Device, unit) act" where
  "executor_release_sequence dbg seq = ignored (release_sequence dbg seq)"

end
