(* ===== verification/Worker_Safety.thy ===== *)
theory Worker_Safety
  imports Worker_Ops Translate_Spec
begin

text \<open>
  The worker keeps the contract the engine assumes of its executor: every batch gets one answer, the
  answer has one result per item in order, and stale results and failed sequences are reported as the
  transition system of the engine expects. The worker thread answers batches in the order they were
  accepted, each once, and drains its queue after a shutdown.
\<close>

section \<open>Actions that always return\<close>

definition returns :: "('s, 'a) act \<Rightarrow> bool" where
  "returns m \<longleftrightarrow> (\<forall>s. m s \<noteq> None)"

lemma returns_runs: "returns m \<longleftrightarrow> (\<forall>s. runs m s (\<lambda>_ _. True))"
  by (auto simp: returns_def runs_def)

lemma returns_ret [intro, simp]: "returns (ret x)" "returns (fail e)"
  by (simp_all add: returns_def ret_def fail_def)

lemma returns_and_then [intro]: "returns m \<Longrightarrow> (\<And>x. returns (f x)) \<Longrightarrow> returns (and_then m f)"
  by (force simp: returns_def and_then_def split: option.splits prod.splits sum.splits)

lemma returns_check [simp]: "returns (check (Some ()))"
  by (simp add: returns_def check_def)

lemma returns_cuda [simp]: "returns (cuda_call c)" "returns (ccop_call n p a)"
  by (simp_all add: returns_def cuda_call_def ccop_call_def)

lemma returns_memcpy [simp]: "returns (memcpy_h2d False dst src n)" "returns (memcpy_d2h False s n)" "returns synchronize"
proof -
  show "returns (memcpy_h2d False dst src n)" "returns synchronize" by (auto simp: memcpy_h2d_def synchronize_def)
  have "returns (and_then (cuda_call (Copy_D2H s n)) (\<lambda>_. and_then (cuda_call Sync) (\<lambda>_. ret (dv_host d (dv_calls d)))))" for d
    by (intro returns_and_then) simp_all
  then show "returns (memcpy_d2h False s n)" by (auto simp: returns_def memcpy_d2h_def)
qed

lemma returns_tensor_empty:
  assumes "ccop_ok co" "0 < co_dtype_size co dt"
  shows "returns (tensor_empty dbg co dt shape)"
  unfolding returns_runs using tensor_empty_spec [OF assms] by (blast intro: runs_mono)

lemma returns_upload:
  assumes "ccop_ok co" "0 < co_dtype_size co DT_Int32"
  shows "returns (upload False co v shape)"
  unfolding upload_def from_host_def using returns_tensor_empty [OF assms] by (auto intro!: returns_and_then)

text \<open>What a returned result satisfies, over any device.\<close>

definition ensures :: "('s, 'a) act \<Rightarrow> ('a \<Rightarrow> bool) \<Rightarrow> bool" where
  "ensures m Q \<longleftrightarrow> (\<forall>s x s'. m s = Some (Inr x, s') \<longrightarrow> Q x)"

lemma ensures_ret: "Q x \<Longrightarrow> ensures (ret x) Q"
  by (simp add: ensures_def)

lemma ensures_fail [simp]: "ensures (fail e) Q"
  by (simp add: ensures_def)

lemma ensures_and_then: "(\<And>x. ensures (f x) Q) \<Longrightarrow> ensures (and_then m f) Q"
  by (auto simp: ensures_def and_then_Some_iff)

section \<open>Translation and inference\<close>

definition batch_for :: "WorkItem list \<Rightarrow> PhysicalBatch \<Rightarrow> bool" where
  "batch_for items pb \<longleftrightarrow> pb_batch_size pb = int (length items) \<and> pb_item_seq_ids pb = map work_sequence_id items \<and>
     pb_item_kinds pb = map work_kind items \<and> pb_item_token_counts pb = map work_token_count items \<and>
     pb_sample_flags pb = map samples items"

lemma translate_ok:
  assumes co: "ccop_ok co" "0 < co_dtype_size co DT_Int32" and bs: "0 < bs" and ne: "sb_items batch \<noteq> []"
    and rdy: "\<forall>it \<in> set (sb_items batch). item_ready bs it" and tot: "token_total (sb_items batch) \<le> INT_MAX"
  shows "returns (translate False co bs sp batch)" "ensures (translate False co bs sp batch) (batch_for (sb_items batch))"
proof -
  have "\<forall>it \<in> set (sb_items batch). item_ready bs it \<and> (False \<longrightarrow> item_table it \<noteq> [] \<and> \<not> late_bound it)" using rdy by simp
  note H = host_arrays_eq [OF bs ne this tot]
  have l: "lift_opt (Some x) = ret x" for x :: "int \<times> int \<times> Arrays" by (simp add: lift_opt_def ret_def fun_eq_iff)
  have b: "and_then (ret x) f = f x" for x :: "int \<times> int \<times> Arrays" and f :: "_ \<Rightarrow> (Device, PhysicalBatch) act"
    by (simp add: and_then_def ret_def fun_eq_iff)
  show "returns (translate False co bs sp batch)"
    unfolding translate_def H l b prod.case Let_def
    by (intro returns_and_then returns_upload [OF co] returns_memcpy returns_ret) (auto intro!: returns_and_then returns_upload [OF co])
  show "ensures (translate False co bs sp batch) (batch_for (sb_items batch))"
    unfolding translate_def H l b prod.case Let_def
    by (intro ensures_and_then ensures_ret) (simp add: batch_for_def arrays_of_def Let_def)
qed

text \<open>The results of inference: one per item, in order.\<close>

definition results_for :: "WorkItem list \<Rightarrow> WorkItemResult list \<Rightarrow> bool" where
  "results_for items rs \<longleftrightarrow> length rs = length items \<and>
     (\<forall>i < length items. item_index (rs ! i) = int i \<and> res_ok (items ! i) (rs ! i) \<and> \<not> wr_stale (rs ! i))"

definition model_returns :: "Model \<Rightarrow> bool" where
  "model_returns m \<longleftrightarrow> (\<forall>fi fo bs ss. returns (md_forward m fi fo bs ss))"

lemma inference_ok:
  assumes co: "ccop_ok co" "0 < co_dtype_size co DT_Int32" "0 < co_dtype_size co DT_Float32" and m: "model_returns m" and pb: "batch_for items pb"
  shows "returns (inference False co m pb bs ss sampling)" "ensures (inference False co m pb bs ss sampling) (results_for items)"
proof -
  have n: "nat (pb_batch_size pb) = length items" using pb by (simp add: batch_for_def)
  have req: "require (nat (pb_batch_size pb) \<le> length (pb_item_seq_ids pb) \<and> nat (pb_batch_size pb) \<le> length (pb_item_kinds pb) \<and>
       nat (pb_batch_size pb) \<le> length (pb_sample_flags pb) \<and> nat (pb_batch_size pb) \<le> length (pb_item_token_counts pb)) = Some ()"
    using pb by (simp add: batch_for_def)
  show "returns (inference False co m pb bs ss sampling)"
    unfolding inference_def Let_def req using m
    by (auto intro!: returns_and_then returns_tensor_empty co simp: model_returns_def)
  have "results_for items (map (result_of pb sampling th) [0..<length items])" for th
    using pb by (auto simp: results_for_def result_of_def Let_def res_ok_def batch_for_def)
  then show "ensures (inference False co m pb bs ss sampling) (results_for items)"
    unfolding inference_def Let_def req n by (auto intro!: ensures_and_then ensures_ret)
qed

section \<open>Resolving a batch\<close>

definition live_idx :: "SequenceId set \<Rightarrow> WorkItem list \<Rightarrow> nat list" where
  "live_idx failed items = filter (\<lambda>i. work_sequence_id (items ! i) \<notin> failed) [0..<length items]"

definition dead_idx :: "SequenceId set \<Rightarrow> WorkItem list \<Rightarrow> nat list" where
  "dead_idx failed items = filter (\<lambda>i. work_sequence_id (items ! i) \<in> failed) [0..<length items]"

text \<open>Binding a token late changes only the token.\<close>

definition same_work :: "WorkItem \<Rightarrow> WorkItem \<Rightarrow> bool" where
  "same_work it it' \<longleftrightarrow> work_sequence_id it' = work_sequence_id it \<and> work_kind it' = work_kind it \<and> work_token_count it' = work_token_count it \<and>
     samples it' = samples it \<and> (\<forall>bs. item_ready bs it' = item_ready bs it)"

definition bindable :: "Worker \<Rightarrow> WorkItem \<Rightarrow> bool" where
  "bindable wk it \<longleftrightarrow> work_sequence_id it \<in> wk_failed_sequences wk \<or> \<not> late_bound it \<or> wk_latest_tokens wk (work_sequence_id it) \<noteq> None"

lemma late_bind_ok:
  assumes "bindable wk it"
  shows "\<exists>it'. late_bind wk (work_sequence_id it \<in> wk_failed_sequences wk) it = Some it' \<and> same_work it it'"
proof (cases it)
  case (Prefill_Work w)
  then show ?thesis by (simp add: late_bind_def same_work_def)
next
  case (Decode_Work w)
  show ?thesis
  proof (cases "dt_seq_id w \<in> wk_failed_sequences wk \<or> \<not> dt_late_bind w")
    case True
    then show ?thesis using Decode_Work by (simp add: late_bind_def same_work_def)
  next
    case False
    then obtain t where "wk_latest_tokens wk (dt_seq_id w) = Some t" using assms Decode_Work by (auto simp: bindable_def)
    then show ?thesis using Decode_Work False by (simp add: late_bind_def same_work_def item_ready_def item_context_def)
  qed
qed

definition resolved_ok :: "SequenceId set \<Rightarrow> WorkItem list \<Rightarrow> ResolvedBatch \<Rightarrow> bool" where
  "resolved_ok failed items rb \<longleftrightarrow> rb_original_indices rb = live_idx failed items \<and>
     rb_stale_results rb = map (\<lambda>i. stale_result i (items ! i)) (dead_idx failed items) \<and>
     list_all2 same_work (map ((!) items) (live_idx failed items)) (sb_items (rb_batch rb))"

lemma live_idx_snoc:
  "live_idx F (items @ [it]) = live_idx F items @ (if work_sequence_id it \<in> F then [] else [length items])"
  "dead_idx F (items @ [it]) = dead_idx F items @ (if work_sequence_id it \<in> F then [length items] else [])"
  unfolding live_idx_def dead_idx_def by (auto simp: nth_append intro!: filter_cong)

lemma idx_bound: "i \<in> set (live_idx F items) \<union> set (dead_idx F items) \<Longrightarrow> i < length items"
  by (auto simp: live_idx_def dead_idx_def)

lemma resolve_loop_ok:
  assumes "resolved_ok (wk_failed_sequences wk) pre rb" "\<forall>it \<in> set items. bindable wk it"
  shows "\<exists>rb'. resolve_loop wk (length pre) items rb = Some rb' \<and> resolved_ok (wk_failed_sequences wk) (pre @ items) rb' \<and>
    sb_sampling (rb_batch rb') = sb_sampling (rb_batch rb)"
  using assms
proof (induction items arbitrary: pre rb)
  case (Cons it items)
  let ?F = "wk_failed_sequences wk"
  obtain it' where it': "late_bind wk (work_sequence_id it \<in> ?F) it = Some it'" "same_work it it'" using late_bind_ok [of wk it] Cons.prems(2) by auto
  let ?rb = "if work_sequence_id it \<in> ?F then rb\<lparr>rb_stale_results := rb_stale_results rb @ [stale_result (length pre) it]\<rparr>
        else rb\<lparr>rb_batch := (rb_batch rb)\<lparr>sb_items := sb_items (rb_batch rb) @ [it']\<rparr>, rb_original_indices := rb_original_indices rb @ [length pre]\<rparr>"
  have m: "map ((!) (pre @ [it])) (live_idx ?F pre) = map ((!) pre) (live_idx ?F pre)"
      "map (\<lambda>i. stale_result i ((pre @ [it]) ! i)) (dead_idx ?F pre) = map (\<lambda>i. stale_result i (pre ! i)) (dead_idx ?F pre)"
    using idx_bound [of _ ?F pre] by (auto simp: nth_append)
  have ok: "resolved_ok ?F (pre @ [it]) ?rb"
    using Cons.prems(1) it'(2) by (auto simp: resolved_ok_def live_idx_snoc m list_all2_lengthD intro!: list_all2_appendI)
  have "sb_sampling (rb_batch ?rb) = sb_sampling (rb_batch rb)" by simp
  with Cons.IH [OF ok] Cons.prems(2) it'(1) show ?case by (auto simp: Let_def split del: if_split)
qed simp

lemma resolve_batch_ok:
  assumes "\<forall>it \<in> set (sb_items batch). bindable wk it"
  shows "\<exists>rb. resolve_batch wk batch = Some rb \<and> resolved_ok (wk_failed_sequences wk) (sb_items batch) rb \<and>
    sb_sampling (rb_batch rb) = sb_sampling batch"
  using resolve_loop_ok [of wk "[]" "\<lparr>rb_batch = \<lparr>sb_batch_id = sb_batch_id batch, sb_items = [], sb_sampling = sb_sampling batch\<rparr>,
      rb_original_indices = [], rb_stale_results = []\<rparr>" "sb_items batch"] assms
  by (simp add: resolve_batch_def resolved_ok_def live_idx_def dead_idx_def)

section \<open>Putting the results in order\<close>

lemma note_latest_fields [simp]:
  "wk_failed_sequences (note_latest it r wk) = wk_failed_sequences wk" "wk_posted (note_latest it r wk) = wk_posted wk"
  "wk_queue (note_latest it r wk) = wk_queue wk" "wk_running (note_latest it r wk) = wk_running wk"
  by (simp_all add: note_latest_def Let_def split: WorkItem.splits)

lemma remap_ok:
  assumes "\<forall>r \<in> set rs. 0 \<le> item_index r \<and> item_index r < int (length original)" "\<forall>i \<in> set original. i < length (sb_items batch)"
  shows "\<exists>wk'. remap_results batch original rs wk = Some (map (\<lambda>r. r\<lparr>item_index := int (original ! nat (item_index r))\<rparr>) rs, wk') \<and>
    wk_failed_sequences wk' = wk_failed_sequences wk \<and> wk_posted wk' = wk_posted wk \<and> wk_queue wk' = wk_queue wk \<and> wk_running wk' = wk_running wk"
  using assms(1)
proof (induction rs arbitrary: wk)
  case (Cons r rs)
  let ?i = "original ! nat (item_index r)"
  have i: "?i \<in> set original" using Cons.prems by (simp add: nat_less_iff)
  then have "get (item_index r) original = Some ?i" "get (int ?i) (sb_items batch) = Some (sb_items batch ! ?i)"
    using Cons.prems assms(2) by (simp_all add: get_def)
  moreover obtain wk' where "remap_results batch original rs (note_latest (sb_items batch ! ?i) (r\<lparr>item_index := int ?i\<rparr>) wk) =
      Some (map (\<lambda>r. r\<lparr>item_index := int (original ! nat (item_index r))\<rparr>) rs, wk')"
    "wk_failed_sequences wk' = wk_failed_sequences wk" "wk_posted wk' = wk_posted wk" "wk_queue wk' = wk_queue wk" "wk_running wk' = wk_running wk"
    using Cons.IH [of "note_latest (sb_items batch ! ?i) (r\<lparr>item_index := int ?i\<rparr>) wk"] Cons.prems by auto
  ultimately show ?case by (simp add: Let_def)
qed simp

lemma sort_key_positions:
  assumes "distinct (map f xs)" "f ` set xs = int ` {0..<n}"
  shows "length (sort_key f xs) = n" "i < n \<Longrightarrow> f (sort_key f xs ! i) = int i"
proof -
  have d: "distinct (map f (sort_key f xs))" using assms(1) by (simp add: distinct_map)
  have "map f (sort_key f xs) = sorted_list_of_set (set (map f (sort_key f xs)))"
    using d by (simp only: sorted_list_of_set.idem_if_sorted_distinct sorted_sort_key)
  moreover have "set (map f (sort_key f xs)) = int ` {0..<n}" using assms(2) by simp
  moreover have "sorted_list_of_set (int ` {0..<n}) = map int [0..<n]"
    by (rule sorted_distinct_set_unique) (simp_all add: sorted_map distinct_map)
  ultimately have e: "map f (sort_key f xs) = map int [0..<n]" by simp
  then show l: "length (sort_key f xs) = n" by (metis diff_zero length_map length_upt)
  show "f (sort_key f xs ! i) = int i" if "i < n"
    using arg_cong [OF e, of "\<lambda>ys. ys ! i"] that l by simp
qed

lemma idx_partition:
  "distinct (live_idx F items @ dead_idx F items)" "set (live_idx F items) \<union> set (dead_idx F items) = {0..<length items}"
  by (auto simp: live_idx_def dead_idx_def)

lemma same_work_res_ok: "same_work it it' \<Longrightarrow> res_ok it' r \<Longrightarrow> res_ok it r"
  by (simp add: same_work_def res_ok_def)

lemma ordered_results:
  assumes rb: "resolved_ok F (sb_items batch) rb" and rs: "results_for (sb_items (rb_batch rb)) rs"
  defines "all \<equiv> map (\<lambda>r. r\<lparr>item_index := int (rb_original_indices rb ! nat (item_index r))\<rparr>) rs @ rb_stale_results rb"
  shows "batch_res_ok F batch \<lparr>br_batch_id = sb_batch_id batch, br_items = sort_key item_index all\<rparr>"
proof -
  let ?items = "sb_items batch" and ?L = "live_idx F (sb_items batch)" and ?D = "dead_idx F (sb_items batch)"
  have len: "length rs = length ?L" using rb rs by (auto simp: resolved_ok_def results_for_def dest!: list_all2_lengthD)
  have keys: "map item_index all = map int (?L @ ?D)"
  proof -
    have "map (\<lambda>r. int (?L ! nat (item_index r))) rs = map int ?L"
      by (rule nth_equalityI) (use len rs in \<open>auto simp: results_for_def dest!: list_all2_lengthD\<close>)
    then show ?thesis using rb by (simp add: all_def resolved_ok_def stale_result_def o_def)
  qed
  have d: "distinct (map item_index all)" unfolding keys using idx_partition(1) [of F ?items] by (simp only: distinct_map inj_on_def) simp
  have im: "item_index ` set all = int ` {0..<length ?items}"
    using arg_cong [OF keys, of set] idx_partition(2) [of F ?items] by (simp only: set_map set_append)
  note S = sort_key_positions [OF d im]
  have each: "res_ok (?items ! i) r \<and> (wr_stale r \<longrightarrow> wr_seq_id r \<in> F)" if r: "r \<in> set all" and i: "item_index r = int i" for r i
  proof (cases "r \<in> set (rb_stale_results rb)")
    case True
    then obtain j where "j \<in> set ?D" "r = stale_result j (?items ! j)" using rb by (auto simp: resolved_ok_def)
    then show ?thesis using i by (auto simp: stale_result_def res_ok_def dead_idx_def)
  next
    case False
    then obtain r0 where r0: "r0 \<in> set rs" "r = r0\<lparr>item_index := int (?L ! nat (item_index r0))\<rparr>"
      using r rb by (auto simp: all_def resolved_ok_def)
    then obtain k where k: "k < length rs" "r0 = rs ! k" by (auto simp: in_set_conv_nth)
    have ix: "item_index r0 = int k" "res_ok (sb_items (rb_batch rb) ! k) r0" "\<not> wr_stale r0"
      using rs k by (auto simp: results_for_def)
    have "same_work (?items ! (?L ! k)) (sb_items (rb_batch rb) ! k)"
      using rb k(1) len by (auto simp: resolved_ok_def list_all2_conv_all_nth)
    from same_work_res_ok [OF this ix(2)] show ?thesis using r0(2) ix i by (simp add: res_ok_def)
  qed
  have "item_index (sort_key item_index all ! i) = int i \<and> res_ok (?items ! i) (sort_key item_index all ! i) \<and>
      (wr_stale (sort_key item_index all ! i) \<longrightarrow> wr_seq_id (sort_key item_index all ! i) \<in> F)" if "i < length ?items" for i
  proof -
    have "sort_key item_index all ! i \<in> set all" using that S(1) nth_mem [of i "sort_key item_index all"] by simp
    from each [OF this S(2) [OF that]] show ?thesis using S(2) [OF that] by simp
  qed
  then show ?thesis unfolding batch_res_ok_def using S(1) by (simp add: Let_def)
qed

lemma sum_filter_le: "\<forall>x \<in> set xs. (0 :: int) \<le> f x \<Longrightarrow> (\<Sum>x\<leftarrow>filter P xs. f x) \<le> (\<Sum>x\<leftarrow>xs. f x)"
  by (induction xs) fastforce+

lemma resolved_total:
  assumes "resolved_ok F items rb" "\<forall>it \<in> set items. 0 < work_token_count it"
  shows "token_total (sb_items (rb_batch rb)) \<le> token_total items"
proof -
  have "list_all2 same_work (map ((!) items) (live_idx F items)) (sb_items (rb_batch rb))" using assms(1) by (simp add: resolved_ok_def)
  then have "map work_token_count (sb_items (rb_batch rb)) = map (\<lambda>i. work_token_count (items ! i)) (live_idx F items)"
    by (intro nth_equalityI) (auto simp: list_all2_conv_all_nth same_work_def)
  then have "token_total (sb_items (rb_batch rb)) = (\<Sum>i\<leftarrow>live_idx F items. work_token_count (items ! i))" by (simp add: token_total_def)
  also have "\<dots> \<le> (\<Sum>i\<leftarrow>[0..<length items]. work_token_count (items ! i))"
    unfolding live_idx_def by (rule sum_filter_le) (use assms(2) in \<open>simp add: less_imp_le\<close>)
  also have "map (\<lambda>i. work_token_count (items ! i)) [0..<length items] = map work_token_count items"
    by (rule nth_equalityI) simp_all
  finally show ?thesis by (simp only: token_total_def)
qed

section \<open>A whole batch\<close>

text \<open>What the worker relies on: an initialised worker with a model that returns, and items that fit.\<close>

definition worker_ok :: "Ccop \<Rightarrow> Worker \<Rightarrow> bool" where
  "worker_ok co wk \<longleftrightarrow> ccop_ok co \<and> 0 < co_dtype_size co DT_Int32 \<and> 0 < co_dtype_size co DT_Float32 \<and> 0 < kv_block_size (wk_config wk) \<and>
     wk_block_storage wk \<noteq> None \<and> (\<exists>m. wk_model wk = Some m \<and> model_returns m) \<and>
     (\<forall>p. wk_state_pool wk = Some p \<longrightarrow> pool_ok co p)"

definition frame :: "Worker \<Rightarrow> Worker \<Rightarrow> bool" where
  "frame wk wk' \<longleftrightarrow> wk_failed_sequences wk' = wk_failed_sequences wk \<and> wk_posted wk' = wk_posted wk \<and> wk_queue wk' = wk_queue wk \<and>
     wk_running wk' = wk_running wk \<and> wk_config wk' = wk_config wk \<and> wk_model wk' = wk_model wk \<and> wk_block_storage wk' = wk_block_storage wk"

lemma acquire_state_ok:
  assumes "worker_ok co wk"
  shows "runs (acquire_state dbg co seq) (wk, d) (\<lambda>r (wk', d'). worker_ok co wk' \<and> frame wk wk')"
proof (cases "wk_state_pool wk")
  case None
  then show ?thesis using assms by (simp add: acquire_state_def runs_def frame_def)
next
  case (Some p)
  then have "pool_ok co p" using assms by (simp add: worker_ok_def)
  then have "runs (acquire_active dbg co seq) (p, d) (\<lambda>r (p', d'). pool_ok co p')"
    by (rule runs_mono [OF acquire_active_spec]) (simp split: prod.splits)
  then obtain r p' d' where "acquire_active dbg co seq (p, d) = Some (r, (p', d'))" "pool_ok co p'" by (auto simp: runs_def)
  then show ?thesis using Some assms by (simp add: runs_def acquire_state_def worker_ok_def frame_def)
qed

lemma acquire_states_ok:
  assumes "worker_ok co wk"
  shows "runs (each (\<lambda>item. acquire_state dbg co (work_sequence_id item)) items) (wk, d) (\<lambda>r (wk', d'). worker_ok co wk' \<and> frame wk wk')"
  using assms
proof (induction items arbitrary: wk d)
  case (Cons it items)
  show ?case
    unfolding each.simps
  proof (rule runs_and_thenI [OF acquire_state_ok [OF Cons.prems]], goal_cases)
    case (1 x t)
    then obtain wk1 d1 where t: "t = (wk1, d1)" "worker_ok co wk1" "frame wk wk1" by (cases t) simp
    show ?case
      unfolding t(1) by (rule runs_mono [OF Cons.IH [OF t(2)]]) (use t(3) in \<open>simp add: frame_def split: prod.splits\<close>)
  qed simp
qed (simp add: frame_def)

lemma runs_lift_dev: "runs (lift_dev m) (wk, d) Q = runs m d (\<lambda>r d'. Q r (wk, d'))"
  by (auto simp: runs_def lift_dev_def split: option.splits prod.splits)

lemma runs_total:
  assumes "returns m" "ensures m Q"
  shows "runs m d (\<lambda>r d'. case r of Inl e \<Rightarrow> True | Inr x \<Rightarrow> Q x)"
  using assms by (auto simp: returns_def ensures_def runs_def split: sum.splits) (metis old.sum.exhaust surj_pair)

lemma execute_ok:
  assumes ok: "worker_ok co wk" and ne: "sb_items batch \<noteq> []"
    and rdy: "\<forall>it \<in> set (sb_items batch). item_ready (kv_block_size (wk_config wk)) it" and tot: "token_total (sb_items batch) \<le> INT_MAX"
  shows "runs (execute False co batch) (wk, d) (\<lambda>r (wk', d'). worker_ok co wk' \<and> frame wk wk' \<and> (\<forall>rs. r = Inr rs \<longrightarrow> results_for (sb_items batch) rs))"
  unfolding execute_def
proof (rule runs_and_thenI [OF acquire_states_ok [OF ok]], goal_cases)
  case (1 x t)
  then obtain wk1 d1 where t: "t = (wk1, d1)" "worker_ok co wk1" "frame wk wk1" by (cases t) simp
  obtain m st where m: "wk_model wk1 = Some m" "model_returns m" "wk_block_storage wk1 = Some st" using t(2) by (auto simp: worker_ok_def)
  have co: "ccop_ok co" "0 < co_dtype_size co DT_Int32" "0 < co_dtype_size co DT_Float32" using ok by (simp_all add: worker_ok_def)
  have bs: "0 < kv_block_size (wk_config wk1)" "kv_block_size (wk_config wk1) = kv_block_size (wk_config wk)"
    using t(2,3) by (simp_all add: worker_ok_def frame_def)
  note T = runs_total [OF translate_ok [OF co(1,2) bs(1) ne _ tot, of "wk_state_pool wk1"]]
  have inf: "runs (lift_dev (inference False co m pb st (map_option sp_storage (wk_state_pool wk1)) (sb_sampling batch))) (wk1, d2)
      (\<lambda>r (wk', d'). worker_ok co wk' \<and> frame wk wk' \<and> (\<forall>rs. r = Inr rs \<longrightarrow> results_for (sb_items batch) rs))"
    if "batch_for (sb_items batch) pb" for pb d2
    unfolding runs_lift_dev by (rule runs_mono [OF runs_total [OF inference_ok [OF co m(2) that]]]) (use t(2,3) in \<open>simp split: sum.splits\<close>)
  have "runs (and_then (lift_dev (translate False co (kv_block_size (wk_config wk1)) (wk_state_pool wk1) batch)) (\<lambda>physical.
       case (wk_model wk1, wk_block_storage wk1) of (Some model, Some storage) \<Rightarrow>
         lift_dev (inference False co model physical storage (map_option sp_storage (wk_state_pool wk1)) (sb_sampling batch))
       | _ \<Rightarrow> (\<lambda>_. None))) (wk1, d1)
     (\<lambda>r (wk', d'). worker_ok co wk' \<and> frame wk wk' \<and> (\<forall>rs. r = Inr rs \<longrightarrow> results_for (sb_items batch) rs))"
  proof (rule runs_and_thenI [where P = "\<lambda>r (wk', d'). wk' = wk1 \<and> (\<forall>pb. r = Inr pb \<longrightarrow> batch_for (sb_items batch) pb)"], goal_cases)
    case 1
    show ?case unfolding runs_lift_dev by (rule runs_mono [OF T]) (use rdy bs(2) in \<open>simp_all split: sum.splits\<close>)
  next
    case (2 pb s)
    then show ?case using inf m by (cases s) simp
  next
    case (3 e s)
    then show ?case using t(2,3) by (cases s) simp
  qed
  then show ?case unfolding t(1) runs_def prod.case .
qed simp


definition model_worker :: Worker where
  "model_worker = (worker_new run_cfg)\<lparr>wk_running := True, wk_thread := True, wk_initialized := True, wk_backend := Some 0,
     wk_model := Some \<lparr>md_config = default_model_config, md_forward = (\<lambda>_ _ _ _. ret ())\<rparr>, wk_block_storage := Some storage_default\<rparr>"

lemma model_worker_ok: "worker_ok model_ccop model_worker"
  using model_ccop_ok
  by (simp add: worker_ok_def model_worker_def worker_new_def run_cfg_def default_engine_config_def model_returns_def model_ccop_def)


section \<open>The worker thread\<close>

text \<open>\<open>keeps m\<close>: the action leaves queue, posted completions and the running flag alone.\<close>

definition keeps :: "(Worker \<times> Device, 'a) act \<Rightarrow> bool" where
  "keeps m \<longleftrightarrow> (\<forall>wk d r wk' d'. m (wk, d) = Some (r, (wk', d')) \<longrightarrow>
     wk_posted wk' = wk_posted wk \<and> wk_queue wk' = wk_queue wk \<and> wk_running wk' = wk_running wk)"

lemma keepsD: "keeps m \<Longrightarrow> m (wk, d) = Some (r, (wk', d')) \<Longrightarrow>
    wk_posted wk' = wk_posted wk \<and> wk_queue wk' = wk_queue wk \<and> wk_running wk' = wk_running wk"
  unfolding keeps_def by blast

lemma keeps_and_then:
  assumes "keeps m" "\<And>x. keeps (f x)"
  shows "keeps (and_then m f)"
  unfolding keeps_def and_then_Some_iff
proof (intro allI impI, elim disjE exE conjE)
  fix wk d r wk' d' x t assume a: "m (wk, d) = Some (Inr x, t)" "f x t = Some (r, (wk', d'))"
  obtain wk1 d1 where t: "t = (wk1, d1)" by (cases t)
  show "wk_posted wk' = wk_posted wk \<and> wk_queue wk' = wk_queue wk \<and> wk_running wk' = wk_running wk"
    using keepsD [OF assms(1) a(1) [unfolded t]] keepsD [OF assms(2) a(2) [unfolded t]] by simp
next
  fix wk d r wk' d' e assume "m (wk, d) = Some (Inl e, (wk', d'))"
  from keepsD [OF assms(1) this] show "wk_posted wk' = wk_posted wk \<and> wk_queue wk' = wk_queue wk \<and> wk_running wk' = wk_running wk" .
qed

lemma keeps_basic [simp]: "keeps (ret x)" "keeps (lift_dev m)" "keeps (acquire_state dbg co seq)" "keeps (\<lambda>_. None)"
  by (auto simp: keeps_def lift_dev_def acquire_state_def split: option.splits)

lemma keeps_each: "(\<And>x. keeps (f x)) \<Longrightarrow> keeps (each f xs)"
  by (induction xs) (auto intro: keeps_and_then)

lemma keeps_execute: "keeps (execute dbg co batch)"
proof -
  have "keeps (\<lambda>(wk, d). and_then (lift_dev (translate dbg co (kv_block_size (wk_config wk)) (wk_state_pool wk) batch)) (\<lambda>physical.
     case (wk_model wk, wk_block_storage wk) of
       (Some model, Some storage) \<Rightarrow>
         lift_dev (inference dbg co model physical storage (map_option sp_storage (wk_state_pool wk)) (sb_sampling batch))
     | _ \<Rightarrow> (\<lambda>_. None)) (wk, d))"
  proof -
    have "keeps (and_then (lift_dev (translate dbg co (kv_block_size (wk_config wk)) (wk_state_pool wk) batch)) (\<lambda>physical.
     case (wk_model wk, wk_block_storage wk) of
       (Some model, Some storage) \<Rightarrow>
         lift_dev (inference dbg co model physical storage (map_option sp_storage (wk_state_pool wk)) (sb_sampling batch))
     | _ \<Rightarrow> (\<lambda>_. None)))" for wk
      by (intro keeps_and_then) (simp_all split: option.splits)
    then show ?thesis unfolding keeps_def prod.case by blast
  qed
  then show ?thesis unfolding execute_def by (intro keeps_and_then keeps_each keeps_basic)
qed

lemma remap_keeps:
  "remap_results batch original rs wk = Some (rs', wk') \<Longrightarrow> wk_posted wk' = wk_posted wk \<and> wk_queue wk' = wk_queue wk \<and> wk_running wk' = wk_running wk"
  by (induction rs arbitrary: wk rs') (auto simp: Let_def split: Option.bind_splits prod.splits)

lemma process_command_posts:
  assumes "process_command dbg co c (wk, d) = Some (wk', d')"
  shows "\<exists>resp. wk_posted wk' = wk_posted wk @ [(pd_chan c, resp)] \<and> wk_queue wk' = wk_queue wk \<and> wk_running wk' = wk_running wk"
proof (cases "wk_running wk")
  case False
  then show ?thesis using assms by (auto simp: process_command_def resolve_def)
next
  case True
  then have p: "process_batch dbg co c (wk, d) = Some (wk', d')" using assms by (simp add: process_command_def)
  then obtain rb where rb: "resolve_batch wk (pd_batch c) = Some rb" by (auto simp: process_batch_def chk_simps)
  show ?thesis
  proof (cases "sb_items (rb_batch rb) = []")
    case True
    then show ?thesis using p rb by (auto simp: process_batch_def chk_simps Let_def resolve_def)
  next
    case False
    then obtain r wk1 d1 where ex: "execute dbg co (rb_batch rb) (wk, d) = Some (r, (wk1, d1))"
      using p rb by (auto simp: process_batch_def chk_simps Let_def)
    note K = keepsD [OF keeps_execute ex]
    show ?thesis
    proof (cases r)
      case (Inl e)
      then show ?thesis using p rb ex False K by (auto simp: process_batch_def chk_simps Let_def resolve_def fail_sequences_def)
    next
      case (Inr rs)
      then obtain rs' wk2 where rm: "remap_results (pd_batch c) (rb_original_indices rb) rs wk1 = Some (rs', wk2)"
        using p rb ex False by (auto simp: process_batch_def chk_simps Let_def)
      show ?thesis using p rb ex False K remap_keeps [OF rm] Inr rm by (auto simp: process_batch_def chk_simps Let_def resolve_def)
    qed
  qed
qed

lemma reset_posted:
  "reset_resources dbg (wk, d) = Some (wk', d') \<Longrightarrow> wk_posted wk' = wk_posted wk \<and> wk_queue wk' = wk_queue wk \<and> wk_running wk' = wk_running wk"
  by (auto simp: reset_resources_def drop_cache_def Let_def chk_simps split: option.splits)

inductive_cases thread_stepE: "thread_step dbg co l l'"
inductive_cases client_stepE: "client_step l l'"

text \<open>The channels accepted are, in order, the answered ones, the ones taken, and the queued ones.\<close>

definition in_order :: "Work_Loop \<Rightarrow> bool" where
  "in_order l \<longleftrightarrow> map fst (wk_posted (wl_worker l)) @ map pd_chan (wl_local l) @ map pd_chan (wk_queue (wl_worker l)) = wl_accepted l"

lemma in_order_step:
  assumes "thread_step dbg co l l' \<or> client_step l l'" "in_order l"
  shows "in_order l'"
  using assms(1)
proof
  assume "thread_step dbg co l l'"
  then show ?thesis
  proof cases
    case (command c cs wk d)
    then show ?thesis using process_command_posts [OF command(4)] assms(2) by (auto simp: in_order_def)
  next
    case (exit wk d)
    then show ?thesis using reset_posted [OF exit(6)] assms(2) by (auto simp: in_order_def)
  qed (use assms(2) in \<open>simp add: in_order_def\<close>)
next
  assume "client_step l l'"
  then show ?thesis
    using assms(2) by cases (auto simp: in_order_def enqueue_execute_batch_def split: if_splits)
qed

text \<open>A worker loop that has just started.\<close>

definition loop_start :: "Worker \<Rightarrow> Device \<Rightarrow> Work_Loop" where
  "loop_start wk d = \<lparr>wl_local = [], wl_worker = wk, wl_device = d, wl_done = False, wl_accepted = []\<rparr>"

abbreviation loop_step :: "bool \<Rightarrow> Ccop \<Rightarrow> Work_Loop \<Rightarrow> Work_Loop \<Rightarrow> bool" where
  "loop_step dbg co \<equiv> (\<lambda>l l'. thread_step dbg co l l' \<or> client_step l l')"

lemma loop_inv:
  assumes "(loop_step dbg co)\<^sup>*\<^sup>* l0 l" "in_order l0"
  shows "in_order l"
  using assms by (induction rule: rtranclp_induct) (auto intro: in_order_step)

text \<open>
  C28. First in, first out, and no batch is lost or answered twice. However the worker thread and the
  threads that enqueue and shut down interleave, the channels that have received their response are
  exactly the first accepted ones, in the order of acceptance; the rest is still queued or taken.
\<close>

theorem worker_fifo:
  assumes "wk_posted wk = []" "wk_queue wk = []" "(loop_step dbg co)\<^sup>*\<^sup>* (loop_start wk d) l"
  shows "\<exists>rest. wl_accepted l = map fst (wk_posted (wl_worker l)) @ rest \<and>
    length rest = length (wl_local l) + length (wk_queue (wl_worker l))"
proof -
  have "in_order (loop_start wk d)" using assms(1,2) by (simp add: in_order_def loop_start_def)
  from loop_inv [OF assms(3) this] show ?thesis
    by (intro exI [of _ "map pd_chan (wl_local l) @ map pd_chan (wk_queue (wl_worker l))"]) (simp add: in_order_def)
qed

lemma process_stopped:
  "\<not> wk_running wk \<Longrightarrow> process_command dbg co c (wk, d) = Some (resolve (pd_chan c) (Inl ServerShuttingDown) wk, d)"
  by (simp add: process_command_def)

text \<open>Commands of a stopped worker.\<close>

lemma drain_local:
  assumes "\<not> wl_done l" "\<not> wk_running (wl_worker l)"
  shows "\<exists>l'. (thread_step dbg co)\<^sup>*\<^sup>* l l' \<and> wl_local l' = [] \<and> \<not> wl_done l' \<and> wl_device l' = wl_device l \<and> wl_accepted l' = wl_accepted l \<and>
    (\<exists>ps. wl_worker l' = (wl_worker l)\<lparr>wk_posted := ps\<rparr>)"
  using assms
proof (induction "wl_local l" arbitrary: l)
  case Nil
  then show ?case by (intro exI [of _ l]) (auto intro!: exI [of _ "wk_posted (wl_worker l)"])
next
  case (Cons c cs)
  let ?wk = "resolve (pd_chan c) (Inl ServerShuttingDown) (wl_worker l)"
  let ?l = "l\<lparr>wl_local := cs, wl_worker := ?wk, wl_device := wl_device l\<rparr>"
  have st: "thread_step dbg co l ?l"
    by (rule thread_step.command [OF Cons.prems(1) Cons.hyps(2) [symmetric] process_stopped [OF Cons.prems(2)]])
  obtain l' where l': "(thread_step dbg co)\<^sup>*\<^sup>* ?l l'" "wl_local l' = []" "\<not> wl_done l'" "wl_device l' = wl_device l"
      "wl_accepted l' = wl_accepted l" "\<exists>ps. wl_worker l' = ?wk\<lparr>wk_posted := ps\<rparr>"
    using Cons.hyps(1) [of ?l] Cons.prems by (auto simp: resolve_def)
  then show ?case using converse_rtranclp_into_rtranclp [OF st l'(1)] by (intro exI [of _ l']) (auto simp: resolve_def)
qed

definition cache_unused :: "Worker \<Rightarrow> bool" where
  "cache_unused wk \<longleftrightarrow> (\<forall>c. wk_state_cache wk = Some c \<longrightarrow> sc_entries c = [])"

lemma reset_returns: "cache_unused wk \<Longrightarrow> \<exists>wk' d'. reset_resources dbg (wk, d) = Some (wk', d')"
  by (auto simp: reset_resources_def drop_cache_def cache_unused_def state_cache_destroy_def on_cache_def and_then_def ret_def Let_def
      split: option.splits)

lemma drain_all:
  assumes st: "\<not> wl_done l" "\<not> wk_running (wl_worker l)" and unused: "cache_unused (wl_worker l)"
  shows "\<exists>l'. (thread_step dbg co)\<^sup>*\<^sup>* l l' \<and> wl_done l' \<and> wl_local l' = [] \<and> wk_queue (wl_worker l') = [] \<and> wl_accepted l' = wl_accepted l"
proof -
  obtain l1 ps where l1: "(thread_step dbg co)\<^sup>*\<^sup>* l l1" "wl_local l1 = []" "\<not> wl_done l1" "wl_accepted l1 = wl_accepted l"
      "wl_worker l1 = (wl_worker l)\<lparr>wk_posted := ps\<rparr>"
    using drain_local [OF st] by blast
  have "\<exists>l2. (thread_step dbg co)\<^sup>*\<^sup>* l1 l2 \<and> wl_local l2 = [] \<and> wk_queue (wl_worker l2) = [] \<and> \<not> wl_done l2 \<and> wl_accepted l2 = wl_accepted l \<and>
      (\<exists>qs. wl_worker l2 = (wl_worker l)\<lparr>wk_queue := [], wk_posted := qs\<rparr>)"
  proof (cases "wk_queue (wl_worker l1) = []")
    case True
    then have "wl_worker l1 = (wl_worker l)\<lparr>wk_queue := [], wk_posted := ps\<rparr>" using l1(5) by simp
    then show ?thesis using True l1 by blast
  next
    case False
    let ?l = "l1\<lparr>wl_local := wk_queue (wl_worker l1), wl_worker := (wl_worker l1)\<lparr>wk_queue := []\<rparr>\<rparr>"
    have t: "thread_step dbg co l1 ?l" by (rule thread_step.take [OF l1(3,2) False])
    obtain l2 qs where l2: "(thread_step dbg co)\<^sup>*\<^sup>* ?l l2" "wl_local l2 = []" "\<not> wl_done l2" "wl_accepted l2 = wl_accepted l"
        "wl_worker l2 = (wl_worker ?l)\<lparr>wk_posted := qs\<rparr>"
      using drain_local [of ?l dbg co] l1 st by auto
    have "wl_worker l2 = (wl_worker l)\<lparr>wk_queue := [], wk_posted := qs\<rparr>" using l2(5) l1(5) by simp
    moreover from this have "wk_queue (wl_worker l2) = []" by simp
    ultimately show ?thesis using converse_rtranclp_into_rtranclp [OF t l2(1)] l2(2-4) by blast
  qed
  then obtain l2 qs where l2: "(thread_step dbg co)\<^sup>*\<^sup>* l1 l2" "wl_local l2 = []" "wk_queue (wl_worker l2) = []" "\<not> wl_done l2" "wl_accepted l2 = wl_accepted l"
      "wl_worker l2 = (wl_worker l)\<lparr>wk_queue := [], wk_posted := qs\<rparr>" by blast
  have "cache_unused (wl_worker l2)" using unused by (simp add: l2(6) cache_unused_def)
  then obtain wk' d' where r: "reset_resources dbg (wl_worker l2, wl_device l2) = Some (wk', d')" using reset_returns by blast
  let ?l3 = "l2\<lparr>wl_worker := wk', wl_device := d', wl_done := True\<rparr>"
  have "thread_step dbg co l2 ?l3" by (rule thread_step.exit [OF l2(4,2,3) _ r]) (use st l2(6) in simp)
  then have "(thread_step dbg co)\<^sup>*\<^sup>* l ?l3" using l1(1) l2(1) by (meson rtranclp.rtrancl_into_rtrancl rtranclp_trans)
  moreover have "wk_queue (wl_worker ?l3) = []" "wl_local ?l3 = []" using reset_posted [OF r] l2 by simp_all
  ultimately show ?thesis using l2(5) by (intro exI [of _ ?l3]) simp
qed


definition model_batch :: ScheduledBatch where
  "model_batch = \<lparr>sb_batch_id = 0, sb_items = flying run_e6, sb_sampling = default_sampling\<rparr>"

text \<open>A worker that accepts two batches and is then stopped.\<close>

definition model_loop :: Work_Loop where
  "model_loop = (let wk = snd (enqueue_execute_batch model_batch 4 (snd (enqueue_execute_batch model_batch 3 model_worker))) in
     \<lparr>wl_local = [], wl_worker = wk\<lparr>wk_running := False\<rparr>, wl_device = model_device, wl_done = False, wl_accepted = [3, 4]\<rparr>)"

lemma model_loop_run: "(loop_step True model_ccop)\<^sup>*\<^sup>* (loop_start model_worker model_device) model_loop"
proof -
  let ?l0 = "loop_start model_worker model_device"
  let ?wk1 = "snd (enqueue_execute_batch model_batch 3 model_worker)" and ?wk2 = "snd (enqueue_execute_batch model_batch 4 (snd (enqueue_execute_batch model_batch 3 model_worker)))"
  let ?l1 = "?l0\<lparr>wl_worker := ?wk1, wl_accepted := wl_accepted ?l0 @ [3]\<rparr>"
  let ?l2 = "?l1\<lparr>wl_worker := ?wk2, wl_accepted := wl_accepted ?l1 @ [4]\<rparr>"
  have r: "wk_running model_worker" by (simp add: model_worker_def)
  have s1: "client_step ?l0 ?l1" by (rule client_step.enqueue [of model_batch 3 _ 3]) (simp add: loop_start_def enqueue_execute_batch_def r)
  have s2: "client_step ?l1 ?l2" by (rule client_step.enqueue [of model_batch 4 _ 4]) (simp add: enqueue_execute_batch_def r)
  have s3: "client_step ?l2 model_loop"
    using client_step.stop [of ?l2] by (simp add: model_loop_def loop_start_def Let_def)
  note c = converse_rtranclp_into_rtranclp [where r = "loop_step True model_ccop"]
  show ?thesis by (rule c [OF disjI2 [OF s1] c [OF disjI2 [OF s2] c [OF disjI2 [OF s3] rtranclp.rtrancl_refl]]])
qed

lemma model_loop_facts:
  "wk_posted model_worker = []" "wk_queue model_worker = []" "\<not> wk_running (wl_worker model_loop)" "\<not> wl_done model_loop"
  "cache_unused (wl_worker model_loop)" "wl_accepted model_loop = [3, 4]" "wk_posted (wl_worker model_loop) = []"
  by (simp_all add: model_loop_def Let_def enqueue_execute_batch_def model_worker_def worker_new_def cache_unused_def)


theorem worker_fifo_witness:
  "\<exists>rest. wl_accepted model_loop = map fst (wk_posted (wl_worker model_loop)) @ rest \<and> length rest = 2"
  using worker_fifo [OF model_loop_facts(1,2) model_loop_run] model_loop_facts(6,7) by auto

end
