(* ===== verification/Gguf_Reader.thy ===== *)
theory Gguf_Reader
  imports Tensors Float_Bits
begin

unbundle bit_operations_syntax

text \<open>
  The GGUF container reader, \<^verbatim>\<open>src/src/checkpoint/gguf/reader.{h,cpp}\<close>. The mapped file is a list of
  bytes and \<^verbatim>\<open>offset\<close> the state of the reading actions, a 64-bit word that wraps. Values are stored
  little-endian and copied with \<^verbatim>\<open>memcpy\<close>, as on the x86-64 hosts the code is built for. What the process
  can give is a parameter: \<open>lim_stack\<close> nested calls of \<^verbatim>\<open>parse_value\<close> and vectors of \<open>lim_reserve\<close>
  elements; beyond them the process dies (stack overflow, an exception nobody catches), the value
  \<^term>\<open>None\<close>, as for a read outside the file.
\<close>

type_synonym byte = "8 word"
type_synonym u32 = "32 word"
type_synonym u64 = "64 word"

record Limits =
  lim_stack :: nat
  lim_reserve :: nat

section \<open>Data\<close>

datatype GGUFValueType =
    VT_U8 | VT_I8 | VT_U16 | VT_I16 | VT_U32 | VT_I32 | VT_F32 | VT_Bool | VT_String | VT_Array
  | VT_U64 | VT_I64 | VT_F64 | VT_Unnamed u32

text \<open>\<^verbatim>\<open>static_cast<GGUFValueType>\<close>: the underlying type is fixed, so every 32-bit number is a value.\<close>

definition value_type_names :: "GGUFValueType list" where
  "value_type_names = [VT_U8, VT_I8, VT_U16, VT_I16, VT_U32, VT_I32, VT_F32, VT_Bool, VT_String, VT_Array,
     VT_U64, VT_I64, VT_F64]"

definition value_type_of :: "u32 \<Rightarrow> GGUFValueType" where
  "value_type_of w = (if unat w < 13 then value_type_names ! unat w else VT_Unnamed w)"

fun value_type_code :: "GGUFValueType \<Rightarrow> u32" where
  "value_type_code VT_U8 = 0"
| "value_type_code VT_I8 = 1"
| "value_type_code VT_U16 = 2"
| "value_type_code VT_I16 = 3"
| "value_type_code VT_U32 = 4"
| "value_type_code VT_I32 = 5"
| "value_type_code VT_F32 = 6"
| "value_type_code VT_Bool = 7"
| "value_type_code VT_String = 8"
| "value_type_code VT_Array = 9"
| "value_type_code VT_U64 = 10"
| "value_type_code VT_I64 = 11"
| "value_type_code VT_F64 = 12"
| "value_type_code (VT_Unnamed w) = w"

datatype GGUFTensorType =
    TT_F32 | TT_F16 | TT_Q4_0 | TT_Q4_1 | TT_Q5_0 | TT_Q5_1 | TT_Q8_0 | TT_Q8_1 | TT_Q2_K | TT_Q3_K
  | TT_Q4_K | TT_Q5_K | TT_Q6_K | TT_Q8_K | TT_IQ2_XXS | TT_IQ2_XS | TT_IQ3_XXS | TT_IQ1_S
  | TT_IQ4_NL | TT_IQ3_S | TT_IQ2_S | TT_IQ4_XS | TT_I8 | TT_I16 | TT_I32 | TT_I64 | TT_F64
  | TT_IQ1_M | TT_BF16 | TT_Unnamed u32

definition tensor_type_names :: "GGUFTensorType list" where
  "tensor_type_names = [TT_F32, TT_F16, TT_Q4_0, TT_Q4_1, TT_Unnamed 4, TT_Unnamed 5, TT_Q5_0, TT_Q5_1,
     TT_Q8_0, TT_Q8_1, TT_Q2_K, TT_Q3_K, TT_Q4_K, TT_Q5_K, TT_Q6_K, TT_Q8_K, TT_IQ2_XXS, TT_IQ2_XS,
     TT_IQ3_XXS, TT_IQ1_S, TT_IQ4_NL, TT_IQ3_S, TT_IQ2_S, TT_IQ4_XS, TT_I8, TT_I16, TT_I32, TT_I64,
     TT_F64, TT_IQ1_M, TT_BF16]"

definition tensor_type_of :: "u32 \<Rightarrow> GGUFTensorType" where
  "tensor_type_of w = (if unat w < 31 then tensor_type_names ! unat w else TT_Unnamed w)"

text \<open>The alternatives of the variant; integers of either sign and floats are their bit patterns.\<close>

datatype GGUFMetadataValue = GGUFMetadataValue (gv_type: GGUFValueType) (gv_value: GGUFVariant)
  and GGUFVariant =
    V_Monostate
  | V_U8 byte | V_I8 byte | V_U16 "16 word" | V_I16 "16 word" | V_U32 u32 | V_I32 u32 | V_U64 u64 | V_I64 u64
  | V_F32 f32 | V_F64 u64 | V_Bool bool | V_String string | V_Array "GGUFMetadataValue list"

record GGUFTensorInfo =
  ti_name :: string
  ti_dims :: "int list"
  ti_type :: GGUFTensorType
  ti_offset :: u64

record GGUFReader =
  rd_data :: "byte list"
  rd_data_start :: u64
  rd_version :: u32
  rd_metadata :: "(string \<times> GGUFMetadataValue) list"
  rd_tensor_infos :: "GGUFTensorInfo list"

section \<open>Reading scalars and strings\<close>

definition file_size :: "byte list \<Rightarrow> u64" where
  "file_size data = of_nat (length data)"

definition require_bytes :: "u64 \<Rightarrow> u64 \<Rightarrow> u64 \<Rightarrow> unit result" where
  "require_bytes n offset needed =
     (if offset > n \<or> needed > n - offset then Inl ModelLoadFailed else Inr ())"

fun le_value :: "byte list \<Rightarrow> nat" where
  "le_value [] = 0"
| "le_value (b # bs) = unat b + 256 * le_value bs"

text \<open>The bytes at a pointer into the file; reading outside of it is undefined.\<close>

definition bytes_at :: "byte list \<Rightarrow> u64 \<Rightarrow> nat \<Rightarrow> byte list option" where
  "bytes_at data offset n = (if unat offset + n \<le> length data then Some (take n (drop (unat offset) data)) else None)"

definition take_bytes :: "byte list \<Rightarrow> u64 \<Rightarrow> (u64, byte list) act" where
  "take_bytes data n offset = (case require_bytes (file_size data) offset n of
     Inl e \<Rightarrow> Some (Inl e, offset)
   | Inr _ \<Rightarrow> map_option (\<lambda>bs. (Inr bs, offset + n)) (bytes_at data offset (unat n)))"

definition read_raw :: "nat \<Rightarrow> byte list \<Rightarrow> (u64, nat) act" where
  "read_raw n data = and_then (take_bytes data (of_nat n)) (\<lambda>bs. ret (le_value bs))"

definition read_u8 :: "byte list \<Rightarrow> (u64, byte) act" where
  "read_u8 data = and_then (read_raw 1 data) (\<lambda>v. ret (of_nat v))"

definition read_u16 :: "byte list \<Rightarrow> (u64, 16 word) act" where
  "read_u16 data = and_then (read_raw 2 data) (\<lambda>v. ret (of_nat v))"

definition read_u32 :: "byte list \<Rightarrow> (u64, u32) act" where
  "read_u32 data = and_then (read_raw 4 data) (\<lambda>v. ret (of_nat v))"

definition read_u64 :: "byte list \<Rightarrow> (u64, u64) act" where
  "read_u64 data = and_then (read_raw 8 data) (\<lambda>v. ret (of_nat v))"

text \<open>The signed and floating-point readers copy the same bytes into an object of the other type.\<close>

abbreviation read_i8 :: "byte list \<Rightarrow> (u64, byte) act" where
  "read_i8 \<equiv> read_u8"

abbreviation read_i16 :: "byte list \<Rightarrow> (u64, 16 word) act" where
  "read_i16 \<equiv> read_u16"

abbreviation read_i32 :: "byte list \<Rightarrow> (u64, u32) act" where
  "read_i32 \<equiv> read_u32"

abbreviation read_i64 :: "byte list \<Rightarrow> (u64, u64) act" where
  "read_i64 \<equiv> read_u64"

abbreviation read_f32 :: "byte list \<Rightarrow> (u64, f32) act" where
  "read_f32 \<equiv> read_u32"

abbreviation read_f64 :: "byte list \<Rightarrow> (u64, u64) act" where
  "read_f64 \<equiv> read_u64"

definition read_bool :: "byte list \<Rightarrow> (u64, bool) act" where
  "read_bool data = and_then (read_u8 data) (\<lambda>v. ret (v \<noteq> 0))"

definition string_of_bytes :: "byte list \<Rightarrow> string" where
  "string_of_bytes = map (\<lambda>b. char_of (unat b))"

text \<open>The test \<^verbatim>\<open>*len_r > max(size_t)\<close> is never true: both are 64 bits wide.\<close>

definition read_string :: "byte list \<Rightarrow> (u64, string) act" where
  "read_string data = and_then (read_u64 data) (\<lambda>len.
     and_then (take_bytes data len) (\<lambda>bs. ret (string_of_bytes bs)))"

section \<open>Metadata values\<close>

fun supported_tensor_type :: "GGUFTensorType \<Rightarrow> bool" where
  "supported_tensor_type TT_F32 = True"
| "supported_tensor_type TT_F16 = True"
| "supported_tensor_type TT_Q8_0 = True"
| "supported_tensor_type TT_BF16 = True"
| "supported_tensor_type _ = False"

text \<open>The loops \<^verbatim>\<open>for (i = 0; i < n; ++i) { ...; values.push_back(...); }\<close>.\<close>

fun repeat_act :: "nat \<Rightarrow> ('s, 'a) act \<Rightarrow> ('s, 'a list) act" where
  "repeat_act 0 m = ret []"
| "repeat_act (Suc n) m = and_then m (\<lambda>x. and_then (repeat_act n m) (\<lambda>xs. ret (x # xs)))"

definition reserve :: "Limits \<Rightarrow> u64 \<Rightarrow> ('s, unit) act" where
  "reserve lim n = check (require (unat n \<le> lim_reserve lim))"

fun parse_value :: "Limits \<Rightarrow> nat \<Rightarrow> byte list \<Rightarrow> GGUFValueType \<Rightarrow> (u64, GGUFMetadataValue) act" where
  "parse_value lim 0 data type = (\<lambda>_. None)"
| "parse_value lim (Suc stack) data type = (case type of
     VT_U8 \<Rightarrow> and_then (read_u8 data) (\<lambda>v. ret (GGUFMetadataValue type (V_U8 v)))
   | VT_I8 \<Rightarrow> and_then (read_i8 data) (\<lambda>v. ret (GGUFMetadataValue type (V_I8 v)))
   | VT_U16 \<Rightarrow> and_then (read_u16 data) (\<lambda>v. ret (GGUFMetadataValue type (V_U16 v)))
   | VT_I16 \<Rightarrow> and_then (read_i16 data) (\<lambda>v. ret (GGUFMetadataValue type (V_I16 v)))
   | VT_U32 \<Rightarrow> and_then (read_u32 data) (\<lambda>v. ret (GGUFMetadataValue type (V_U32 v)))
   | VT_I32 \<Rightarrow> and_then (read_i32 data) (\<lambda>v. ret (GGUFMetadataValue type (V_I32 v)))
   | VT_U64 \<Rightarrow> and_then (read_u64 data) (\<lambda>v. ret (GGUFMetadataValue type (V_U64 v)))
   | VT_I64 \<Rightarrow> and_then (read_i64 data) (\<lambda>v. ret (GGUFMetadataValue type (V_I64 v)))
   | VT_F32 \<Rightarrow> and_then (read_f32 data) (\<lambda>v. ret (GGUFMetadataValue type (V_F32 v)))
   | VT_F64 \<Rightarrow> and_then (read_f64 data) (\<lambda>v. ret (GGUFMetadataValue type (V_F64 v)))
   | VT_Bool \<Rightarrow> and_then (read_bool data) (\<lambda>v. ret (GGUFMetadataValue type (V_Bool v)))
   | VT_String \<Rightarrow> and_then (read_string data) (\<lambda>s. ret (GGUFMetadataValue type (V_String s)))
   | VT_Array \<Rightarrow> and_then (read_u32 data) (\<lambda>elem_type. and_then (read_u64 data) (\<lambda>cnt.
       and_then (reserve lim cnt) (\<lambda>_.
       and_then (repeat_act (unat cnt) (parse_value lim stack data (value_type_of elem_type))) (\<lambda>values.
       ret (GGUFMetadataValue type (V_Array values))))))
   | VT_Unnamed _ \<Rightarrow> fail ModelLoadFailed)"

section \<open>The file\<close>

definition read_metadata :: "Limits \<Rightarrow> byte list \<Rightarrow> (u64, string \<times> GGUFMetadataValue) act" where
  "read_metadata lim data = and_then (read_string data) (\<lambda>key. and_then (read_u32 data) (\<lambda>t.
     let type = value_type_of t in
     if value_type_code type > value_type_code VT_F64 then fail ModelLoadFailed
     else and_then (parse_value lim (lim_stack lim) data type) (\<lambda>v. ret (key, v))))"

definition read_dim :: "byte list \<Rightarrow> (u64, int) act" where
  "read_dim data = and_then (read_u64 data) (\<lambda>d. ret (sint d))"

definition read_tensor_info :: "byte list \<Rightarrow> (u64, GGUFTensorInfo) act" where
  "read_tensor_info data = and_then (read_string data) (\<lambda>name. and_then (read_u32 data) (\<lambda>n_dims.
     if n_dims = 0 \<or> n_dims > 8 then fail ModelLoadFailed
     else and_then (repeat_act (unat n_dims) (read_dim data)) (\<lambda>dims. and_then (read_u32 data) (\<lambda>t.
       if t > 30 then fail ModelUnsupportedDType
       else let type = tensor_type_of t in
         if \<not> supported_tensor_type type then fail ModelUnsupportedDType
         else and_then (read_u64 data) (\<lambda>offset.
           ret \<lparr>ti_name = name, ti_dims = dims, ti_type = type, ti_offset = offset\<rparr>)))))"

definition kMagic :: "byte list" where
  "kMagic = [0x47, 0x47, 0x55, 0x46]"

definition align32 :: "u64 \<Rightarrow> u64" where
  "align32 offset = (offset + 31) AND NOT 31"

definition parse_body :: "Limits \<Rightarrow> byte list \<Rightarrow> u32 \<Rightarrow> (u64, GGUFReader) act" where
  "parse_body lim data version = and_then (read_u64 data) (\<lambda>n_tensors. and_then (read_u64 data) (\<lambda>n_metadata.
     and_then (reserve lim n_metadata) (\<lambda>_. and_then (repeat_act (unat n_metadata) (read_metadata lim data)) (\<lambda>metadata.
     and_then (reserve lim n_tensors) (\<lambda>_. and_then (repeat_act (unat n_tensors) (read_tensor_info data)) (\<lambda>infos.
     \<lambda>offset. let start = align32 offset in
       if start > file_size data then Some (Inl ModelLoadFailed, offset)
       else Some (Inr \<lparr>rd_data = data, rd_data_start = start, rd_version = version, rd_metadata = metadata,
         rd_tensor_infos = infos\<rparr>, offset)))))))"

definition gguf_parse :: "Limits \<Rightarrow> byte list \<Rightarrow> GGUFReader result option" where
  "gguf_parse lim data =
     (if file_size data < 4 + 4 + 8 + 8 then Some (Inl ModelLoadFailed)
      else do {
        magic \<leftarrow> bytes_at data 0 4;
        if magic \<noteq> kMagic then Some (Inl ModelLoadFailed)
        else do {
          raw \<leftarrow> bytes_at data 4 4;
          let version = of_nat (le_value raw);
          if version \<noteq> 3 then Some (Inl ModelLoadFailed)
          else map_option fst (parse_body lim data version 8)
        }
      })"

text \<open>
  The system calls of \<^verbatim>\<open>GGUFReader::create\<close> are a parameter: a file descriptor or a negative number,
  the size reported by \<^verbatim>\<open>fstat\<close>, the bytes a mapping of that size shows.
\<close>

record Posix =
  px_open :: "string \<Rightarrow> int"
  px_fstat :: "int \<Rightarrow> int option"
  px_mmap :: "int \<Rightarrow> int \<Rightarrow> byte list option"

definition gguf_create :: "Limits \<Rightarrow> Posix \<Rightarrow> string \<Rightarrow> GGUFReader result option" where
  "gguf_create lim px path = (let fd = px_open px path in
     if fd < 0 then Some (Inl ModelLoadFailed)
     else case px_fstat px fd of
       None \<Rightarrow> Some (Inl ModelLoadFailed)
     | Some st_size \<Rightarrow> if st_size \<le> 0 then Some (Inl ModelLoadFailed)
         else case px_mmap px fd st_size of
           None \<Rightarrow> Some (Inl ModelLoadFailed)
         | Some mapped \<Rightarrow> gguf_parse lim mapped)"

section \<open>Queries\<close>

definition as_string :: "GGUFMetadataValue \<Rightarrow> string option" where
  "as_string v = (case gv_value v of V_String s \<Rightarrow> Some s | _ \<Rightarrow> None)"

definition as_u64 :: "GGUFMetadataValue \<Rightarrow> u64 option" where
  "as_u64 v = (case gv_value v of
     V_U64 w \<Rightarrow> Some w | V_U32 w \<Rightarrow> Some (ucast w) | V_U16 w \<Rightarrow> Some (ucast w) | V_U8 w \<Rightarrow> Some (ucast w) | _ \<Rightarrow> None)"

definition as_i64 :: "GGUFMetadataValue \<Rightarrow> u64 option" where
  "as_i64 v = (case gv_value v of
     V_I64 w \<Rightarrow> Some w | V_I32 w \<Rightarrow> Some (scast w) | V_I16 w \<Rightarrow> Some (scast w) | V_I8 w \<Rightarrow> Some (scast w)
   | _ \<Rightarrow> as_u64 v)"

definition as_array :: "GGUFMetadataValue \<Rightarrow> GGUFMetadataValue list option" where
  "as_array v = (case gv_value v of V_Array vs \<Rightarrow> Some vs | _ \<Rightarrow> None)"

text \<open>The conversion from \<^verbatim>\<open>double\<close> to \<^verbatim>\<open>float\<close> is the parameter \<open>narrow\<close>.\<close>

definition as_f32 :: "(u64 \<Rightarrow> f32) \<Rightarrow> GGUFMetadataValue \<Rightarrow> f32 option" where
  "as_f32 narrow v = (case gv_value v of V_F32 w \<Rightarrow> Some w | V_F64 w \<Rightarrow> Some (narrow w) | _ \<Rightarrow> None)"

fun find_metadata :: "(string \<times> GGUFMetadataValue) list \<Rightarrow> string \<Rightarrow> GGUFMetadataValue option" where
  "find_metadata [] key = None"
| "find_metadata ((k, v) # kvs) key = (if k = key then Some v else find_metadata kvs key)"

definition metadata :: "GGUFReader \<Rightarrow> string \<Rightarrow> GGUFMetadataValue option" where
  "metadata rd key = find_metadata (rd_metadata rd) key"

fun find_info :: "GGUFTensorInfo list \<Rightarrow> string \<Rightarrow> GGUFTensorInfo option" where
  "find_info [] name = None"
| "find_info (info # infos) name = (if ti_name info = name then Some info else find_info infos name)"

definition find_tensor :: "GGUFReader \<Rightarrow> string \<Rightarrow> GGUFTensorInfo option" where
  "find_tensor rd name = find_info (rd_tensor_infos rd) name"

definition INT64_MAX :: int where
  "INT64_MAX = 2 ^ 63 - 1"

fun tensor_numel_loop :: "int list \<Rightarrow> int \<Rightarrow> int" where
  "tensor_numel_loop [] n = n"
| "tensor_numel_loop (dim # dims) n =
     (if dim \<le> 0 then 0 else if n > INT64_MAX div dim then 0 else tensor_numel_loop dims (n * dim))"

definition tensor_numel :: "GGUFTensorInfo \<Rightarrow> int" where
  "tensor_numel info = (if ti_dims info = [] then 0 else tensor_numel_loop (ti_dims info) 1)"

definition dense_bytes :: "GGUFTensorInfo \<Rightarrow> u64 \<Rightarrow> u64 result" where
  "dense_bytes info elem_size = (let n = tensor_numel info in
     if n \<le> 0 then Inl ModelShapeMismatch else Inr (of_int n * elem_size))"

definition tensor_bytes :: "Ccop \<Rightarrow> GGUFTensorInfo \<Rightarrow> u64 result" where
  "tensor_bytes co info = (case ti_type info of
     TT_F32 \<Rightarrow> dense_bytes info 4
   | TT_F16 \<Rightarrow> dense_bytes info 2
   | TT_BF16 \<Rightarrow> dense_bytes info 2
   | TT_Q8_0 \<Rightarrow> (case co_q8_0_storage_bytes co (rev (ti_dims info)) of
       None \<Rightarrow> Inl ModelShapeMismatch
     | Some bytes \<Rightarrow> Inr (of_int bytes))
   | _ \<Rightarrow> Inl Unsupported)"

text \<open>The span returned by \<^verbatim>\<open>raw_tensor_data\<close>: where it starts in the file, and its length.\<close>

definition raw_tensor_data :: "Ccop \<Rightarrow> GGUFReader \<Rightarrow> GGUFTensorInfo \<Rightarrow> (u64 \<times> u64) result" where
  "raw_tensor_data co rd info = (case tensor_bytes co info of
     Inl e \<Rightarrow> Inl e
   | Inr bytes \<Rightarrow> let data_offset = rd_data_start rd + ti_offset info; size = file_size (rd_data rd) in
       if data_offset > size \<or> bytes > size - data_offset then Inl ModelLoadFailed
       else Inr (data_offset, bytes))"

fun starts_with :: "string \<Rightarrow> string \<Rightarrow> bool" where
  "starts_with [] s = True"
| "starts_with (p # ps) [] = False"
| "starts_with (p # ps) (c # cs) = (p = c \<and> starts_with ps cs)"

fun find_substring :: "string \<Rightarrow> string \<Rightarrow> bool" where
  "find_substring pat [] = starts_with pat []"
| "find_substring pat (c # cs) = (starts_with pat (c # cs) \<or> find_substring pat cs)"

definition has_nextn_tensors :: "GGUFReader \<Rightarrow> bool" where
  "has_nextn_tensors rd = list_ex (\<lambda>info. find_substring ''.nextn.'' (ti_name info) \<or> find_substring ''nextn_'' (ti_name info))
     (rd_tensor_infos rd)"

end
