(* ===== verification/Gguf_Safety.thy ===== *)
theory Gguf_Safety
  imports Gguf_Reader
begin

unbundle bit_operations_syntax

text \<open>
  Reading never leaves the file: every action of the GGUF reader moves its offset forward inside the
  file, the parser returns on every byte sequence, and the spans handed out for tensors lie in the file.
\<close>

section \<open>Scanning actions\<close>

text \<open>
  \<open>scans data k m Q\<close>: from every offset of the file that is at least \<open>k\<close>, \<open>m\<close> returns, at an offset
  of the file that is not smaller, and a result satisfies \<open>Q\<close>.
\<close>

definition scans :: "byte list \<Rightarrow> nat \<Rightarrow> (u64, 'a) act \<Rightarrow> ('a \<Rightarrow> bool) \<Rightarrow> bool" where
  "scans data k m Q \<longleftrightarrow> (\<forall>off. k \<le> unat off \<longrightarrow> unat off \<le> length data \<longrightarrow>
     runs m off (\<lambda>r off'. unat off \<le> unat off' \<and> unat off' \<le> length data \<and> (\<forall>x. r = Inr x \<longrightarrow> Q x)))"

lemma scansI:
  assumes "\<And>off. k \<le> unat off \<Longrightarrow> unat off \<le> length data \<Longrightarrow>
    runs m off (\<lambda>r off'. unat off \<le> unat off' \<and> unat off' \<le> length data \<and> (\<forall>x. r = Inr x \<longrightarrow> Q x))"
  shows "scans data k m Q"
  using assms by (simp add: scans_def)

lemma scans_mono:
  assumes "scans data k m P" "k \<le> k'" "\<And>x. P x \<Longrightarrow> Q x"
  shows "scans data k' m Q"
proof (rule scansI)
  fix off :: u64
  assume "k' \<le> unat off" "unat off \<le> length data"
  with assms(1,2) have "runs m off (\<lambda>r off'. unat off \<le> unat off' \<and> unat off' \<le> length data \<and> (\<forall>x. r = Inr x \<longrightarrow> P x))"
    by (simp add: scans_def)
  then show "runs m off (\<lambda>r off'. unat off \<le> unat off' \<and> unat off' \<le> length data \<and> (\<forall>x. r = Inr x \<longrightarrow> Q x))"
    by (rule runs_mono) (use assms(3) in auto)
qed

lemma scans_ret [simp]: "Q x \<Longrightarrow> scans data k (ret x) Q"
  by (simp add: scans_def)

lemma scans_fail [simp]: "scans data k (fail e) Q"
  by (simp add: scans_def)

lemma scans_and_then:
  assumes "scans data k m P" "\<And>x. P x \<Longrightarrow> scans data k (f x) Q"
  shows "scans data k (and_then m f) Q"
proof (rule scansI)
  fix off :: u64
  assume off: "k \<le> unat off" "unat off \<le> length data"
  have 1: "runs m off (\<lambda>r off'. unat off \<le> unat off' \<and> unat off' \<le> length data \<and> (\<forall>x. r = Inr x \<longrightarrow> P x))"
    using assms(1) off by (simp add: scans_def)
  show "runs (and_then m f) off (\<lambda>r off'. unat off \<le> unat off' \<and> unat off' \<le> length data \<and> (\<forall>x. r = Inr x \<longrightarrow> Q x))"
  proof (rule runs_and_thenI [OF 1])
    fix x and t :: u64
    assume t: "unat off \<le> unat t \<and> unat t \<le> length data \<and> (\<forall>y. Inr x = Inr y \<longrightarrow> P y)"
    then have "runs (f x) t (\<lambda>r off'. unat t \<le> unat off' \<and> unat off' \<le> length data \<and> (\<forall>x. r = Inr x \<longrightarrow> Q x))"
      using assms(2) [of x] off by (simp add: scans_def)
    then show "runs (f x) t (\<lambda>r off'. unat off \<le> unat off' \<and> unat off' \<le> length data \<and> (\<forall>x. r = Inr x \<longrightarrow> Q x))"
      by (rule runs_mono) (use t in auto)
  qed auto
qed

lemma scans_repeat: "scans data k m Q \<Longrightarrow> scans data k (repeat_act n m) (\<lambda>xs. length xs = n \<and> list_all Q xs)"
  by (induction n) (auto intro!: scans_and_then)

lemma unat_file_size: "length data < 2 ^ 64 \<Longrightarrow> unat (file_size data) = length data"
  by (simp add: file_size_def unat_of_nat)

lemma take_bytes_in_file:
  assumes "length data < 2 ^ 64"
  shows "take_bytes data n off = (if unat off + unat n \<le> length data
    then Some (Inr (take (unat n) (drop (unat off) data)), off + n) else Some (Inl ModelLoadFailed, off))"
proof (cases "unat off \<le> length data")
  case True
  then have le: "off \<le> file_size data"
    by (simp add: word_le_nat_alt unat_file_size [OF assms])
  then have "unat (file_size data - off) = length data - unat off"
    by (simp add: unat_sub unat_file_size [OF assms])
  then have "n > file_size data - off \<longleftrightarrow> length data < unat off + unat n"
    using True by (simp add: word_less_nat_alt less_diff_conv) linarith
  with le show ?thesis
    by (auto simp: take_bytes_def require_bytes_def bytes_at_def)
next
  case False
  then show ?thesis
    by (simp add: take_bytes_def require_bytes_def word_less_nat_alt unat_file_size [OF assms])
qed

lemma unat_plus_file:
  assumes "length data < 2 ^ 64" "unat off + unat n \<le> length data"
  shows "unat (off + n :: u64) = unat off + unat n"
  using assms by (subst unat_plus_simple [THEN iffD1]) (auto simp: word_le_nat_alt unat_word_ariths)

lemma scans_take_bytes: "length data < 2 ^ 64 \<Longrightarrow> scans data k (take_bytes data n) (\<lambda>bs. length bs = unat n)"
  by (rule scansI) (auto simp: runs_def take_bytes_in_file unat_plus_file)

lemma scans_read_raw: "length data < 2 ^ 64 \<Longrightarrow> scans data k (read_raw n data) (\<lambda>_. True)"
  unfolding read_raw_def by (rule scans_and_then [OF scans_take_bytes]) simp_all

lemma scans_word:
  assumes "length data < 2 ^ 64"
  shows "scans data k (and_then (read_raw n data) (\<lambda>v. ret (f v))) (\<lambda>_. True)"
  by (rule scans_and_then [OF scans_read_raw [OF assms]]) simp

lemma scans_reads:
  assumes "length data < 2 ^ 64"
  shows "scans data k (read_u8 data) (\<lambda>_. True)" "scans data k (read_u16 data) (\<lambda>_. True)"
    "scans data k (read_u32 data) (\<lambda>_. True)" "scans data k (read_u64 data) (\<lambda>_. True)"
  unfolding read_u8_def read_u16_def read_u32_def read_u64_def by (rule scans_word [OF assms])+

lemma scans_read_bool: "length data < 2 ^ 64 \<Longrightarrow> scans data k (read_bool data) (\<lambda>_. True)"
  unfolding read_bool_def by (rule scans_and_then [OF scans_reads(1)]) simp_all

lemma scans_read_dim: "length data < 2 ^ 64 \<Longrightarrow> scans data k (read_dim data) (\<lambda>_. True)"
  unfolding read_dim_def by (rule scans_and_then [OF scans_reads(4)]) simp_all

lemma scans_read_string: "length data < 2 ^ 64 \<Longrightarrow> scans data k (read_string data) (\<lambda>_. True)"
  unfolding read_string_def
  by (rule scans_and_then [OF scans_reads(4)], assumption, rule scans_and_then [OF scans_take_bytes]) simp_all

section \<open>Metadata values\<close>

text \<open>\<open>reads n m\<close>: \<open>m\<close> fails without moving, or moves by exactly \<open>n\<close> bytes.\<close>

lemma runs_read_raw:
  assumes "length data < 2 ^ 64" "n < 2 ^ 64" "unat off \<le> length data"
  shows "runs (read_raw n data) off (\<lambda>r off'. unat off \<le> unat off' \<and> unat off' \<le> length data \<and> (\<forall>x. r = Inr x \<longrightarrow> unat off' = unat off + n))"
  using assms by (auto simp: read_raw_def runs_def and_then_def ret_def take_bytes_in_file unat_of_nat unat_plus_file)

text \<open>After a read of \<open>n\<close> bytes, an action that needs the offset to be \<open>n\<close> bytes further may follow.\<close>

lemma scans_word_then:
  fixes f :: "'a \<Rightarrow> (u64, 'b) act"
  assumes "length data < 2 ^ 64" "n < 2 ^ 64" "\<And>v. scans data (k + n) (f v) Q"
  shows "scans data k (and_then (and_then (read_raw n data) (\<lambda>v. ret (g v))) f) Q"
proof (rule scansI)
  fix off :: u64
  assume off: "k \<le> unat off" "unat off \<le> length data"
  have 1: "runs (and_then (read_raw n data) (\<lambda>v. ret (g v))) off
    (\<lambda>r off'. unat off \<le> unat off' \<and> unat off' \<le> length data \<and> (\<forall>x. r = Inr x \<longrightarrow> unat off' = unat off + n))"
    by (rule runs_and_thenI [OF runs_read_raw [OF assms(1,2) off(2)]]) auto
  show "runs (and_then (and_then (read_raw n data) (\<lambda>v. ret (g v))) f) off
    (\<lambda>r off'. unat off \<le> unat off' \<and> unat off' \<le> length data \<and> (\<forall>x. r = Inr x \<longrightarrow> Q x))"
  proof (rule runs_and_thenI [OF 1])
    fix x :: 'a and t :: u64
    assume t: "unat off \<le> unat t \<and> unat t \<le> length data \<and> (\<forall>y. Inr x = Inr y \<longrightarrow> unat t = unat off + n)"
    then have "k + n \<le> unat t" "unat t \<le> length data" using off by auto
    then have "runs (f x) t (\<lambda>r off'. unat t \<le> unat off' \<and> unat off' \<le> length data \<and> (\<forall>x. r = Inr x \<longrightarrow> Q x))"
      using assms(3) [of x] by (simp add: scans_def)
    then show "runs (f x) t (\<lambda>r off'. unat off \<le> unat off' \<and> unat off' \<le> length data \<and> (\<forall>x. r = Inr x \<longrightarrow> Q x))"
      by (rule runs_mono) (use t in auto)
  qed auto
qed

lemma scans_reserve: "2 ^ 64 \<le> Suc (lim_reserve lim) \<Longrightarrow> scans data k (reserve lim n) (\<lambda>_. True)"
  using unsigned_less [where 'a = nat and w = n] by (auto simp: scans_def reserve_def)

text \<open>
  A call with \<open>stack\<close> frames left returns when fewer than \<open>12 * stack\<close> bytes remain: a nested array takes
  twelve bytes for its element type and its length before the next call.
\<close>

lemma scans_parse_value:
  assumes data: "length data < 2 ^ 64" and lim: "2 ^ 64 \<le> Suc (lim_reserve lim)"
  shows "length data < k + 12 * stack \<Longrightarrow> scans data k (parse_value lim stack data type) (\<lambda>_. True)"
proof (induction stack arbitrary: k type)
  case 0
  then show ?case by (auto simp: scans_def)
next
  case (Suc stack)
  note reads = scans_reads [OF data] scans_read_bool [OF data] scans_read_string [OF data]
  have array: "scans data k (parse_value lim (Suc stack) data VT_Array) (\<lambda>_. True)"
  proof -
    have "scans data (k + 4 + 8) (parse_value lim stack data (value_type_of t)) (\<lambda>_. True)" for t
      using Suc.prems by (intro Suc.IH) simp
    then show ?thesis
      unfolding parse_value.simps GGUFValueType.case read_u32_def read_u64_def
      by (intro scans_word_then data scans_and_then [OF scans_reserve [OF lim]] scans_and_then [OF scans_repeat] scans_ret)
        simp_all
  qed
  show ?case
  proof (cases type)
    case VT_Array
    then show ?thesis using array by simp
  qed (auto intro!: scans_and_then [where P = "\<lambda>_. True"] reads)
qed

section \<open>The parser\<close>

lemma and_not_minus: "x AND NOT m = x - (x AND m)" for x m :: u64
proof -
  have "NOT x AND (x AND m) = 0" "x AND NOT (x AND m) = x AND NOT m"
    by (auto intro!: bit_eqI simp: bit_simps)
  then show ?thesis by (metis disjunctive_diff_eq_and_not)
qed

lemma align32_unat:
  assumes "unat off < 2 ^ 63"
  shows "unat (align32 off) = (unat off + 31) div 32 * 32"
proof -
  have sum: "unat (off + 31) = unat off + 31"
    using assms by (simp add: unat_word_ariths)
  have low: "(off + 31) AND 31 = take_bit 5 (off + 31)"
    by (simp add: take_bit_eq_mask mask_eq_exp_minus_1)
  have "unat (take_bit 5 (off + 31)) = (unat off + 31) mod 32"
    by (simp only: unsigned_take_bit_eq sum) (simp add: take_bit_eq_mod)
  moreover have "take_bit 5 (off + 31) \<le> off + 31"
    by (simp only: word_le_nat_alt unsigned_take_bit_eq) (simp add: take_bit_eq_mod)
  ultimately have "unat (align32 off) = unat off + 31 - (unat off + 31) mod 32"
    unfolding align32_def by (simp only: and_not_minus low unat_sub sum)
  then show ?thesis by (simp add: minus_mod_eq_div_mult)
qed

lemma nonzero_unat: "w \<noteq> 0 \<Longrightarrow> Suc 0 \<le> unat w"
  by (metis One_nat_def Suc_leI gr0I unat_eq_0)

definition info_ok :: "GGUFTensorInfo \<Rightarrow> bool" where
  "info_ok info \<longleftrightarrow> supported_tensor_type (ti_type info) \<and> 1 \<le> length (ti_dims info) \<and> length (ti_dims info) \<le> 8"

lemma scans_read_tensor_info:
  assumes "length data < 2 ^ 64"
  shows "scans data k (read_tensor_info data) info_ok"
  unfolding read_tensor_info_def Let_def
  by (auto simp: info_ok_def word_less_nat_alt nonzero_unat intro!: scans_and_then [OF scans_read_string [OF assms]]
      scans_and_then [OF scans_reads(3) [OF assms]] scans_and_then [OF scans_reads(4) [OF assms]]
      scans_and_then [OF scans_repeat [OF scans_read_dim [OF assms]]])

lemma scans_read_metadata:
  assumes "length data < 2 ^ 64" "2 ^ 64 \<le> Suc (lim_reserve lim)" "length data < 12 * lim_stack lim"
  shows "scans data k (read_metadata lim data) (\<lambda>_. True)"
  unfolding read_metadata_def Let_def
  by (auto intro!: scans_and_then [OF scans_read_string [OF assms(1)]] scans_and_then [OF scans_reads(3) [OF assms(1)]]
      scans_and_then [OF scans_parse_value [OF assms(1,2)]] assms(3) trans_less_add2)

definition reader_ok :: "GGUFReader \<Rightarrow> bool" where
  "reader_ok rd \<longleftrightarrow> rd_version rd = 3 \<and> 32 dvd unat (rd_data_start rd) \<and>
     unat (rd_data_start rd) \<le> length (rd_data rd) \<and> length (rd_data rd) < 2 ^ 63 \<and> list_all info_ok (rd_tensor_infos rd)"

lemma parse_body_ok:
  assumes "length data < 2 ^ 63" "2 ^ 64 \<le> Suc (lim_reserve lim)" "length data < 12 * lim_stack lim" "unat off \<le> length data"
  shows "runs (parse_body lim data 3) off (\<lambda>r _. \<forall>rd. r = Inr rd \<longrightarrow> reader_ok rd \<and> rd_data rd = data)"
proof -
  have data: "length data < 2 ^ 64" using assms(1) by simp
  note parts = scans_and_then [OF scans_reads(4) [OF data]] scans_and_then [OF scans_reserve [OF assms(2)]]
    scans_and_then [OF scans_repeat [OF scans_read_metadata [OF data assms(2,3)]]]
    scans_and_then [OF scans_repeat [OF scans_read_tensor_info [OF data]]]
  have last: "scans data 0 (\<lambda>off. let start = align32 off in
      if start > file_size data then Some (Inl ModelLoadFailed, off)
      else Some (Inr \<lparr>rd_data = data, rd_data_start = start, rd_version = 3, rd_metadata = md, rd_tensor_infos = infos\<rparr>, off))
    (\<lambda>rd. reader_ok rd \<and> rd_data rd = data)" if "list_all info_ok infos" for md infos
    using that assms(1) by (intro scansI)
      (auto simp: runs_def Let_def reader_ok_def align32_unat word_less_nat_alt unat_file_size [OF data])
  have "scans data 0 (parse_body lim data 3) (\<lambda>rd. reader_ok rd \<and> rd_data rd = data)"
    unfolding parse_body_def by (intro parts last) auto
  then have "runs (parse_body lim data 3) off (\<lambda>r off'. unat off \<le> unat off' \<and> unat off' \<le> length data \<and>
      (\<forall>rd. r = Inr rd \<longrightarrow> reader_ok rd \<and> rd_data rd = data))"
    using assms(4) by (simp add: scans_def)
  then show ?thesis by (rule runs_mono) auto
qed


definition small_file :: "byte list" where
  "small_file = kMagic @ [3, 0, 0, 0] @ replicate 24 0"

lemma small_file_reads:
  "file_size small_file = 32" "bytes_at small_file 0 4 = Some kMagic" "bytes_at small_file 4 4 = Some [3, 0, 0, 0]"
  "read_u64 small_file 8 = Some (Inr 0, 16)" "read_u64 small_file 16 = Some (Inr 0, 24)" "align32 24 = 32"
  "of_nat (le_value [3, 0, 0, 0]) = (3 :: u32)"
  by code_simp+

lemma small_file_parses:
  "gguf_parse lim small_file =
     Some (Inr \<lparr>rd_data = small_file, rd_data_start = 32, rd_version = 3, rd_metadata = [], rd_tensor_infos = []\<rparr>)"
  by (simp add: gguf_parse_def parse_body_def and_then_def reserve_def check_def ret_def Let_def small_file_reads)


section \<open>Tensor data\<close>

lemma tensor_numel_loop_pos:
  assumes "0 < tensor_numel_loop dims n" "0 < n" "n \<le> INT64_MAX"
  shows "tensor_numel_loop dims n = n * prod_list dims \<and> (\<forall>d \<in> set dims. 0 < d) \<and> n * prod_list dims \<le> INT64_MAX"
  using assms
proof (induction dims arbitrary: n)
  case (Cons d dims)
  have d: "0 < d" "n \<le> INT64_MAX div d"
    using Cons.prems(1) by (simp_all split: if_splits)
  have "n * d \<le> (INT64_MAX div d) * d"
    using d by (simp add: mult_right_mono)
  also have "\<dots> \<le> INT64_MAX"
    using d(1) by (simp add: minus_mod_eq_div_mult [symmetric])
  finally have le: "n * d \<le> INT64_MAX" .
  have "0 < tensor_numel_loop dims (n * d)"
    using Cons.prems(1) by (simp split: if_splits)
  from Cons.IH [OF this _ le] d Cons.prems(2) show ?case
    by (simp add: mult.assoc)
qed simp

lemma tensor_numel_pos:
  assumes "0 < tensor_numel info"
  shows "tensor_numel info = prod_list (ti_dims info)" "\<forall>d \<in> set (ti_dims info). 0 < d"
    "prod_list (ti_dims info) \<le> INT64_MAX"
  using tensor_numel_loop_pos [of "ti_dims info" 1] assms
  by (auto simp: tensor_numel_def INT64_MAX_def split: if_splits)

text \<open>The bytes per element of a dense tensor type.\<close>

fun elem_bytes :: "GGUFTensorType \<Rightarrow> nat" where
  "elem_bytes TT_F32 = 4"
| "elem_bytes TT_F16 = 2"
| "elem_bytes TT_BF16 = 2"
| "elem_bytes _ = 0"

lemma dense_bytes_exact:
  assumes "dense_bytes info (of_nat e) = Inr n" "nat (prod_list (ti_dims info)) * e < 2 ^ 64" "e < 2 ^ 64"
  shows "unat n = nat (prod_list (ti_dims info)) * e" "\<forall>d \<in> set (ti_dims info). 0 < d"
proof -
  have pos: "0 < tensor_numel info" and n: "n = of_int (tensor_numel info) * of_nat e"
    using assms(1) by (auto simp: dense_bytes_def Let_def split: if_splits)
  have "n = of_nat (nat (prod_list (ti_dims info)) * e)"
    using tensor_numel_pos(1) [OF pos] pos n by simp
  then show "unat n = nat (prod_list (ti_dims info)) * e"
    using assms(2) by (simp only: unat_of_nat) simp
  show "\<forall>d \<in> set (ti_dims info). 0 < d" by (rule tensor_numel_pos(2) [OF pos])
qed


definition small_reader :: GGUFReader where
  "small_reader = \<lparr>rd_data = small_file @ replicate 32 0, rd_data_start = 32, rd_version = 3, rd_metadata = [], rd_tensor_infos = []\<rparr>"

definition small_info :: GGUFTensorInfo where
  "small_info = \<lparr>ti_name = ''w'', ti_dims = [2, 3], ti_type = TT_F32, ti_offset = 8\<rparr>"


text \<open>
  The two sums of \<^verbatim>\<open>raw_tensor_data\<close> and \<^verbatim>\<open>tensor_bytes\<close> are not checked for wrap-around: an offset near
  \<open>2 ^ 64\<close> names the header of the file as tensor data, and a tensor of \<open>2 ^ 62\<close> floats has no bytes.
\<close>

lemma raw_tensor_data_wraps:
  "raw_tensor_data model_ccop small_reader (small_info\<lparr>ti_offset := - 32\<rparr>) = Inr (0, 24)"
  "raw_tensor_data model_ccop small_reader (small_info\<lparr>ti_dims := [4611686018427387904]\<rparr>) = Inr (40, 0)"
  by code_simp+

text \<open>
  The counts of the header are passed to \<^verbatim>\<open>reserve\<close> before anything is read: 32 bytes that declare
  \<open>2 ^ 64 - 1\<close> metadata entries kill the process instead of failing to load.
\<close>

definition huge_file :: "byte list" where
  "huge_file = kMagic @ [3, 0, 0, 0] @ replicate 8 0 @ replicate 16 255"

lemma huge_file_reads:
  "file_size huge_file = 32" "bytes_at huge_file 0 4 = Some kMagic" "bytes_at huge_file 4 4 = Some [3, 0, 0, 0]"
  "read_u64 huge_file 8 = Some (Inr 0, 16)"
  by code_simp+

lemma huge_file_count: "read_u64 huge_file 16 = Some (Inr (- 1), 24)"
proof -
  have "take_bytes huge_file 8 16 = Some (Inr [255, 255, 255, 255, 255, 255, 255, 255], 24)"
    by code_simp
  then show ?thesis
    by (simp add: read_u64_def read_raw_def and_then_def ret_def)
qed

lemma huge_count_aborts:
  assumes "lim_reserve lim < 2 ^ 64 - 1"
  shows "gguf_parse lim huge_file = None"
proof -
  have "unat (- 1 :: u64) = 2 ^ 64 - 1" by (simp add: unsigned_minus_1_eq_mask mask_eq_exp_minus_1)
  then have "reserve lim (- 1) (24 :: u64) = None"
    using assms by (simp add: reserve_def check_def)
  then show ?thesis
    by (simp add: gguf_parse_def parse_body_def and_then_def Let_def huge_file_reads huge_file_count small_file_reads)
qed

end
