(* ===== verification/Gguf_Format.thy ===== *)
theory Gguf_Format
  imports Gguf_Safety
begin

unbundle bit_operations_syntax

text \<open>
  The GGUF format as a printer, and the round trip: the reader returns what was printed. The printer is
  the specification of version 3 of the format for the part the reader understands.
\<close>

section \<open>Printing\<close>

fun le_bytes :: "nat \<Rightarrow> nat \<Rightarrow> byte list" where
  "le_bytes 0 n = []"
| "le_bytes (Suc k) n = of_nat (n mod 256) # le_bytes k (n div 256)"

definition bytes_of_string :: "string \<Rightarrow> byte list" where
  "bytes_of_string = map (\<lambda>c. of_nat (of_char c))"

definition print_string :: "string \<Rightarrow> byte list" where
  "print_string s = le_bytes 8 (length s) @ bytes_of_string s"

text \<open>The element type of an array is the type of its first element; of an empty array, any type.\<close>

definition elem_type :: "GGUFMetadataValue list \<Rightarrow> GGUFValueType" where
  "elem_type vs = (case vs of [] \<Rightarrow> VT_U8 | v # _ \<Rightarrow> gv_type v)"

primrec print_value :: "GGUFMetadataValue \<Rightarrow> byte list" and print_variant :: "GGUFVariant \<Rightarrow> byte list" where
  "print_value (GGUFMetadataValue type v) = print_variant v"
| "print_variant V_Monostate = []"
| "print_variant (V_U8 w) = le_bytes 1 (unat w)"
| "print_variant (V_I8 w) = le_bytes 1 (unat w)"
| "print_variant (V_U16 w) = le_bytes 2 (unat w)"
| "print_variant (V_I16 w) = le_bytes 2 (unat w)"
| "print_variant (V_U32 w) = le_bytes 4 (unat w)"
| "print_variant (V_I32 w) = le_bytes 4 (unat w)"
| "print_variant (V_U64 w) = le_bytes 8 (unat w)"
| "print_variant (V_I64 w) = le_bytes 8 (unat w)"
| "print_variant (V_F32 w) = le_bytes 4 (unat w)"
| "print_variant (V_F64 w) = le_bytes 8 (unat w)"
| "print_variant (V_Bool b) = [if b then 1 else 0]"
| "print_variant (V_String s) = print_string s"
| "print_variant (V_Array vs) =
     le_bytes 4 (unat (value_type_code (elem_type vs))) @ le_bytes 8 (length vs) @ concat (map print_value vs)"

definition print_metadata :: "string \<times> GGUFMetadataValue \<Rightarrow> byte list" where
  "print_metadata kv = print_string (fst kv) @ le_bytes 4 (unat (value_type_code (gv_type (snd kv)))) @ print_value (snd kv)"

fun tensor_type_code :: "GGUFTensorType \<Rightarrow> nat" where
  "tensor_type_code TT_F32 = 0"
| "tensor_type_code TT_F16 = 1"
| "tensor_type_code TT_Q8_0 = 8"
| "tensor_type_code _ = 30"

definition print_dim :: "int \<Rightarrow> byte list" where
  "print_dim d = le_bytes 8 (unat (of_int d :: u64))"

definition print_info :: "GGUFTensorInfo \<Rightarrow> byte list" where
  "print_info info = print_string (ti_name info) @ le_bytes 4 (length (ti_dims info)) @
     concat (map print_dim (ti_dims info)) @ le_bytes 4 (tensor_type_code (ti_type info)) @ le_bytes 8 (unat (ti_offset info))"

definition print_header :: "(string \<times> GGUFMetadataValue) list \<Rightarrow> GGUFTensorInfo list \<Rightarrow> byte list" where
  "print_header md infos = kMagic @ le_bytes 4 3 @ le_bytes 8 (length infos) @ le_bytes 8 (length md) @
     concat (map print_metadata md) @ concat (map print_info infos)"

definition padding :: "nat \<Rightarrow> nat" where
  "padding n = (n + 31) div 32 * 32 - n"

definition print_file :: "(string \<times> GGUFMetadataValue) list \<Rightarrow> GGUFTensorInfo list \<Rightarrow> byte list \<Rightarrow> byte list" where
  "print_file md infos tensors = (let h = print_header md infos in h @ replicate (padding (length h)) 0 @ tensors)"

section \<open>What can be printed\<close>

text \<open>\<open>value_ok n d v\<close>: tags and alternatives agree, arrays nest less than \<open>d\<close> deep and have at most \<open>n\<close> elements of one type.\<close>

fun value_ok :: "nat \<Rightarrow> nat \<Rightarrow> GGUFMetadataValue \<Rightarrow> bool" where
  "value_ok n 0 v = False"
| "value_ok n (Suc d) v = (case gv_value v of
     V_Monostate \<Rightarrow> False
   | V_U8 _ \<Rightarrow> gv_type v = VT_U8 | V_I8 _ \<Rightarrow> gv_type v = VT_I8 | V_U16 _ \<Rightarrow> gv_type v = VT_U16 | V_I16 _ \<Rightarrow> gv_type v = VT_I16
   | V_U32 _ \<Rightarrow> gv_type v = VT_U32 | V_I32 _ \<Rightarrow> gv_type v = VT_I32 | V_U64 _ \<Rightarrow> gv_type v = VT_U64 | V_I64 _ \<Rightarrow> gv_type v = VT_I64
   | V_F32 _ \<Rightarrow> gv_type v = VT_F32 | V_F64 _ \<Rightarrow> gv_type v = VT_F64 | V_Bool _ \<Rightarrow> gv_type v = VT_Bool
   | V_String _ \<Rightarrow> gv_type v = VT_String
   | V_Array vs \<Rightarrow> gv_type v = VT_Array \<and> length vs \<le> n \<and> list_all (\<lambda>x. gv_type x = elem_type vs \<and> value_ok n d x) vs)"

definition info_printable :: "GGUFTensorInfo \<Rightarrow> bool" where
  "info_printable info \<longleftrightarrow> info_ok info \<and> list_all (\<lambda>d. - (2 ^ 63) \<le> d \<and> d < 2 ^ 63) (ti_dims info)"

section \<open>Reading what was printed\<close>

text \<open>
  \<open>decodes m bs x\<close>: wherever the bytes \<open>bs\<close> stand in a file, \<open>m\<close> started at their beginning returns \<open>x\<close>
  and stops at their end.
\<close>

definition decodes :: "(byte list \<Rightarrow> (u64, 'a) act) \<Rightarrow> byte list \<Rightarrow> 'a \<Rightarrow> bool" where
  "decodes m bs x \<longleftrightarrow> (\<forall>pre post. length (pre @ bs @ post) < 2 ^ 64 \<longrightarrow>
     m (pre @ bs @ post) (of_nat (length pre)) = Some (Inr x, of_nat (length pre + length bs)))"

lemma decodesD:
  "decodes m bs x \<Longrightarrow> length (pre @ bs @ post) < 2 ^ 64 \<Longrightarrow>
   m (pre @ bs @ post) (of_nat (length pre)) = Some (Inr x, of_nat (length pre + length bs))"
  by (simp add: decodes_def)

lemma decodes_ret [simp]: "decodes (\<lambda>data. ret x) [] x"
  by (simp add: decodes_def ret_def)

lemma decodes_and_then:
  assumes "decodes m bs x" "decodes (\<lambda>data. f data x) cs y"
  shows "decodes (\<lambda>data. and_then (m data) (f data)) (bs @ cs) y"
  unfolding decodes_def
proof (intro allI impI)
  fix pre post :: "byte list"
  assume len: "length (pre @ (bs @ cs) @ post) < 2 ^ 64"
  then show "and_then (m (pre @ (bs @ cs) @ post)) (f (pre @ (bs @ cs) @ post)) (of_nat (length pre)) =
      Some (Inr y, of_nat (length pre + length (bs @ cs)))"
    using decodesD [OF assms(1), of pre "cs @ post"] decodesD [OF assms(2), of "pre @ bs" post]
    by (simp add: and_then_def add.assoc)
qed

lemma decodes_map: "decodes m bs x \<Longrightarrow> decodes (\<lambda>data. and_then (m data) (\<lambda>v. ret (g v))) bs (g x)"
  using decodes_and_then [of m bs x "\<lambda>data v. ret (g v)" "[]" "g x"] by simp

lemma decodes_repeat:
  "list_all2 (decodes m) bss xs \<Longrightarrow> decodes (\<lambda>data. repeat_act (length xs) (m data)) (concat bss) xs"
proof (induction bss xs rule: list_all2_induct)
  case (Cons bs bss x xs)
  have "decodes (\<lambda>data. and_then (repeat_act (length xs) (m data)) (\<lambda>ys. ret (x # ys))) (concat bss) (x # xs)"
    by (rule decodes_map [OF Cons.IH, of "\<lambda>ys. x # ys"])
  with Cons.hyps(1) show ?case
    by (simp, intro decodes_and_then [of m bs x])
qed simp

lemma decodes_take_bytes:
  assumes "length bs < 2 ^ 64"
  shows "decodes (\<lambda>data. take_bytes data (of_nat (length bs))) bs bs"
  unfolding decodes_def
proof (intro allI impI)
  fix pre post :: "byte list"
  assume len: "length (pre @ bs @ post) < 2 ^ 64"
  then have "unat (of_nat (length pre) :: u64) = length pre" "unat (of_nat (length bs) :: u64) = length bs"
    by (simp_all add: unat_of_nat)
  with len show "take_bytes (pre @ bs @ post) (of_nat (length bs)) (of_nat (length pre)) =
      Some (Inr bs, of_nat (length pre + length bs))"
    by (subst take_bytes_in_file) simp_all
qed

lemma length_le_bytes [simp]: "length (le_bytes k n) = k"
  by (induction k arbitrary: n) auto

lemma le_value_bytes: "n < 256 ^ k \<Longrightarrow> le_value (le_bytes k n) = n"
proof (induction k arbitrary: n)
  case (Suc k)
  then have "n div 256 < 256 ^ k" by (simp add: div_less_iff_less_mult mult.commute)
  then have "le_value (le_bytes k (n div 256)) = n div 256" by (rule Suc.IH)
  then show ?case by (simp add: unat_of_nat)
qed simp

lemma decodes_raw: "n < 256 ^ k \<Longrightarrow> k < 2 ^ 64 \<Longrightarrow> decodes (read_raw k) (le_bytes k n) n"
  unfolding read_raw_def
  using decodes_map [OF decodes_take_bytes [of "le_bytes k n"], of le_value] by (simp add: le_value_bytes)

lemma decodes_word:
  assumes "LENGTH('a::len) = 8 * k" "k < 2 ^ 64"
  shows "decodes (\<lambda>data. and_then (read_raw k data) (\<lambda>v. ret (of_nat v :: 'a word))) (le_bytes k (unat w)) (w :: 'a word)"
proof -
  have "unat w < 2 ^ LENGTH('a)" by (rule unsigned_less)
  then have "unat w < 256 ^ k" by (simp add: assms(1) power_mult)
  from decodes_map [OF decodes_raw [OF this assms(2)], of "of_nat :: nat \<Rightarrow> 'a word"] show ?thesis by simp
qed

lemma decodes_u8: "decodes read_u8 (le_bytes 1 (unat w)) w"
  unfolding read_u8_def by (rule decodes_word) simp_all

lemma decodes_u16: "decodes read_u16 (le_bytes 2 (unat w)) w"
  unfolding read_u16_def by (rule decodes_word) simp_all

lemma decodes_u32: "decodes read_u32 (le_bytes 4 (unat w)) w"
  unfolding read_u32_def by (rule decodes_word) simp_all

lemma decodes_u64: "decodes read_u64 (le_bytes 8 (unat w)) w"
  unfolding read_u64_def by (rule decodes_word) simp_all

text \<open>A count that fits its width is read as that number.\<close>

lemma decodes_count32: "n < 2 ^ 32 \<Longrightarrow> decodes read_u32 (le_bytes 4 n) (of_nat n)"
  using decodes_u32 [of "of_nat n"] by (simp add: unat_of_nat)

lemma decodes_count64: "n < 2 ^ 64 \<Longrightarrow> decodes read_u64 (le_bytes 8 n) (of_nat n)"
  using decodes_u64 [of "of_nat n"] by (simp add: unat_of_nat)

lemma decodes_bool: "decodes read_bool [if b then 1 else 0] b"
proof -
  have "decodes read_u8 [if b then 1 else 0] (if b then 1 else 0)"
    using decodes_u8 [of "if b then 1 else 0"] by (cases b) simp_all
  from decodes_map [OF this, of "\<lambda>v. v \<noteq> 0"] show ?thesis
    by (cases b) (simp_all add: read_bool_def [abs_def])
qed

lemma string_bytes: "string_of_bytes (bytes_of_string s) = s"
proof -
  have "char_of (unat (of_nat (of_char c) :: byte)) = c" for c
    by (simp add: unat_of_nat)
  then show ?thesis by (simp add: string_of_bytes_def bytes_of_string_def o_def)
qed

lemma length_bytes_of_string [simp]: "length (bytes_of_string s) = length s"
  by (simp add: bytes_of_string_def)

lemma decodes_long: "2 ^ 64 \<le> length bs \<Longrightarrow> decodes m bs x"
  by (simp add: decodes_def)

lemma decodes_string: "decodes read_string (print_string s) s"
proof (cases "length s < 2 ^ 64")
  case True
  then have "decodes (\<lambda>data. and_then (take_bytes data (of_nat (length s))) (\<lambda>bs. ret (string_of_bytes bs))) (bytes_of_string s) s"
    using decodes_map [OF decodes_take_bytes [of "bytes_of_string s"], of string_of_bytes]
    by (simp add: string_bytes)
  then show ?thesis
    unfolding read_string_def print_string_def by (rule decodes_and_then [OF decodes_count64 [OF True]])
next
  case False
  then show ?thesis by (intro decodes_long) (simp add: print_string_def)
qed

section \<open>Values, metadata, tensor descriptions\<close>

definition named :: "GGUFValueType \<Rightarrow> bool" where
  "named t \<longleftrightarrow> (case t of VT_Unnamed _ \<Rightarrow> False | _ \<Rightarrow> True)"

lemma value_type_of_code: "named t \<Longrightarrow> value_type_of (value_type_code t) = t"
  by (cases t) (simp_all add: named_def value_type_of_def value_type_names_def)

lemma value_type_code_le: "named t \<Longrightarrow> \<not> value_type_code t > 12"
  by (cases t) (simp_all add: named_def)

lemma value_ok_named: "value_ok n d v \<Longrightarrow> named (gv_type v)"
  by (cases d) (auto simp: named_def split: GGUFVariant.splits)

lemma elem_type_named: "list_all (\<lambda>x. gv_type x = elem_type vs \<and> value_ok n d x) vs \<Longrightarrow> named (elem_type vs)"
  by (cases vs) (auto simp: elem_type_def named_def dest: value_ok_named)

lemma decodes_reserve: "n \<le> lim_reserve lim \<Longrightarrow> n < 2 ^ 64 \<Longrightarrow> decodes (\<lambda>data. reserve lim (of_nat n)) [] ()"
  by (simp add: decodes_def reserve_def check_def unat_of_nat)

lemma decodes_value:
  assumes "lim_reserve lim < 2 ^ 64"
  shows "value_ok (lim_reserve lim) stack v \<Longrightarrow>
    decodes (\<lambda>data. parse_value lim stack data (gv_type v)) (print_value v) v"
proof (induction stack arbitrary: v)
  case (Suc stack)
  obtain t a where v: "v = GGUFMetadataValue t a" by (cases v)
  show ?case
  proof (cases a)
    case (V_Array vs)
    have t: "t = VT_Array" and len: "length vs \<le> lim_reserve lim" and
      vs: "list_all (\<lambda>x. gv_type x = elem_type vs \<and> value_ok (lim_reserve lim) stack x) vs"
      using Suc.prems by (simp_all add: v V_Array)
    let ?p = "\<lambda>data. parse_value lim stack data (elem_type vs)"
    have "decodes ?p (print_value x) x" if "x \<in> set vs" for x
      using vs that Suc.IH [of x] by (auto simp: list_all_iff)
    then have "list_all2 (decodes ?p) (map print_value vs) vs"
      by (simp add: list_all2_conv_all_nth)
    then have "decodes (\<lambda>data. repeat_act (length vs) (?p data)) (concat (map print_value vs)) vs"
      by (rule decodes_repeat)
    note arr = decodes_map [OF this, of "\<lambda>values. GGUFMetadataValue VT_Array (V_Array values)"]
    have small: "length vs < 2 ^ 64" using len assms by simp
    then have cnt: "unat (of_nat (length vs) :: u64) = length vs" by (simp add: unat_of_nat)
    have "decodes (\<lambda>data. parse_value lim (Suc stack) data VT_Array)
      (le_bytes 4 (unat (value_type_code (elem_type vs))) @ le_bytes 8 (length vs) @ [] @ concat (map print_value vs)) (GGUFMetadataValue VT_Array (V_Array vs))"
      unfolding parse_value.simps GGUFValueType.case
      by (rule decodes_and_then [OF decodes_u32], rule decodes_and_then [OF decodes_count64 [OF small]],
          rule decodes_and_then [OF decodes_reserve [OF len small]])
        (use arr in \<open>simp add: cnt value_type_of_code [OF elem_type_named [OF vs]]\<close>)
    then show ?thesis by (simp add: v t V_Array)
  qed (use Suc.prems in \<open>auto simp: v intro!: decodes_map decodes_u8 [simplified] decodes_u16 decodes_u32 decodes_u64
      decodes_bool [of True, simplified] decodes_bool [of False, simplified] decodes_string\<close>)
qed simp

lemma decodes_metadata:
  assumes "lim_reserve lim < 2 ^ 64" "value_ok (lim_reserve lim) (lim_stack lim) (snd kv)"
  shows "decodes (read_metadata lim) (print_metadata kv) kv"
proof -
  have n: "named (gv_type (snd kv))" using assms(2) by (rule value_ok_named)
  from decodes_map [OF decodes_value [OF assms], of "Pair (fst kv)"]
  show ?thesis
    unfolding read_metadata_def print_metadata_def Let_def
    by (intro decodes_and_then [OF decodes_string] decodes_and_then [OF decodes_u32])
      (simp add: value_type_of_code [OF n] value_type_code_le [OF n])
qed

lemma decodes_dim: "- (2 ^ 63) \<le> d \<Longrightarrow> d < 2 ^ 63 \<Longrightarrow> decodes read_dim (print_dim d) d"
  unfolding read_dim_def print_dim_def
  using decodes_map [OF decodes_u64 [of "of_int d"], of sint] by (simp add: sint_sbintrunc' signed_take_bit_int_eq_self)

lemma tensor_type_code_of: "supported_tensor_type t \<Longrightarrow> tensor_type_of (of_nat (tensor_type_code t)) = t"
  by (cases t) (simp_all add: tensor_type_of_def tensor_type_names_def)

lemma tensor_type_code_le: "tensor_type_code t \<le> 30"
  by (cases t) simp_all

lemma decodes_info:
  assumes "info_printable info"
  shows "decodes read_tensor_info (print_info info) info"
proof -
  have dims: "list_all2 (decodes read_dim) (map print_dim (ti_dims info)) (ti_dims info)"
    using assms by (auto simp: info_printable_def list_all_length list_all2_conv_all_nth intro!: decodes_dim)
  have rank: "1 \<le> length (ti_dims info)" "length (ti_dims info) \<le> 8" and type: "supported_tensor_type (ti_type info)"
    using assms by (auto simp: info_printable_def info_ok_def)
  then have n: "unat (of_nat (length (ti_dims info)) :: u32) = length (ti_dims info)" by (simp add: unat_of_nat)
  have t: "unat (of_nat (tensor_type_code (ti_type info)) :: u32) = tensor_type_code (ti_type info)"
    using tensor_type_code_le [of "ti_type info"] by (simp add: unat_of_nat)
  have "\<not> (of_nat (length (ti_dims info)) :: u32) = 0" "\<not> of_nat (length (ti_dims info)) > (8 :: u32)"
    using n rank by (auto simp: word_less_nat_alt simp flip: unat_eq_0)
  moreover have "\<not> of_nat (tensor_type_code (ti_type info)) > (30 :: u32)"
    using t tensor_type_code_le [of "ti_type info"] by (simp add: word_less_nat_alt)
  moreover have c: "length (ti_dims info) < 2 ^ 32" "tensor_type_code (ti_type info) < 2 ^ 32"
    using rank tensor_type_code_le [of "ti_type info"] by simp_all
  moreover have "decodes (\<lambda>data. and_then (read_u64 data) (\<lambda>offset. ret \<lparr>ti_name = ti_name info, ti_dims = ti_dims info,
      ti_type = ti_type info, ti_offset = offset\<rparr>)) (le_bytes 8 (unat (ti_offset info))) info"
    using decodes_map [OF decodes_u64 [of "ti_offset info"], of "\<lambda>offset. \<lparr>ti_name = ti_name info, ti_dims = ti_dims info,
      ti_type = ti_type info, ti_offset = offset\<rparr>"] by (cases info) simp
  ultimately show ?thesis
    unfolding read_tensor_info_def print_info_def Let_def
    by (intro decodes_and_then [OF decodes_string] decodes_and_then [OF decodes_count32 [OF c(1)]])
      (simp add: n, intro decodes_and_then [OF decodes_repeat [OF dims]] decodes_and_then [OF decodes_count32 [OF c(2)]],
       simp add: tensor_type_code_of [OF type] type)
qed

section \<open>Files\<close>

definition printable :: "Limits \<Rightarrow> (string \<times> GGUFMetadataValue) list \<Rightarrow> GGUFTensorInfo list \<Rightarrow> bool" where
  "printable lim md infos \<longleftrightarrow> lim_reserve lim < 2 ^ 64 \<and> length md \<le> lim_reserve lim \<and> length infos \<le> lim_reserve lim \<and>
     list_all (\<lambda>kv. value_ok (lim_reserve lim) (lim_stack lim) (snd kv)) md \<and> list_all info_printable infos"

lemma printable_decodes:
  assumes "printable lim md infos"
  shows "decodes (\<lambda>data. repeat_act (length md) (read_metadata lim data)) (concat (map print_metadata md)) md"
    "decodes (\<lambda>data. repeat_act (length infos) (read_tensor_info data)) (concat (map print_info infos)) infos"
  using assms by (auto simp: printable_def list_all_length list_all2_conv_all_nth
      intro!: decodes_repeat decodes_metadata decodes_info)

text \<open>The counts and the two sections, as \<^term>\<open>parse_body\<close> reads them before it computes the start of the tensor data.\<close>

definition read_sections :: "Limits \<Rightarrow> byte list \<Rightarrow> (u64, (string \<times> GGUFMetadataValue) list \<times> GGUFTensorInfo list) act" where
  "read_sections lim data = and_then (read_u64 data) (\<lambda>n_tensors. and_then (read_u64 data) (\<lambda>n_metadata.
     and_then (reserve lim n_metadata) (\<lambda>_. and_then (repeat_act (unat n_metadata) (read_metadata lim data)) (\<lambda>metadata.
     and_then (reserve lim n_tensors) (\<lambda>_. and_then (repeat_act (unat n_tensors) (read_tensor_info data)) (\<lambda>infos.
       ret (metadata, infos)))))))"

lemma and_then_nested: "and_then (and_then m f) g = and_then m (\<lambda>x. and_then (f x) g)"
  by (auto simp: and_then_def fun_eq_iff split: option.splits sum.splits prod.splits)

lemma and_then_ret_left: "and_then (ret x) g = g x"
  by (simp add: and_then_def ret_def fun_eq_iff)

lemma parse_body_sections:
  "parse_body lim data version = and_then (read_sections lim data) (\<lambda>(md, infos) offset.
     let start = align32 offset in
       if start > file_size data then Some (Inl ModelLoadFailed, offset)
       else Some (Inr \<lparr>rd_data = data, rd_data_start = start, rd_version = version, rd_metadata = md, rd_tensor_infos = infos\<rparr>, offset))"
  by (simp only: parse_body_def read_sections_def and_then_nested and_then_ret_left prod.case)

definition print_sections :: "(string \<times> GGUFMetadataValue) list \<Rightarrow> GGUFTensorInfo list \<Rightarrow> byte list" where
  "print_sections md infos = le_bytes 8 (length infos) @ le_bytes 8 (length md) @ concat (map print_metadata md) @ concat (map print_info infos)"

lemma decodes_sections:
  assumes "printable lim md infos"
  shows "decodes (read_sections lim) (print_sections md infos) (md, infos)"
proof -
  have l: "length infos < 2 ^ 64" "length md < 2 ^ 64" "length infos \<le> lim_reserve lim" "length md \<le> lim_reserve lim"
    using assms(1) by (auto simp: printable_def)
  have n: "unat (of_nat (length infos) :: u64) = length infos" "unat (of_nat (length md) :: u64) = length md"
    using l by (simp_all add: unat_of_nat)
  have "decodes (read_sections lim)
    (le_bytes 8 (length infos) @ le_bytes 8 (length md) @ [] @ concat (map print_metadata md) @ [] @ concat (map print_info infos)) (md, infos)"
    unfolding read_sections_def
    by (rule decodes_and_then [OF decodes_count64 [OF l(1)]], rule decodes_and_then [OF decodes_count64 [OF l(2)]],
        rule decodes_and_then [OF decodes_reserve [OF l(4) l(2)]], unfold n,
        rule decodes_and_then [OF printable_decodes(1) [OF assms]], rule decodes_and_then [OF decodes_reserve [OF l(3) l(1)]],
        rule decodes_map [OF printable_decodes(2) [OF assms]])
  then show ?thesis by (simp add: print_sections_def)
qed

lemma print_header_sections: "print_header md infos = (kMagic @ le_bytes 4 3) @ print_sections md infos"
  by (simp add: print_header_def print_sections_def)

lemma version_bytes: "le_bytes 4 3 = [3, 0, 0, 0]"
  by code_simp

lemma header_bytes: "kMagic @ le_bytes 4 3 = [0x47, 0x47, 0x55, 0x46, 3, 0, 0, 0]"
  by (simp add: kMagic_def version_bytes)

text \<open>
  C32. The reader inverts the printer of the format: for all metadata whose tags and values agree and whose
  arrays nest within the stack, and all tensor descriptions with one to eight dimensions of a supported type,
  parsing the printed file gives back exactly these metadata and descriptions, in order, and the start of
  the tensor bytes that follow the padded header.
\<close>

theorem gguf_round_trip:
  assumes "printable lim md infos" "length (print_file md infos tensors) < 2 ^ 63"
  shows "gguf_parse lim (print_file md infos tensors) = Some (Inr \<lparr>rd_data = print_file md infos tensors,
     rd_data_start = of_nat (length (print_file md infos tensors) - length tensors), rd_version = 3,
     rd_metadata = md, rd_tensor_infos = infos\<rparr>)"
proof -
  let ?h = "length (print_header md infos)" and ?data = "print_file md infos tensors"
  let ?post = "replicate (padding ?h) 0 @ tensors"
  have data: "?data = (kMagic @ le_bytes 4 3) @ print_sections md infos @ ?post"
    by (simp add: print_file_def Let_def print_header_sections)
  have h: "?h = 8 + length (print_sections md infos)"
    by (simp add: print_header_sections header_bytes)
  have "read_sections lim ?data (of_nat (length (kMagic @ le_bytes 4 3))) = Some (Inr (md, infos), of_nat ?h)"
    using decodesD [OF decodes_sections [OF assms(1)], of "kMagic @ le_bytes 4 3" ?post] assms(2)
    unfolding data [symmetric] by (simp add: h header_bytes)
  then have sections: "read_sections lim ?data 8 = Some (Inr (md, infos), of_nat ?h)"
    by (simp add: header_bytes)
  have len: "length ?data = (?h + 31) div 32 * 32 + length tensors"
    by (simp add: print_file_def Let_def padding_def)
  have start: "unat (align32 (of_nat ?h)) = (?h + 31) div 32 * 32"
    using align32_unat [of "of_nat ?h"] assms(2) len by (simp add: unat_of_nat)
  have "align32 (of_nat ?h) = of_nat (unat (align32 (of_nat ?h)))" by simp
  then have start_of: "align32 (of_nat ?h) = of_nat (length ?data - length tensors)"
    unfolding start len by simp
  have "\<not> align32 (of_nat ?h) > file_size ?data"
    using start len assms(2) by (simp add: word_less_nat_alt unat_file_size)
  then have body: "parse_body lim ?data 3 8 = Some (Inr \<lparr>rd_data = ?data, rd_data_start = of_nat (length ?data - length tensors),
      rd_version = 3, rd_metadata = md, rd_tensor_infos = infos\<rparr>, of_nat ?h)"
    by (simp add: parse_body_sections and_then_def sections start_of Let_def)
  have "16 \<le> length (print_sections md infos)" by (simp add: print_sections_def)
  then have "24 \<le> length ?data" using h len by linarith
  then have head: "\<not> file_size ?data < 4 + 4 + 8 + 8" "bytes_at ?data 0 4 = Some kMagic" "bytes_at ?data 4 4 = Some [3, 0, 0, 0]"
    using assms(2) by (simp_all add: word_less_nat_alt unat_file_size bytes_at_def data header_bytes version_bytes kMagic_def)
  show ?thesis
    using head body small_file_reads(7) by (simp add: gguf_parse_def Let_def)
qed

definition sample_metadata :: "(string \<times> GGUFMetadataValue) list" where
  "sample_metadata = [(''general.architecture'', GGUFMetadataValue VT_String (V_String ''qwen35'')),
     (''tokens'', GGUFMetadataValue VT_Array (V_Array [GGUFMetadataValue VT_String (V_String ''a''), GGUFMetadataValue VT_String (V_String ''b'')])),
     (''eps'', GGUFMetadataValue VT_F32 (V_F32 0x358637BD))]"

definition sample_infos :: "GGUFTensorInfo list" where
  "sample_infos = [\<lparr>ti_name = ''token_embd.weight'', ti_dims = [32, 2], ti_type = TT_Q8_0, ti_offset = 0\<rparr>]"

lemma sample_values: "list_all (\<lambda>kv. value_ok 3 2 (snd kv)) sample_metadata"
  by (simp add: sample_metadata_def numeral_2_eq_2 elem_type_def)

theorem gguf_round_trip_witness:
  "printable \<lparr>lim_stack = 2, lim_reserve = 3\<rparr> sample_metadata sample_infos \<and>
   gguf_parse \<lparr>lim_stack = 2, lim_reserve = 3\<rparr> (print_file sample_metadata sample_infos [7]) =
     Some (Inr \<lparr>rd_data = print_file sample_metadata sample_infos [7],
       rd_data_start = of_nat (length (print_file sample_metadata sample_infos [7]) - length [7 :: byte]), rd_version = 3,
       rd_metadata = sample_metadata, rd_tensor_infos = sample_infos\<rparr>)"
proof -
  have ok: "printable \<lparr>lim_stack = 2, lim_reserve = 3\<rparr> sample_metadata sample_infos"
    using sample_values by (simp add: printable_def sample_infos_def info_printable_def info_ok_def, simp add: sample_metadata_def)
  have "length (print_file sample_metadata sample_infos [7]) < 2 ^ 63"
    by (simp add: print_file_def Let_def padding_def print_header_def header_bytes sample_metadata_def sample_infos_def print_metadata_def
        print_string_def print_info_def print_dim_def kMagic_def)
  from gguf_round_trip [OF ok this] ok show ?thesis by (rule conjI [rotated])
qed

end
