(* ===== verification/Gguf_Config.thy ===== *)
theory Gguf_Config
  imports Gguf_Safety Model_Config
begin

text \<open>
  Reading the model configuration from GGUF metadata, \<^verbatim>\<open>src/src/checkpoint/gguf/config_loader.cpp\<close>, and the
  tensors of a GGUF file as a weight source, \<^verbatim>\<open>src/src/checkpoint/gguf/weight_source.cpp\<close>.
\<close>

section \<open>The configuration loader\<close>

definition metadata_u64 :: "GGUFReader \<Rightarrow> string \<Rightarrow> u64 option" where
  "metadata_u64 rd key = (case metadata rd key of None \<Rightarrow> None | Some v \<Rightarrow> as_u64 v)"

definition metadata_f32 :: "(u64 \<Rightarrow> f32) \<Rightarrow> GGUFReader \<Rightarrow> string \<Rightarrow> f32 option" where
  "metadata_f32 narrow rd key = (case metadata rd key of None \<Rightarrow> None | Some v \<Rightarrow> as_f32 narrow v)"

definition metadata_int :: "GGUFReader \<Rightarrow> string \<Rightarrow> int option" where
  "metadata_int rd key = (case metadata_u64 rd key of
     None \<Rightarrow> None
   | Some v \<Rightarrow> if uint v > INT_MAX then None else Some (uint v))"

definition get_int :: "GGUFReader \<Rightarrow> string \<Rightarrow> int result" where
  "get_int rd key = (case metadata_int rd key of None \<Rightarrow> Inl ModelConfigInvalid | Some v \<Rightarrow> Inr v)"

definition get_f32 :: "(u64 \<Rightarrow> f32) \<Rightarrow> GGUFReader \<Rightarrow> string \<Rightarrow> f32 result" where
  "get_f32 narrow rd key = (case metadata_f32 narrow rd key of None \<Rightarrow> Inl ModelConfigInvalid | Some v \<Rightarrow> Inr v)"

definition layer_types :: "int \<Rightarrow> int \<Rightarrow> int \<Rightarrow> LayerType list" where
  "layer_types n_layers interval nextn =
     map (\<lambda>i. if interval > 0 \<and> int i mod interval = interval - 1 then FullAttention else GatedDeltaNet) [0..<nat n_layers] @
     replicate (nat nextn) MtpPredictor"

definition check_tokens :: "GGUFReader \<Rightarrow> int \<Rightarrow> unit result" where
  "check_tokens rd vocab = (case metadata rd ''tokenizer.ggml.tokens'' of
     None \<Rightarrow> Inr ()
   | Some tokens \<Rightarrow> (case as_array tokens of
       None \<Rightarrow> Inr ()
     | Some arr \<Rightarrow> if int_cast (int (length arr)) \<noteq> vocab then Inl ModelConfigInvalid else Inr ()))"

definition token_embd_rows :: "GGUFReader \<Rightarrow> int result" where
  "token_embd_rows rd = (case find_tensor rd ''token_embd.weight'' of
     None \<Rightarrow> Inl ModelLoadFailed
   | Some info \<Rightarrow> if ti_dims info = [] then Inl ModelLoadFailed else Inr (int_cast (last (ti_dims info))))"

definition load_hybrid :: "Limits \<Rightarrow> (u64 \<Rightarrow> f32) \<Rightarrow> GGUFReader \<Rightarrow> ModelConfig result option" where
  "load_hybrid lim narrow rd =
     on_value (get_int rd ''qwen35.block_count'') (\<lambda>block_count.
     on_value (get_int rd ''qwen35.embedding_length'') (\<lambda>embedding_length.
     on_value (get_int rd ''qwen35.feed_forward_length'') (\<lambda>feed_forward_length.
     on_value (get_int rd ''qwen35.attention.head_count'') (\<lambda>head_count.
     on_value (get_int rd ''qwen35.attention.head_count_kv'') (\<lambda>head_count_kv.
     on_value (get_int rd ''qwen35.attention.key_length'') (\<lambda>key_length.
     on_value (get_int rd ''qwen35.context_length'') (\<lambda>context_length.
     on_value (get_int rd ''qwen35.full_attention_interval'') (\<lambda>full_attention_interval.
     on_value (get_int rd ''qwen35.nextn_predict_layers'') (\<lambda>nextn_predict_layers.
     let n_layers = block_count - nextn_predict_layers in
     if n_layers \<le> 0 then Some (Inl ModelConfigInvalid)
     else
     on_value (get_int rd ''qwen35.ssm.conv_kernel'') (\<lambda>ssm_conv.
     on_value (get_int rd ''qwen35.ssm.state_size'') (\<lambda>ssm_state.
     on_value (get_int rd ''qwen35.ssm.group_count'') (\<lambda>ssm_group.
     on_value (get_int rd ''qwen35.ssm.time_step_rank'') (\<lambda>ssm_rank.
     on_value (get_int rd ''qwen35.ssm.inner_size'') (\<lambda>ssm_inner.
     on_value (get_f32 narrow rd ''qwen35.rope.freq_base'') (\<lambda>freq.
     on_value (get_int rd ''qwen35.rope.dimension_count'') (\<lambda>rope_dim.
     on_value (get_f32 narrow rd ''qwen35.attention.layer_norm_rms_epsilon'') (\<lambda>eps. do {
       require (nat block_count \<le> lim_reserve lim);
       on_value (token_embd_rows rd) (\<lambda>vocab.
       on_value (check_tokens rd vocab) (\<lambda>_.
       let cfg = default_model_config\<lparr>mc_arch := Arch_Qwen3_5, mc_n_layers := n_layers, mc_n_q_heads := head_count,
         mc_n_kv_heads := head_count_kv, mc_d_model := embedding_length, mc_head_dim := key_length, mc_rotary_dim := rope_dim,
         mc_d_ff := feed_forward_length, mc_vocab_size := vocab, mc_max_seq_len := context_length, mc_rope_theta := freq,
         mc_rms_norm_eps := eps, mc_full_attention_interval := full_attention_interval,
         mc_nextn_predict_layers := nextn_predict_layers, mc_ssm_conv_kernel := ssm_conv, mc_ssm_state_size := ssm_state,
         mc_ssm_group_count := ssm_group, mc_ssm_time_step_rank := ssm_rank, mc_ssm_inner_size := ssm_inner,
         mc_layer_types := layer_types n_layers full_attention_interval nextn_predict_layers\<rparr> in
       case model_validate cfg of
         None \<Rightarrow> None
       | Some v \<Rightarrow> on_value v (\<lambda>_. Some (Inr cfg))))
     })))))))))))))))))"

definition gguf_load :: "Limits \<Rightarrow> (u64 \<Rightarrow> f32) \<Rightarrow> GGUFReader \<Rightarrow> ModelConfig result option" where
  "gguf_load lim narrow rd = (case metadata rd ''general.architecture'' of
     None \<Rightarrow> Some (Inl ModelUnsupportedArch)
   | Some arch \<Rightarrow> (case as_string arch of
       None \<Rightarrow> None
     | Some s \<Rightarrow> if s \<noteq> ''qwen35'' then Some (Inl ModelUnsupportedArch) else load_hybrid lim narrow rd))"

section \<open>The weight source\<close>

text \<open>The storage type of a weight: a dense type, or the quantised type Q8\_0.\<close>

datatype TensorType = Dense DType | Q8_0_Type

record WeightSourceTensorInfo =
  ws_logical_shape :: "int list"
  ws_type :: TensorType
  ws_offset :: u64
  ws_size_bytes :: u64

definition gguf_has :: "GGUFReader \<Rightarrow> string \<Rightarrow> bool" where
  "gguf_has rd name = (find_tensor rd name \<noteq> None)"

definition gguf_info :: "Ccop \<Rightarrow> GGUFReader \<Rightarrow> string \<Rightarrow> WeightSourceTensorInfo result" where
  "gguf_info co rd name = (case find_tensor rd name of
     None \<Rightarrow> Inl ModelLoadFailed
   | Some t \<Rightarrow> (case (case ti_type t of TT_Q8_0 \<Rightarrow> Inr Q8_0_Type | TT_F32 \<Rightarrow> Inr (Dense DT_Float32)
         | TT_F16 \<Rightarrow> Inr (Dense DT_Float16) | TT_BF16 \<Rightarrow> Inr (Dense DT_BFloat16) | _ \<Rightarrow> Inl Unsupported) of
       Inl e \<Rightarrow> Inl e
     | Inr type \<Rightarrow> (case tensor_bytes co t of
         Inl e \<Rightarrow> Inl e
       | Inr bytes \<Rightarrow> Inr \<lparr>ws_logical_shape = rev (ti_dims t), ws_type = type, ws_offset = ti_offset t, ws_size_bytes = bytes\<rparr>)))"

definition gguf_read :: "Ccop \<Rightarrow> GGUFReader \<Rightarrow> string \<Rightarrow> byte list result" where
  "gguf_read co rd name = (case find_tensor rd name of
     None \<Rightarrow> Inl ModelLoadFailed
   | Some t \<Rightarrow> (case raw_tensor_data co rd t of
       Inl e \<Rightarrow> Inl e
     | Inr (off, n) \<Rightarrow> Inr (take (unat n) (drop (unat off) (rd_data rd)))))"

section \<open>The layer plan\<close>

lemma get_int_nonneg: "get_int rd key = Inr v \<Longrightarrow> 0 \<le> v"
  by (auto simp: get_int_def metadata_int_def split: option.splits if_splits)

lemma load_hybrid_parts:
  assumes "load_hybrid lim narrow rd = Some (Inr c)"
  shows "mc_arch c = Arch_Qwen3_5 \<and> model_validate c = Some (Inr ()) \<and> 0 \<le> mc_nextn_predict_layers c \<and>
    mc_layer_types c = layer_types (mc_n_layers c) (mc_full_attention_interval c) (mc_nextn_predict_layers c)"
  using assms unfolding load_hybrid_def on_value_Inr Let_def
  by (clarsimp simp: chk_simps get_int_nonneg split: if_splits option.splits)

lemma gguf_load_hybrid: "gguf_load lim narrow rd = Some (Inr c) \<Longrightarrow> load_hybrid lim narrow rd = Some (Inr c)"
  by (auto simp: gguf_load_def split: option.splits if_splits)

lemma interval_pos:
  assumes "model_validate c = Some (Inr ())" "mc_arch c = Arch_Qwen3_5"
  shows "0 < mc_full_attention_interval c"
  using assms by (auto simp: model_validate_def split: if_splits)

text \<open>Among the first \<open>m\<close> layers, every \<open>k\<close>-th one has full attention.\<close>

lemma full_layers: "0 < k \<Longrightarrow> length (filter (\<lambda>i. int i mod int k = int k - 1) [0..<m]) = m div k"
proof (induction m)
  case (Suc m)
  have "int m mod int k = int k - 1 \<longleftrightarrow> Suc m mod k = 0"
    using Suc.prems by (auto simp: mod_Suc simp flip: of_nat_mod)
  then show ?case
    using Suc by (auto simp: div_Suc)
qed simp

lemma layer_types_take:
  "m \<le> nat n \<Longrightarrow> take m (layer_types n k x) =
     map (\<lambda>i. if k > 0 \<and> int i mod k = k - 1 then FullAttention else GatedDeltaNet) [0..<m]"
  by (simp add: layer_types_def take_map)

lemma layer_types_rank:
  assumes "m \<le> nat n" "0 < k"
  shows "length (filter ((=) FullAttention) (take m (layer_types n k x))) = m div nat k"
    "length (filter ((=) GatedDeltaNet) (take m (layer_types n k x))) = m - m div nat k"
proof -
  have full: "length (filter (\<lambda>i. int i mod k = k - 1) [0..<m]) = m div nat k"
    using full_layers [of "nat k" m] assms(2) by simp
  have "length (filter (\<lambda>i. int i mod k \<noteq> k - 1) [0..<m]) = m - m div nat k"
    using sum_length_filter_compl [of "\<lambda>i. int i mod k = k - 1" "[0..<m]"] full by simp
  with full show "length (filter ((=) FullAttention) (take m (layer_types n k x))) = m div nat k"
    "length (filter ((=) GatedDeltaNet) (take m (layer_types n k x))) = m - m div nat k"
    using assms by (simp_all add: layer_types_take filter_map o_def if_distrib [of "(=) _"] cong: if_cong)
qed

lemma layer_types_nth:
  assumes "0 \<le> l" "l < n" "0 < k"
  shows "layer_types n k x ! nat l = (if (l + 1) mod k = 0 then FullAttention else GatedDeltaNet)"
proof -
  have "l mod k = k - 1 \<longleftrightarrow> (l + 1) mod k = 0"
  proof -
    have "(l + 1) mod k = (l mod k + 1) mod k" by (simp add: mod_add_left_eq)
    moreover have "0 \<le> l mod k" "l mod k < k" using assms(3) by simp_all
    ultimately show ?thesis by (cases "l mod k = k - 1") (simp_all add: mod_pos_pos_trivial)
  qed
  then show ?thesis using assms by (simp add: layer_types_def nth_append)
qed

lemma index_rank:
  assumes "mc_arch c = Arch_Qwen3_5" "0 \<le> l" "l < mc_n_layers c" "nat (mc_n_layers c) \<le> length (mc_layer_types c)"
    "mc_layer_types c ! nat l = ty"
  shows "index_for_layer_type dbg c l ty = Some (int (length (filter ((=) ty) (take (nat l) (mc_layer_types c)))))"
  using assms by (simp add: index_for_layer_type_def count_loop_spec require_def)

text \<open>
  C35. A configuration loaded from GGUF metadata validates, and its layer plan is the one the model needs:
  with \<open>n\<close> main layers and interval \<open>k\<close>, layer \<open>l\<close> has full attention exactly when \<open>k\<close> divides \<open>l + 1\<close>; the
  KV storage gets \<open>n div k\<close> layers and the state pool the others; and layer \<open>l\<close> uses KV layer
  \<open>l div k\<close> or state layer \<open>l - l div k\<close>.
\<close>

theorem gguf_layer_plan:
  assumes "gguf_load lim narrow rd = Some (Inr c)"
  shows "model_validate c = Some (Inr ()) \<and>
    num_kv_layers dbg c = Some (mc_n_layers c div mc_full_attention_interval c) \<and>
    num_gdn_layers dbg c = Some (mc_n_layers c - mc_n_layers c div mc_full_attention_interval c) \<and>
    (\<forall>l. 0 \<le> l \<and> l < mc_n_layers c \<longrightarrow>
      (if (l + 1) mod mc_full_attention_interval c = 0
       then mc_layer_types c ! nat l = FullAttention \<and> kv_layer_index dbg c l = Some (l div mc_full_attention_interval c)
       else mc_layer_types c ! nat l = GatedDeltaNet \<and> gdn_layer_index dbg c l = Some (l - l div mc_full_attention_interval c)))"
proof -
  let ?n = "mc_n_layers c" and ?k = "mc_full_attention_interval c"
  note parts = load_hybrid_parts [OF gguf_load_hybrid [OF assms]]
  have k: "0 < ?k" using parts by (simp add: interval_pos)
  have n: "0 < ?n" using parts model_validate_ok(2) by blast
  have types: "mc_layer_types c = layer_types ?n ?k (mc_nextn_predict_layers c)" using parts by blast
  have len: "nat ?n \<le> length (mc_layer_types c)" by (simp add: types layer_types_def)
  have div: "int (nat l div nat ?k) = l div ?k" "int (nat l - nat l div nat ?k) = l - l div ?k" if "0 \<le> l" for l
    using that k by (simp_all add: of_nat_diff zdiv_int)
  have count: "num_kv_layers dbg c = Some (?n div ?k)" "num_gdn_layers dbg c = Some (?n - ?n div ?k)"
    using parts layer_types_rank [of "nat ?n" ?n ?k] k n div [of ?n]
    by (simp_all add: num_kv_layers_def num_gdn_layers_def count_layer_type_def count_loop_spec)
  have "if (l + 1) mod ?k = 0
       then mc_layer_types c ! nat l = FullAttention \<and> kv_layer_index dbg c l = Some (l div ?k)
       else mc_layer_types c ! nat l = GatedDeltaNet \<and> gdn_layer_index dbg c l = Some (l - l div ?k)"
    if l: "0 \<le> l" "l < ?n" for l
  proof -
    have ranks: "length (filter ((=) FullAttention) (take (nat l) (mc_layer_types c))) = nat l div nat ?k"
      "length (filter ((=) GatedDeltaNet) (take (nat l) (mc_layer_types c))) = nat l - nat l div nat ?k"
      unfolding types using l k by (simp_all add: layer_types_rank)
    show ?thesis
      using index_rank [OF _ l len] layer_types_nth [OF l k] parts ranks div [OF l(1)]
      by (simp add: kv_layer_index_def gdn_layer_index_def)
  qed
  with parts count show ?thesis by blast
qed

definition hybrid_reader :: GGUFReader where
  "hybrid_reader = (let u = (\<lambda>w. GGUFMetadataValue VT_U32 (V_U32 w)); f = (\<lambda>w. GGUFMetadataValue VT_F32 (V_F32 w)) in
     \<lparr>rd_data = small_file, rd_data_start = 32, rd_version = 3,
      rd_metadata = [(''general.architecture'', GGUFMetadataValue VT_String (V_String ''qwen35'')),
        (''qwen35.block_count'', u 5), (''qwen35.embedding_length'', u 64), (''qwen35.feed_forward_length'', u 64),
        (''qwen35.attention.head_count'', u 2), (''qwen35.attention.head_count_kv'', u 1), (''qwen35.attention.key_length'', u 32),
        (''qwen35.context_length'', u 128), (''qwen35.full_attention_interval'', u 2), (''qwen35.nextn_predict_layers'', u 1),
        (''qwen35.ssm.conv_kernel'', u 4), (''qwen35.ssm.state_size'', u 16), (''qwen35.ssm.group_count'', u 1),
        (''qwen35.ssm.time_step_rank'', u 2), (''qwen35.ssm.inner_size'', u 32), (''qwen35.rope.freq_base'', f 0x461C4000),
        (''qwen35.rope.dimension_count'', u 32), (''qwen35.attention.layer_norm_rms_epsilon'', f 0x358637BD)],
      rd_tensor_infos = [\<lparr>ti_name = ''token_embd.weight'', ti_dims = [64, 100], ti_type = TT_Q8_0, ti_offset = 0\<rparr>]\<rparr>)"

definition hybrid_loaded :: ModelConfig where
  "hybrid_loaded = hybrid_config\<lparr>mc_full_attention_interval := 2, mc_nextn_predict_layers := 1,
     mc_layer_types := [GatedDeltaNet, FullAttention, GatedDeltaNet, FullAttention, MtpPredictor]\<rparr>"

lemma hybrid_reader_ints:
  "get_int hybrid_reader ''qwen35.block_count'' = Inr 5"
  "get_int hybrid_reader ''qwen35.embedding_length'' = Inr 64"
  "get_int hybrid_reader ''qwen35.feed_forward_length'' = Inr 64"
  "get_int hybrid_reader ''qwen35.attention.head_count'' = Inr 2"
  "get_int hybrid_reader ''qwen35.attention.head_count_kv'' = Inr 1"
  "get_int hybrid_reader ''qwen35.attention.key_length'' = Inr 32"
  "get_int hybrid_reader ''qwen35.context_length'' = Inr 128"
  "get_int hybrid_reader ''qwen35.full_attention_interval'' = Inr 2"
  "get_int hybrid_reader ''qwen35.nextn_predict_layers'' = Inr 1"
  "get_int hybrid_reader ''qwen35.ssm.conv_kernel'' = Inr 4"
  "get_int hybrid_reader ''qwen35.ssm.state_size'' = Inr 16"
  "get_int hybrid_reader ''qwen35.ssm.group_count'' = Inr 1"
  "get_int hybrid_reader ''qwen35.ssm.time_step_rank'' = Inr 2"
  "get_int hybrid_reader ''qwen35.ssm.inner_size'' = Inr 32"
  "get_int hybrid_reader ''qwen35.rope.dimension_count'' = Inr 32"
  by code_simp+

lemma hybrid_reader_rest:
  "get_f32 (\<lambda>_. 0) hybrid_reader ''qwen35.rope.freq_base'' = Inr 0x461C4000"
  "get_f32 (\<lambda>_. 0) hybrid_reader ''qwen35.attention.layer_norm_rms_epsilon'' = Inr 0x358637BD"
  "metadata hybrid_reader ''general.architecture'' = Some (GGUFMetadataValue VT_String (V_String ''qwen35''))"
  "token_embd_rows hybrid_reader = Inr 100" "check_tokens hybrid_reader 100 = Inr ()"
  "layer_types 4 2 1 = [GatedDeltaNet, FullAttention, GatedDeltaNet, FullAttention, MtpPredictor]"
  by code_simp+

lemma hybrid_loaded_ok: "model_validate hybrid_loaded = Some (Inr ())"
  by (simp add: model_validate_def hybrid_loaded_def hybrid_config_def default_model_config_def f32_isfinite_def f32_le_def f32_key_def
      f32_magnitude_def f32_isnan_def INT_MAX_def)

lemma hybrid_reader_loads: "gguf_load \<lparr>lim_stack = 0, lim_reserve = 8\<rparr> (\<lambda>_. 0) hybrid_reader = Some (Inr hybrid_loaded)"
  using hybrid_loaded_ok
  by (simp add: gguf_load_def load_hybrid_def on_value_def hybrid_reader_ints hybrid_reader_rest as_string_def hybrid_loaded_def
      hybrid_config_def default_model_config_def)

theorem gguf_layer_plan_witness:
  "gguf_load \<lparr>lim_stack = 0, lim_reserve = 8\<rparr> (\<lambda>_. 0) hybrid_reader = Some (Inr hybrid_loaded) \<and>
   num_kv_layers True hybrid_loaded = Some 2 \<and> num_gdn_layers True hybrid_loaded = Some 2 \<and> kv_layer_index True hybrid_loaded 3 = Some 1"
proof -
  have c: "mc_n_layers hybrid_loaded = 4" "mc_full_attention_interval hybrid_loaded = 2"
    by (simp_all add: hybrid_loaded_def hybrid_config_def)
  from gguf_layer_plan [OF hybrid_reader_loads, of True]
  have plan: "num_kv_layers True hybrid_loaded = Some (4 div 2) \<and> num_gdn_layers True hybrid_loaded = Some (4 - 4 div 2) \<and>
    (\<forall>l. 0 \<le> l \<and> l < 4 \<longrightarrow> (if (l + 1) mod 2 = 0
       then mc_layer_types hybrid_loaded ! nat l = FullAttention \<and> kv_layer_index True hybrid_loaded l = Some (l div 2)
       else mc_layer_types hybrid_loaded ! nat l = GatedDeltaNet \<and> gdn_layer_index True hybrid_loaded l = Some (l - l div 2)))"
    unfolding c by blast
  then have "kv_layer_index True hybrid_loaded 3 = Some (3 div 2)"
    by (elim conjE allE [of _ 3]) simp
  with plan hybrid_reader_loads show ?thesis by simp
qed

text \<open>
  \<^verbatim>\<open>as_string\<close> is \<^verbatim>\<open>std::get\<close>: metadata that stores the architecture under another type throws out of the
  loader, which otherwise reports every defect of the metadata as an error code.
\<close>

lemma gguf_load_arch_aborts:
  "metadata rd ''general.architecture'' = Some v \<Longrightarrow> as_string v = None \<Longrightarrow> gguf_load lim narrow rd = None"
  by (simp add: gguf_load_def)

end
