(* ===== verification/Json_Value.thy ===== *)
theory Json_Value
  imports Prelude
begin

text \<open>
  Values of \<^verbatim>\<open>nlohmann::json\<close>, as its documentation describes them: the alternatives a parsed document can
  hold and the queries the sources make on them. Numbers are signed or unsigned 64-bit integers or doubles;
  an object is an association list without repeated keys, in the order of iteration. The parser, the
  printer and the conversion to \<^verbatim>\<open>float\<close> are not modelled: they are arguments of the definitions that use them.
\<close>

datatype json =
    J_Null | J_Bool bool | J_Integer int | J_Unsigned nat | J_Float "64 word" | J_String string
  | J_Array "json list" | J_Object "(string \<times> json) list"

fun is_object :: "json \<Rightarrow> bool" where
  "is_object (J_Object _) = True"
| "is_object _ = False"

fun is_array :: "json \<Rightarrow> bool" where
  "is_array (J_Array _) = True"
| "is_array _ = False"

fun is_string :: "json \<Rightarrow> bool" where
  "is_string (J_String _) = True"
| "is_string _ = False"

fun is_number_unsigned :: "json \<Rightarrow> bool" where
  "is_number_unsigned (J_Unsigned _) = True"
| "is_number_unsigned _ = False"

fun is_number_integer :: "json \<Rightarrow> bool" where
  "is_number_integer (J_Integer _) = True"
| "is_number_integer (J_Unsigned _) = True"
| "is_number_integer _ = False"

fun is_number :: "json \<Rightarrow> bool" where
  "is_number (J_Float _) = True"
| "is_number j = is_number_integer j"

fun is_boolean :: "json \<Rightarrow> bool" where
  "is_boolean (J_Bool _) = True"
| "is_boolean _ = False"

text \<open>\<^verbatim>\<open>j[key]\<close> for a key that may be missing; \<^verbatim>\<open>contains\<close> is false on values that are not objects.\<close>

fun member_of :: "json \<Rightarrow> string \<Rightarrow> json option" where
  "member_of (J_Object kvs) key = map_of kvs key"
| "member_of _ key = None"

fun elements :: "json \<Rightarrow> json list" where
  "elements (J_Array js) = js"
| "elements _ = []"

fun items :: "json \<Rightarrow> (string \<times> json) list" where
  "items (J_Object kvs) = kvs"
| "items _ = []"

fun get_string :: "json \<Rightarrow> string" where
  "get_string (J_String s) = s"
| "get_string _ = []"

fun get_bool :: "json \<Rightarrow> bool" where
  "get_bool (J_Bool b) = b"
| "get_bool _ = False"

text \<open>\<^verbatim>\<open>get<int64_t>\<close> converts an unsigned number by a cast.\<close>

fun get_int64 :: "json \<Rightarrow> int" where
  "get_int64 (J_Integer i) = i"
| "get_int64 (J_Unsigned n) = sint (of_nat n :: 64 word)"
| "get_int64 _ = 0"

fun get_uint64 :: "json \<Rightarrow> 64 word" where
  "get_uint64 (J_Unsigned n) = of_nat n"
| "get_uint64 _ = 0"

end
