(* ===== verification/Bpe_Tokenizer.thy ===== *)
theory Bpe_Tokenizer
  imports Gguf_Reader Json_Value "HOL-Library.AList"
begin

unbundle bit_operations_syntax

text \<open>
  The byte-level BPE tokenizer, \<^verbatim>\<open>src/src/tokenizer/byte_level_bpe_tokenizer.{h,cpp}\<close>, and its construction
  from GGUF metadata, \<^verbatim>\<open>src/src/tokenizer/gguf_tokenizer.cpp\<close>. A \<^verbatim>\<open>std::string\<close> is the list of its bytes. A hash
  map is an association list without repeated keys; its order stands for the unspecified order of
  iteration. Reading a file and parsing JSON are arguments.
\<close>

section \<open>Data\<close>

record ByteLevelBpeTokenizer =
  tk_vocab :: "(string \<times> int) list"
  tk_id_to_token :: "(int \<times> string) list"
  tk_merge_rank :: "((string \<times> string) \<times> int) list"
  tk_byte_to_str :: "(byte \<times> string) list"
  tk_str_to_byte :: "(string \<times> byte) list"
  tk_special_token_to_id :: "(string \<times> int) list"
  tk_id_to_special_token :: "(int \<times> string) list"
  tk_max_token_id :: int
  tk_eos_token_id :: int
  tk_pad_token_id :: int
  tk_unk_token_id :: int

definition tokenizer_new :: ByteLevelBpeTokenizer where
  "tokenizer_new = \<lparr>tk_vocab = [], tk_id_to_token = [], tk_merge_rank = [], tk_byte_to_str = [], tk_str_to_byte = [],
     tk_special_token_to_id = [], tk_id_to_special_token = [], tk_max_token_id = -1, tk_eos_token_id = -1,
     tk_pad_token_id = -1, tk_unk_token_id = -1\<rparr>"

definition vocab_size :: "ByteLevelBpeTokenizer \<Rightarrow> int" where
  "vocab_size tk = tk_max_token_id tk + 1"

section \<open>The byte alphabet\<close>

definition char_cast :: "u32 \<Rightarrow> char" where
  "char_cast w = char_of (unat (ucast w :: byte))"

definition utf8_from_codepoint :: "u32 \<Rightarrow> string" where
  "utf8_from_codepoint cp =
     (if cp < 0x80 then [char_cast cp]
      else if cp < 0x800 then [char_cast (0xC0 OR drop_bit 6 cp), char_cast (0x80 OR (cp AND 0x3F))]
      else if cp < 0x10000 then
        [char_cast (0xE0 OR drop_bit 12 cp), char_cast (0x80 OR (drop_bit 6 cp AND 0x3F)), char_cast (0x80 OR (cp AND 0x3F))]
      else
        [char_cast (0xF0 OR drop_bit 18 cp), char_cast (0x80 OR (drop_bit 12 cp AND 0x3F)),
         char_cast (0x80 OR (drop_bit 6 cp AND 0x3F)), char_cast (0x80 OR (cp AND 0x3F))])"

definition add_range :: "nat \<Rightarrow> nat \<Rightarrow> (byte \<times> u32) list" where
  "add_range lo hi = map (\<lambda>b. (of_nat b, of_nat b)) [lo..<Suc hi]"

fun add_missing :: "nat list \<Rightarrow> nat \<Rightarrow> (byte \<times> u32) list \<Rightarrow> (byte \<times> u32) list" where
  "add_missing [] n table = table"
| "add_missing (b # bs) n table =
     (if (of_nat b :: byte) \<notin> fst ` set table then add_missing bs (n + 1) (table @ [(of_nat b, of_nat (256 + n))])
      else add_missing bs n table)"

definition byte_table :: "(byte \<times> u32) list" where
  "byte_table = add_missing [0..<256] 0 (add_range 33 126 @ add_range 161 172 @ add_range 174 255)"

definition build_byte_maps :: "ByteLevelBpeTokenizer \<Rightarrow> ByteLevelBpeTokenizer" where
  "build_byte_maps tk = tk\<lparr>
     tk_byte_to_str := fold (\<lambda>(b, cp) m. AList.update b (utf8_from_codepoint cp) m) byte_table [],
     tk_str_to_byte := fold (\<lambda>(b, cp) m. AList.update (utf8_from_codepoint cp) b m) byte_table []\<rparr>"

section \<open>Loading\<close>

definition add_token :: "string \<Rightarrow> int \<Rightarrow> ByteLevelBpeTokenizer \<Rightarrow> ByteLevelBpeTokenizer" where
  "add_token token tid tk = tk\<lparr>tk_vocab := AList.update token tid (tk_vocab tk),
     tk_id_to_token := AList.update tid token (tk_id_to_token tk),
     tk_max_token_id := (if tid > tk_max_token_id tk then tid else tk_max_token_id tk)\<rparr>"

definition add_special :: "string \<Rightarrow> int \<Rightarrow> ByteLevelBpeTokenizer \<Rightarrow> ByteLevelBpeTokenizer" where
  "add_special token tid tk = tk\<lparr>tk_special_token_to_id := AList.update token tid (tk_special_token_to_id tk),
     tk_id_to_special_token := AList.update tid token (tk_id_to_special_token tk)\<rparr>"

fun load_tokens :: "string list \<Rightarrow> int list \<Rightarrow> nat \<Rightarrow> ByteLevelBpeTokenizer \<Rightarrow> ByteLevelBpeTokenizer" where
  "load_tokens [] types i tk = tk"
| "load_tokens (token # tokens) types i tk = (let tid = int_cast (int i); tk = add_token token tid tk in
     load_tokens tokens types (i + 1)
       (if i < length types then
          if types ! i \<ge> 3 then add_special token tid tk
          else if types ! i = 2 \<and> tk_unk_token_id tk < 0 then tk\<lparr>tk_unk_token_id := tid\<rparr> else tk
        else tk))"

text \<open>\<^verbatim>\<open>merge.find(' ')\<close> and the two substrings around it.\<close>

fun split_space :: "string \<Rightarrow> (string \<times> string) option" where
  "split_space [] = None"
| "split_space (c # cs) = (if c = CHR '' '' then Some ([], cs)
     else case split_space cs of None \<Rightarrow> None | Some (a, b) \<Rightarrow> Some (c # a, b))"

fun load_merges :: "string list \<Rightarrow> int \<Rightarrow> ((string \<times> string) \<times> int) list \<Rightarrow> ((string \<times> string) \<times> int) list" where
  "load_merges [] rank m = m"
| "load_merges (merge # merges) rank m = (case split_space merge of
     None \<Rightarrow> load_merges merges rank m
   | Some pair \<Rightarrow> load_merges merges (rank + 1) (AList.update pair rank m))"

definition load_from_vocab_and_merges ::
  "string list \<Rightarrow> string list \<Rightarrow> int list \<Rightarrow> int \<Rightarrow> int \<Rightarrow> ByteLevelBpeTokenizer result" where
  "load_from_vocab_and_merges tokens merges token_types eos pad = (let
     tk = load_tokens tokens token_types 0 tokenizer_new;
     tk = tk\<lparr>tk_merge_rank := load_merges merges 0 [], tk_eos_token_id := eos, tk_pad_token_id := pad\<rparr>;
     tk = build_byte_maps tk in
     if tk_vocab tk = [] then Inl ModelLoadFailed else Inr tk)"

definition INT32_MAX :: int where
  "INT32_MAX = 2147483647"

fun parse_vocab_items :: "(string \<times> json) list \<Rightarrow> ByteLevelBpeTokenizer \<Rightarrow> ByteLevelBpeTokenizer result" where
  "parse_vocab_items [] tk = Inr tk"
| "parse_vocab_items ((token, id_val) # kvs) tk =
     (if \<not> is_number_integer id_val then Inl ModelLoadFailed
      else let raw = get_int64 id_val in
        if raw < 0 \<or> raw \<ge> INT32_MAX then Inl ModelLoadFailed
        else parse_vocab_items kvs (add_token token raw tk))"

definition parse_vocab :: "json \<Rightarrow> ByteLevelBpeTokenizer \<Rightarrow> ByteLevelBpeTokenizer result" where
  "parse_vocab model tk = (case member_of model ''vocab'' of
     None \<Rightarrow> Inl ModelLoadFailed
   | Some v \<Rightarrow> if \<not> is_object v then Inl ModelLoadFailed else parse_vocab_items (items v) tk)"

fun merge_pair :: "json \<Rightarrow> (string \<times> string) option result" where
  "merge_pair (J_String merge) = Inr (split_space merge)"
| "merge_pair (J_Array [J_String a, J_String b]) = Inr (Some (a, b))"
| "merge_pair _ = Inl ModelLoadFailed"

fun parse_merge_items :: "json list \<Rightarrow> int \<Rightarrow> ((string \<times> string) \<times> int) list \<Rightarrow> ((string \<times> string) \<times> int) list result" where
  "parse_merge_items [] rank m = Inr m"
| "parse_merge_items (j # js) rank m = (case merge_pair j of
     Inl e \<Rightarrow> Inl e
   | Inr None \<Rightarrow> parse_merge_items js rank m
   | Inr (Some pair) \<Rightarrow> parse_merge_items js (rank + 1) (AList.update pair rank m))"

definition parse_merges :: "json \<Rightarrow> ByteLevelBpeTokenizer \<Rightarrow> ByteLevelBpeTokenizer result" where
  "parse_merges model tk = (case member_of model ''merges'' of
     None \<Rightarrow> Inr tk
   | Some v \<Rightarrow> if \<not> is_array v then Inr tk
       else case parse_merge_items (elements v) 0 (tk_merge_rank tk) of
         Inl e \<Rightarrow> Inl e
       | Inr m \<Rightarrow> Inr (tk\<lparr>tk_merge_rank := m\<rparr>))"

definition added_token :: "string \<Rightarrow> int \<Rightarrow> bool \<Rightarrow> ByteLevelBpeTokenizer \<Rightarrow> ByteLevelBpeTokenizer" where
  "added_token content tid is_special tk = (let
     tk = add_token content tid tk;
     tk = (if is_special then add_special content tid tk else tk) in
     if content \<in> {''</s>'', ''<|end_of_text|>'', ''<|endoftext|>'', ''<|im_end|>''} then tk\<lparr>tk_eos_token_id := tid\<rparr>
     else if content \<in> {''<unk>'', ''[UNK]''} then tk\<lparr>tk_unk_token_id := tid\<rparr>
     else tk)"

fun parse_added_items :: "json list \<Rightarrow> ByteLevelBpeTokenizer \<Rightarrow> ByteLevelBpeTokenizer" where
  "parse_added_items [] tk = tk"
| "parse_added_items (tok # toks) tk = parse_added_items toks
     (case (member_of tok ''content'', member_of tok ''id'') of
        (Some content, Some tid) \<Rightarrow>
          if \<not> is_string content \<or> \<not> is_number_integer tid then tk
          else let raw = get_int64 tid in
            if raw < 0 \<or> raw \<ge> INT32_MAX then tk
            else added_token (get_string content) raw
              (case member_of tok ''special'' of None \<Rightarrow> False | Some b \<Rightarrow> is_boolean b \<and> get_bool b) tk
      | _ \<Rightarrow> tk)"

definition parse_added_tokens :: "json \<Rightarrow> ByteLevelBpeTokenizer \<Rightarrow> ByteLevelBpeTokenizer" where
  "parse_added_tokens j tk = (case member_of j ''added_tokens'' of
     None \<Rightarrow> tk
   | Some v \<Rightarrow> if is_array v then parse_added_items (elements v) tk else tk)"

definition set_if_exists :: "ByteLevelBpeTokenizer \<Rightarrow> string \<Rightarrow> int \<Rightarrow> int" where
  "set_if_exists tk token dst = (case map_of (tk_vocab tk) token of
     None \<Rightarrow> dst
   | Some tid \<Rightarrow> if dst < 0 then tid else dst)"

definition resolve_special_tokens :: "ByteLevelBpeTokenizer \<Rightarrow> ByteLevelBpeTokenizer" where
  "resolve_special_tokens tk = tk\<lparr>
     tk_eos_token_id := fold (set_if_exists tk) [''</s>'', ''<|end_of_text|>'', ''<|endoftext|>'', ''<|im_end|>''] (tk_eos_token_id tk),
     tk_unk_token_id := fold (set_if_exists tk) [''<unk>'', ''[UNK]''] (tk_unk_token_id tk)\<rparr>"

text \<open>
  \<^verbatim>\<open>load\<close>: \<open>data\<close> is what \<^verbatim>\<open>read_file\<close> returned and \<open>parse\<close> the JSON parser, \<^term>\<open>None\<close> for a discarded
  document. An error leaves the maps cleared or partly filled; the object is dropped by the caller.
\<close>

definition tokenizer_load :: "(string \<Rightarrow> json option) \<Rightarrow> string \<Rightarrow> ByteLevelBpeTokenizer result" where
  "tokenizer_load parse data =
     (if data = [] then Inl ModelLoadFailed
      else case parse data of
        None \<Rightarrow> Inl ModelLoadFailed
      | Some j \<Rightarrow> (case member_of j ''model'' of
          None \<Rightarrow> Inl ModelLoadFailed
        | Some model \<Rightarrow>
            if \<not> is_object model then Inl ModelLoadFailed
            else if (case member_of model ''type'' of None \<Rightarrow> False | Some t \<Rightarrow> is_string t \<and> get_string t \<noteq> ''BPE'')
            then Inl ModelUnsupportedArch
            else case parse_vocab model tokenizer_new of
              Inl e \<Rightarrow> Inl e
            | Inr tk \<Rightarrow> (case parse_merges model tk of
                Inl e \<Rightarrow> Inl e
              | Inr tk \<Rightarrow> (let tk = build_byte_maps (resolve_special_tokens (parse_added_tokens j tk)) in
                  if tk_vocab tk = [] then Inl ModelLoadFailed else Inr tk))))"

section \<open>Merging\<close>

text \<open>A byte without a symbol would dereference the end iterator.\<close>

fun byte_encode_segment :: "bool \<Rightarrow> ByteLevelBpeTokenizer \<Rightarrow> string \<Rightarrow> string list option" where
  "byte_encode_segment dbg tk [] = Some []"
| "byte_encode_segment dbg tk (c # cs) = (let it = map_of (tk_byte_to_str tk) (of_char c) in do {
     assert_that dbg (it \<noteq> None);
     sym \<leftarrow> it;
     syms \<leftarrow> byte_encode_segment dbg tk cs;
     Some (sym # syms)
   })"

text \<open>The search for the lowest rank: \<open>i\<close> is the index of the head of the list.\<close>

fun best_loop :: "((string \<times> string) \<times> int) list \<Rightarrow> string list \<Rightarrow> nat \<Rightarrow> int \<Rightarrow> nat \<Rightarrow> int \<times> nat" where
  "best_loop m (a # b # xs) i best_rank best_pos = (case map_of m (a, b) of
     Some r \<Rightarrow> if r < best_rank then best_loop m (b # xs) (i + 1) r i else best_loop m (b # xs) (i + 1) best_rank best_pos
   | None \<Rightarrow> best_loop m (b # xs) (i + 1) best_rank best_pos)"
| "best_loop m _ i best_rank best_pos = (best_rank, best_pos)"

fun merge_pass :: "((string \<times> string) \<times> int) list \<Rightarrow> int \<Rightarrow> string list \<Rightarrow> string list" where
  "merge_pass m r (a # b # xs) =
     (if map_of m (a, b) = Some r then (a @ b) # merge_pass m r xs else a # merge_pass m r (b # xs))"
| "merge_pass m r xs = xs"

lemma length_merge_pass: "length (merge_pass m r xs) \<le> length xs"
  by (induction m r xs rule: merge_pass.induct) auto

text \<open>\<open>ranked m xs j r\<close>: the symbols \<open>j\<close> and \<open>j + 1\<close> of \<open>xs\<close> can be merged with rank \<open>r\<close>.\<close>

definition ranked :: "((string \<times> string) \<times> int) list \<Rightarrow> string list \<Rightarrow> nat \<Rightarrow> int \<Rightarrow> bool" where
  "ranked m xs j r \<longleftrightarrow> Suc j < length xs \<and> map_of m (xs ! j, xs ! Suc j) = Some r"

lemma ranked_simps [simp]:
  "ranked m (a # b # xs) 0 r \<longleftrightarrow> map_of m (a, b) = Some r"
  "ranked m (a # b # xs) (Suc j) r \<longleftrightarrow> ranked m (b # xs) j r"
  "\<not> ranked m [] j r" "\<not> ranked m [a] j r"
  by (auto simp: ranked_def)

lemma best_loop_min:
  "best_loop m xs i r0 p0 = (r, p) \<Longrightarrow> r \<le> r0 \<and> (\<forall>j r'. ranked m xs j r' \<longrightarrow> r \<le> r')"
proof (induction m xs i r0 p0 rule: best_loop.induct)
  case (1 m a b xs i r0 p0)
  have "r \<le> r0 \<and> (\<forall>j r'. ranked m (b # xs) j r' \<longrightarrow> r \<le> r') \<and> (\<forall>r'. map_of m (a, b) = Some r' \<longrightarrow> r \<le> r')"
    using 1 by (cases "map_of m (a, b)") (auto split: if_splits)
  then show ?case
    by (metis ranked_simps(1,2) nat.exhaust)
qed auto

lemma best_loop_pos:
  "best_loop m xs i r0 p0 = (r, p) \<Longrightarrow> (r = r0 \<and> p = p0) \<or> (\<exists>j. ranked m xs j r \<and> p = i + j)"
proof (induction m xs i r0 p0 rule: best_loop.induct)
  case (1 m a b xs i r0 p0)
  have shift: "\<exists>j. ranked m (a # b # xs) j r \<and> p = i + j" if "ranked m (b # xs) j r" "p = i + 1 + j" for j
    using that by (intro exI [of _ "Suc j"]) simp
  show ?case
  proof (cases "\<exists>r'. map_of m (a, b) = Some r' \<and> r' < r0")
    case True
    then obtain r' where r': "map_of m (a, b) = Some r'" "r' < r0" by blast
    then have "(r = r' \<and> p = i) \<or> (\<exists>j. ranked m (b # xs) j r \<and> p = i + 1 + j)"
      using "1.IH"(2) [OF r'] "1.prems" by simp
    then show ?thesis
      using shift r'(1) by (auto intro: exI [of _ 0])
  next
    case False
    then have "best_loop m (b # xs) (i + 1) r0 p0 = (r, p)"
      using "1.prems" by (auto split: option.splits if_splits)
    then have "(r = r0 \<and> p = p0) \<or> (\<exists>j. ranked m (b # xs) j r \<and> p = i + 1 + j)"
      using "1.IH"(1,3) False by (cases "map_of m (a, b)") auto
    then show ?thesis using shift by auto
  qed
qed auto

lemma merge_pass_shorter: "ranked m xs j r \<Longrightarrow> length (merge_pass m r xs) < length xs"
proof (induction m r xs arbitrary: j rule: merge_pass.induct)
  case (1 m r a b xs)
  show ?case
  proof (cases "map_of m (a, b) = Some r")
    case True
    then show ?thesis using length_merge_pass [of m r xs] by simp
  next
    case False
    with 1 show ?thesis by (cases j) auto
  qed
qed auto

lemma merge_pass_less:
  assumes "best_loop m xs 0 r0 (length xs) = (r, p)" "p \<noteq> length xs"
  shows "length (merge_pass m r xs) < length xs"
  using best_loop_pos [OF assms(1)] assms(2) merge_pass_shorter by blast

function apply_bpe :: "((string \<times> string) \<times> int) list \<Rightarrow> string list \<Rightarrow> string list" where
  "apply_bpe m symbols =
     (if length symbols \<ge> 2 then
        (case best_loop m symbols 0 INT32_MAX (length symbols) of (best_rank, best_pos) \<Rightarrow>
           if best_pos = length symbols then symbols else apply_bpe m (merge_pass m best_rank symbols))
      else symbols)"
  by pat_completeness auto
termination
  by (relation "measure (\<lambda>(m, symbols). length symbols)") (auto dest: merge_pass_less [OF sym])

declare apply_bpe.simps [simp del]

fun lookup_ids :: "ByteLevelBpeTokenizer \<Rightarrow> string list \<Rightarrow> int list result" where
  "lookup_ids tk [] = Inr []"
| "lookup_ids tk (s # ss) = (case map_of (tk_vocab tk) s of
     Some i \<Rightarrow> (case lookup_ids tk ss of Inl e \<Rightarrow> Inl e | Inr ids \<Rightarrow> Inr (i # ids))
   | None \<Rightarrow> if tk_unk_token_id tk \<ge> 0
       then (case lookup_ids tk ss of Inl e \<Rightarrow> Inl e | Inr ids \<Rightarrow> Inr (tk_unk_token_id tk # ids))
       else Inl ModelLoadFailed)"

definition encode_normal_segment :: "bool \<Rightarrow> ByteLevelBpeTokenizer \<Rightarrow> string \<Rightarrow> int list result option" where
  "encode_normal_segment dbg tk text = do {
     symbols \<leftarrow> byte_encode_segment dbg tk text;
     Some (lookup_ids tk (apply_bpe (tk_merge_rank tk) symbols))
   }"

section \<open>Special tokens\<close>

definition starts_with_at :: "string \<Rightarrow> nat \<Rightarrow> string \<Rightarrow> bool" where
  "starts_with_at text pos pattern = (if length pattern > length text \<or> pos > length text - length pattern then False
     else take (length pattern) (drop pos text) = pattern)"

fun match_loop :: "(string \<times> int) list \<Rightarrow> string \<Rightarrow> nat \<Rightarrow> string \<Rightarrow> int \<Rightarrow> string \<times> int" where
  "match_loop [] text pos best_token best_id = (best_token, best_id)"
| "match_loop ((tok, i) # toks) text pos best_token best_id =
     (if tok = [] \<or> length tok \<le> length best_token then match_loop toks text pos best_token best_id
      else if starts_with_at text pos tok then match_loop toks text pos tok i
      else match_loop toks text pos best_token best_id)"

text \<open>\<^verbatim>\<open>best_len\<close> is the length of \<^verbatim>\<open>best_token\<close> throughout.\<close>

definition try_match_special :: "ByteLevelBpeTokenizer \<Rightarrow> string \<Rightarrow> nat \<Rightarrow> (string \<times> int) option" where
  "try_match_special tk text pos = (case match_loop (tk_special_token_to_id tk) text pos [] (-1) of (tok, i) \<Rightarrow>
     if length tok = 0 then None else Some (tok, i))"

section \<open>Encoding\<close>

definition is_space :: "char \<Rightarrow> bool" where
  "is_space c \<longleftrightarrow> c = CHR '' '' \<or> c = char_of (9 :: nat)"

definition is_newline :: "char \<Rightarrow> bool" where
  "is_newline c \<longleftrightarrow> c = char_of (10 :: nat) \<or> c = char_of (13 :: nat)"

text \<open>\<^verbatim>\<open>while (pos < text.size() && p(text[pos])) ++pos\<close>.\<close>

definition skip_while :: "(char \<Rightarrow> bool) \<Rightarrow> string \<Rightarrow> nat \<Rightarrow> nat" where
  "skip_while p text pos = pos + length (takeWhile p (drop pos text))"

fun has_next_loop :: "ByteLevelBpeTokenizer \<Rightarrow> string \<Rightarrow> nat list \<Rightarrow> bool" where
  "has_next_loop tk text [] = False"
| "has_next_loop tk text (k # ks) =
     (if try_match_special tk text k \<noteq> None then False
      else if \<not> is_space (text ! k) \<and> \<not> is_newline (text ! k) then True
      else has_next_loop tk text ks)"

definition flush_bpe :: "bool \<Rightarrow> ByteLevelBpeTokenizer \<Rightarrow> string \<Rightarrow> nat \<Rightarrow> nat \<Rightarrow> int list \<Rightarrow> int list result option" where
  "flush_bpe dbg tk text begin end ids = (if end \<le> begin then Some (Inr ids)
     else and_try (encode_normal_segment dbg tk (take (end - begin) (drop begin text))) (\<lambda>seg_ids. Some (Inr (ids @ seg_ids))))"

lemma skip_while_greater: "pos < length text \<Longrightarrow> p (text ! pos) \<Longrightarrow> pos < skip_while p text pos"
  by (simp add: skip_while_def takeWhile_eq_Nil_iff hd_drop_conv_nth)

lemma try_match_nonempty: "try_match_special tk text pos = Some (tok, i) \<Longrightarrow> tok \<noteq> []"
  by (auto simp: try_match_special_def split: prod.splits if_splits)

function encode_loop :: "bool \<Rightarrow> ByteLevelBpeTokenizer \<Rightarrow> string \<Rightarrow> nat \<Rightarrow> nat \<Rightarrow> int list \<Rightarrow> int list result option" where
  "encode_loop dbg tk text pos segment_start ids =
     (if pos < length text then
        (case try_match_special tk text pos of
           Some (tok, i) \<Rightarrow> and_try (flush_bpe dbg tk text segment_start pos ids) (\<lambda>ids.
             encode_loop dbg tk text (pos + length tok) (pos + length tok) (ids @ [i]))
         | None \<Rightarrow>
             if is_newline (text ! pos) then
               and_try (flush_bpe dbg tk text segment_start pos ids) (\<lambda>ids.
               let after = skip_while is_newline text pos in
               and_try (flush_bpe dbg tk text pos after ids) (\<lambda>ids. encode_loop dbg tk text after after ids))
             else if is_space (text ! pos) then
               and_try (flush_bpe dbg tk text segment_start pos ids) (\<lambda>ids.
               let space_end = skip_while is_space text pos; space_len = space_end - pos in
               if \<not> has_next_loop tk text [space_end..<length text] then
                 and_try (flush_bpe dbg tk text pos space_end ids) (\<lambda>ids. encode_loop dbg tk text space_end space_end ids)
               else if space_len = 1 then encode_loop dbg tk text space_end pos ids
               else let split_at = pos + space_len - 1 in
                 and_try (flush_bpe dbg tk text pos split_at ids) (\<lambda>ids. encode_loop dbg tk text space_end split_at ids))
             else encode_loop dbg tk text (pos + 1) segment_start ids)
      else flush_bpe dbg tk text segment_start (length text) ids)"
  by pat_completeness auto
termination
  by (relation "measure (\<lambda>(dbg, tk, text, pos, segment_start, ids). length text - pos)")
    (auto intro!: skip_while_greater diff_less_mono2 dest: try_match_nonempty)

declare encode_loop.simps [simp del]

definition encode :: "bool \<Rightarrow> ByteLevelBpeTokenizer \<Rightarrow> string \<Rightarrow> int list result option" where
  "encode dbg tk text = (if tk_vocab tk = [] then Some (Inl ModelLoadFailed) else encode_loop dbg tk text 0 0 [])"

section \<open>Decoding\<close>

fun symbol_stream :: "ByteLevelBpeTokenizer \<Rightarrow> bool \<Rightarrow> int list \<Rightarrow> string result" where
  "symbol_stream tk skip [] = Inr []"
| "symbol_stream tk skip (i # ids) = (case map_of (tk_id_to_special_token tk) i of
     Some tok \<Rightarrow> (case symbol_stream tk skip ids of Inl e \<Rightarrow> Inl e | Inr s \<Rightarrow> Inr ((if skip then [] else tok) @ s))
   | None \<Rightarrow> (case map_of (tk_id_to_token tk) i of
       None \<Rightarrow> Inl ModelLoadFailed
     | Some tok \<Rightarrow> (case symbol_stream tk skip ids of Inl e \<Rightarrow> Inl e | Inr s \<Rightarrow> Inr (tok @ s))))"

definition utf8_len :: "char \<Rightarrow> nat option" where
  "utf8_len ch = (let c = (of_char ch :: byte) in
     if c AND 0x80 = 0 then Some 1
     else if c AND 0xE0 = 0xC0 then Some 2
     else if c AND 0xF0 = 0xE0 then Some 3
     else if c AND 0xF8 = 0xF0 then Some 4
     else None)"

lemma utf8_len_pos: "utf8_len c = Some n \<Longrightarrow> 0 < n"
  by (auto simp: utf8_len_def Let_def split: if_splits)

function decode_symbols :: "ByteLevelBpeTokenizer \<Rightarrow> bool \<Rightarrow> string \<Rightarrow> string result" where
  "decode_symbols tk skip [] = Inr []"
| "decode_symbols tk skip (c # cs) = (case utf8_len c of
     None \<Rightarrow> Inl ModelLoadFailed
   | Some len \<Rightarrow>
       if len > length (c # cs) then Inl ModelLoadFailed
       else let ch = take len (c # cs) in
         case map_of (tk_str_to_byte tk) ch of
           None \<Rightarrow> if \<not> skip
             then (case decode_symbols tk skip (drop len (c # cs)) of Inl e \<Rightarrow> Inl e | Inr s \<Rightarrow> Inr (ch @ s))
             else Inl ModelLoadFailed
         | Some b \<Rightarrow> (case decode_symbols tk skip (drop len (c # cs)) of Inl e \<Rightarrow> Inl e | Inr s \<Rightarrow> Inr (char_of (unat b) # s)))"
  by pat_completeness auto
termination
  by (relation "measure (\<lambda>(tk, skip, s). length s)") (auto dest!: utf8_len_pos)

declare decode_symbols.simps(2) [simp del]

definition decode :: "ByteLevelBpeTokenizer \<Rightarrow> int list \<Rightarrow> bool \<Rightarrow> string result" where
  "decode tk token_ids skip = (if tk_id_to_token tk = [] then Inl ModelLoadFailed
     else case symbol_stream tk skip token_ids of
       Inl e \<Rightarrow> Inl e
     | Inr stream \<Rightarrow> decode_symbols tk skip stream)"

end
