(* ===== verification/Bpe_Roundtrip.thy ===== *)
theory Bpe_Roundtrip
  imports Bpe_Correct
begin

unbundle bit_operations_syntax

text \<open>The byte alphabet of the tokenizer: every byte has one symbol, and a symbol is read back as its byte.\<close>

section \<open>The byte alphabet\<close>

lemma map_of_fold_update:
  "map_of (fold (\<lambda>e. AList.update (f e) (g e)) es al) = map_of (rev (map (\<lambda>e. (f e, g e)) es) @ al)"
  by (induction es arbitrary: al) (simp_all add: update_conv' map_add_def fun_eq_iff split: option.splits)

lemma map_of_built:
  assumes "distinct (map f es)"
  shows "map_of (fold (\<lambda>e. AList.update (f e) (g e)) es []) k = Some v \<longleftrightarrow> (\<exists>e \<in> set es. f e = k \<and> g e = v)"
proof -
  have "distinct (map fst (rev (map (\<lambda>e. (f e, g e)) es)))"
    using assms by (simp add: rev_map [symmetric] o_def)
  then show ?thesis
    by (auto simp: map_of_fold_update map_of_eq_Some_iff)
qed

text \<open>Entries of the table: printable bytes stand for themselves, the others for code points from 256 on.\<close>

definition entry_ok :: "byte \<times> u32 \<Rightarrow> bool" where
  "entry_ok e \<longleftrightarrow> unat (snd e) < 0x800 \<and> (unat (snd e) = unat (fst e) \<or> 256 \<le> unat (snd e))"

lemma add_missing_ok:
  assumes "distinct (map fst table)" "distinct (map snd table)" "\<forall>e \<in> set table. entry_ok e \<and> unat (snd e) < 256 + n"
    "256 + n + length bs \<le> 0x800"
  shows "distinct (map fst (add_missing bs n table)) \<and> distinct (map snd (add_missing bs n table)) \<and>
    (\<forall>e \<in> set (add_missing bs n table). entry_ok e) \<and>
    fst ` set (add_missing bs n table) = fst ` set table \<union> of_nat ` set bs"
  using assms
proof (induction bs n table rule: add_missing.induct)
  case (2 b bs n table)
  show ?case
  proof (cases "(of_nat b :: byte) \<in> fst ` set table")
    case True
    then have step: "add_missing (b # bs) n table = add_missing bs n table" by simp
    have "256 + n + length bs \<le> 0x800" using "2.prems"(4) by simp
    from "2.IH"(2) [OF _ "2.prems"(1-3) this] True show ?thesis
      unfolding step by (simp add: insert_absorb)
  next
    case False
    let ?t = "table @ [(of_nat b, of_nat (256 + n))]"
    have step: "add_missing (b # bs) n table = add_missing bs (n + 1) ?t" using False by simp
    have n: "unat (of_nat (256 + n) :: u32) = 256 + n"
      using "2.prems"(4) by (simp only: unat_of_nat) simp
    have "of_nat (256 + n) \<notin> snd ` set table"
    proof
      assume "of_nat (256 + n) \<in> snd ` set table"
      then obtain e where e: "e \<in> set table" "of_nat (256 + n) = snd e" by blast
      have "unat (snd e) < 256 + n" using "2.prems"(3) e(1) by blast
      with n show False unfolding e(2) by simp
    qed
    then have d: "distinct (map fst ?t)" "distinct (map snd ?t)"
      using "2.prems"(1,2) False by simp_all
    have ok: "\<forall>e \<in> set ?t. entry_ok e \<and> unat (snd e) < 256 + (n + 1)"
    proof
      fix e assume "e \<in> set ?t"
      then consider "e \<in> set table" | "e = (of_nat b, of_nat (256 + n))" by auto
      then show "entry_ok e \<and> unat (snd e) < 256 + (n + 1)"
      proof cases
        case 1
        then have "entry_ok e \<and> unat (snd e) < 256 + n" using "2.prems"(3) by blast
        then show ?thesis by simp
      next
        case 2
        then show ?thesis using n "2.prems"(4) by (simp only: entry_ok_def snd_conv n) simp
      qed
    qed
    have len: "256 + (n + 1) + length bs \<le> 0x800" using "2.prems"(4) by simp
    have eq: "fst ` set ?t \<union> of_nat ` set bs = fst ` set table \<union> of_nat ` set (b # bs)" by auto
    show ?thesis unfolding step by (rule "2.IH"(1) [OF False d ok len, unfolded eq])
  qed
qed simp

lemma range_ok:
  assumes "distinct ns" "\<forall>n \<in> set ns. n < 256"
  shows "distinct (map (of_nat :: nat \<Rightarrow> byte) ns)" "distinct (map (of_nat :: nat \<Rightarrow> u32) ns)"
    "\<forall>n \<in> set ns. entry_ok (of_nat n, of_nat n) \<and> unat (of_nat n :: u32) < 256"
proof -
  have "inj_on (of_nat :: nat \<Rightarrow> byte) (set ns)" "inj_on (of_nat :: nat \<Rightarrow> u32) (set ns)"
    using assms(2) by (auto intro!: inj_on_inverseI [where g = unat] simp: unat_of_nat)
  then show "distinct (map (of_nat :: nat \<Rightarrow> byte) ns)" "distinct (map (of_nat :: nat \<Rightarrow> u32) ns)"
    using assms(1) by (simp_all add: distinct_map)
  show "\<forall>n \<in> set ns. entry_ok (of_nat n, of_nat n) \<and> unat (of_nat n :: u32) < 256"
    using assms(2) by (auto simp: entry_ok_def unat_of_nat)
qed

lemma byte_table_ok:
  "distinct (map fst byte_table)" "distinct (map snd byte_table)" "\<forall>e \<in> set byte_table. entry_ok e" "fst ` set byte_table = UNIV"
proof -
  define ns :: "nat list" where "ns = [33..<127] @ [161..<173] @ [174..<256]"
  let ?t = "add_range 33 126 @ add_range 161 172 @ add_range 174 255"
  have t: "?t = map (\<lambda>b. (of_nat b, of_nat b)) ns"
    unfolding ns_def by (simp add: add_range_def)
  have ns: "distinct ns" "\<forall>n \<in> set ns. n < 256"
    unfolding ns_def by (simp_all only: distinct_append distinct_upt set_append set_upt) auto
  have "distinct (map fst ?t)" "distinct (map snd ?t)" "\<forall>e \<in> set ?t. entry_ok e \<and> unat (snd e) < 256 + 0"
    unfolding t using range_ok [OF ns] by (simp_all add: o_def)
  note ok = add_missing_ok [OF this, of "[0..<256]", folded byte_table_def, simplified]
  then show "distinct (map fst byte_table)" "distinct (map snd byte_table)" "\<forall>e \<in> set byte_table. entry_ok e" by simp_all
  have "w \<in> fst ` set byte_table" for w :: byte
  proof -
    have "unat w < 256" using unsigned_less [of w, where 'a = nat] by simp
    then have "w \<in> of_nat ` {0..<256}" by (intro image_eqI [of _ _ "unat w"]) simp_all
    then show ?thesis using ok by auto
  qed
  then show "fst ` set byte_table = UNIV" by blast
qed

lemma or_high:
  fixes x a :: u32
  assumes "unat x < 2 ^ k" "k \<le> m"
  shows "push_bit m a OR x = push_bit m a + x"
proof -
  have "take_bit k x = x"
    using assms(1) by (intro word_unat_eq_iff [THEN iffD2]) (simp add: unsigned_take_bit_eq take_bit_nat_eq_self)
  then have "bit x n \<Longrightarrow> n < k" for n by (metis bit_take_bit_iff)
  then have "push_bit m a AND x = 0"
    using assms(2) by (intro bit_word_eqI) (fastforce simp: bit_simps)
  then show ?thesis by (simp add: disjunctive_add_eq_or)
qed

lemma char_cast_unat: "unat w < 256 \<Longrightarrow> char_cast w = char_of (unat w)"
  by (simp add: char_cast_def unsigned_ucast_eq take_bit_eq_mod)

lemma utf8_one: "unat cp < 0x80 \<Longrightarrow> utf8_from_codepoint cp = [char_of (unat cp)]"
  by (simp add: utf8_from_codepoint_def word_less_nat_alt char_cast_unat)

lemma utf8_two:
  assumes "0x80 \<le> unat cp" "unat cp < 0x800"
  shows "utf8_from_codepoint cp = [char_of (192 + unat cp div 64), char_of (128 + unat cp mod 64)]"
proof -
  have hi: "unat (drop_bit 6 cp) = unat cp div 64"
    using assms(2) by (simp only: unsigned_drop_bit_eq) (simp add: drop_bit_eq_div take_bit_eq_mod)
  have lo: "unat (cp AND 0x3F) = unat cp mod 64"
  proof -
    have "cp AND 0x3F = take_bit 6 cp" by (simp add: take_bit_eq_mask mask_eq_exp_minus_1)
    then have "unat (cp AND 0x3F) = take_bit 6 (unat cp)" by (simp only: unsigned_take_bit_eq)
    then show ?thesis by (simp add: take_bit_eq_mod)
  qed
  have "0xC0 OR drop_bit 6 cp = push_bit 6 3 + drop_bit 6 cp"
    using or_high [of "drop_bit 6 cp" 5 6 3] hi assms(2) by simp
  moreover have "0x80 OR (cp AND 0x3F) = push_bit 6 2 + (cp AND 0x3F)"
    using or_high [of "cp AND 0x3F" 6 6 2] lo by simp
  ultimately have "unat (0xC0 OR drop_bit 6 cp) = 192 + unat cp div 64" "unat (0x80 OR (cp AND 0x3F)) = 128 + unat cp mod 64"
    using hi lo assms(2) by (simp_all add: unat_word_ariths)
  then show ?thesis
    using assms by (simp add: utf8_from_codepoint_def word_less_nat_alt char_cast_unat)
qed

text \<open>The symbol of a byte: one ASCII character or a two-byte sequence, different for different code points.\<close>

lemma utf8_inj:
  assumes "unat a < 0x800" "unat b < 0x800" "utf8_from_codepoint a = utf8_from_codepoint b"
  shows "a = b"
proof -
  have two: "x div 64 = y div 64 \<and> x mod 64 = y mod 64"
    if "x < 0x800" "y < 0x800" "char_of (192 + x div 64) = (char_of (192 + y div 64) :: char)"
      "char_of (128 + x mod 64) = (char_of (128 + y mod 64) :: char)" for x y :: nat
  proof -
    have "x div 64 < 32" "x mod 64 < 64" "y div 64 < 32" using that(1,2) by (simp_all add: less_mult_imp_div_less)
    then show ?thesis using that(3,4) by (simp add: char_of_eq_iff take_bit_eq_mod)
  qed
  have "unat a = unat b"
  proof (cases "unat a < 0x80"; cases "unat b < 0x80")
    assume "unat a < 0x80" "unat b < 0x80"
    then show ?thesis using assms(3) by (auto simp: utf8_one dest!: arg_cong [where f = "of_char :: char \<Rightarrow> nat"])
  next
    assume "\<not> unat a < 0x80" "\<not> unat b < 0x80"
    then have "unat a div 64 = unat b div 64 \<and> unat a mod 64 = unat b mod 64"
      using assms two by (simp add: utf8_two)
    then show ?thesis by (metis div_mult_mod_eq)
  qed (use assms in \<open>simp_all add: utf8_one utf8_two\<close>)
  then show ?thesis by (simp add: word_unat_eq_iff)
qed

definition byte_sym :: "byte \<Rightarrow> string" where
  "byte_sym b = utf8_from_codepoint (the (map_of byte_table b))"

lemma byte_entry: "(b, the (map_of byte_table b)) \<in> set byte_table"
proof -
  have "b \<in> fst ` set byte_table" by (simp add: byte_table_ok(4))
  then obtain cp where "map_of byte_table b = Some cp"
    by (metis map_of_eq_None_iff not_Some_eq)
  then show ?thesis by (simp add: map_of_SomeD)
qed

lemma byte_maps:
  "map_of (tk_byte_to_str (build_byte_maps tk)) b = Some (byte_sym b)"
  "map_of (tk_str_to_byte (build_byte_maps tk)) s = Some b \<longleftrightarrow> s = byte_sym b"
proof -
  have cps: "inj_on utf8_from_codepoint (snd ` set byte_table)"
    using byte_table_ok(3) by (auto intro!: inj_onI utf8_inj simp: entry_ok_def)
  have strs: "distinct (map (\<lambda>e. utf8_from_codepoint (snd e)) byte_table)"
  proof -
    have "distinct (map utf8_from_codepoint (map snd byte_table))"
      using byte_table_ok(2) cps by (subst distinct_map) simp
    then show ?thesis by (simp add: o_def)
  qed
  have "map_of (tk_byte_to_str (build_byte_maps tk)) b = Some (byte_sym b) \<longleftrightarrow>
      (\<exists>e \<in> set byte_table. fst e = b \<and> utf8_from_codepoint (snd e) = byte_sym b)"
    using map_of_built [OF byte_table_ok(1)] by (simp add: build_byte_maps_def case_prod_beta')
  then show "map_of (tk_byte_to_str (build_byte_maps tk)) b = Some (byte_sym b)"
    using bexI [OF _ byte_entry [of b], of "\<lambda>e. fst e = b \<and> utf8_from_codepoint (snd e) = byte_sym b"] by (simp add: byte_sym_def)
  have "map_of (tk_str_to_byte (build_byte_maps tk)) s = Some b \<longleftrightarrow>
      (\<exists>e \<in> set byte_table. utf8_from_codepoint (snd e) = s \<and> fst e = b)"
    using map_of_built [OF strs] by (simp add: build_byte_maps_def case_prod_beta')
  also have "\<dots> \<longleftrightarrow> s = byte_sym b"
  proof
    assume "\<exists>e \<in> set byte_table. utf8_from_codepoint (snd e) = s \<and> fst e = b"
    then obtain e where e: "e \<in> set byte_table" "utf8_from_codepoint (snd e) = s" "fst e = b" by blast
    then have "map_of byte_table b = Some (snd e)"
      using map_of_is_SomeI [OF byte_table_ok(1), of b "snd e"] by (metis prod.collapse)
    then show "s = byte_sym b" using e(2) by (simp add: byte_sym_def)
  next
    assume "s = byte_sym b"
    then show "\<exists>e \<in> set byte_table. utf8_from_codepoint (snd e) = s \<and> fst e = b"
      by (intro bexI [OF _ byte_entry [of b]]) (simp add: byte_sym_def)
  qed
  finally show "map_of (tk_str_to_byte (build_byte_maps tk)) s = Some b \<longleftrightarrow> s = byte_sym b" .
qed

text \<open>A symbol is read as one character; a one-character symbol is the byte itself.\<close>

lemma and_high:
  fixes w :: byte
  shows "w AND NOT (mask k) = push_bit k (drop_bit k w)"
  by (rule bit_word_eqI) (auto simp: bit_simps)

lemma unat_drop_byte: "unat (drop_bit k w) = unat w div 2 ^ k" for w :: byte
  using unsigned_less [of w, where 'a = nat]
  by (simp only: unsigned_drop_bit_eq) (simp add: drop_bit_eq_div take_bit_eq_mod)

lemma byte_masks: "(0x80 :: byte) = NOT (mask 7)" "(0xE0 :: byte) = NOT (mask 5)"
  by code_simp+

lemma of_char_byte: "n < 256 \<Longrightarrow> (of_char (char_of n :: char) :: byte) = of_nat n"
  by (metis mod_less of_char_of of_nat_of_char)

lemma utf8_len_ascii:
  assumes "n < 128"
  shows "utf8_len (char_of (n :: nat)) = Some 1"
proof -
  have "unat (drop_bit 7 (of_nat n :: byte)) = 0"
    using assms by (simp add: unat_drop_byte unat_of_nat)
  then have "drop_bit 7 (of_nat n :: byte) = 0" by (simp only: unat_eq_0)
  then have "(of_nat n :: byte) AND 0x80 = 0" unfolding byte_masks and_high by simp
  then show ?thesis using assms by (simp add: utf8_len_def of_char_byte)
qed

lemma utf8_len_two:
  assumes "n < 32"
  shows "utf8_len (char_of (192 + n :: nat)) = Some 2"
proof -
  let ?w = "of_nat (192 + n) :: byte"
  have w: "unat ?w = 192 + n" using assms by (simp only: unat_of_nat) simp
  have "unat (drop_bit 7 ?w) = 1" "unat (drop_bit 5 ?w) = 6"
    unfolding unat_drop_byte w using assms by simp_all
  then have "drop_bit 7 ?w = 1" "drop_bit 5 ?w = 6"
    by (simp_all only: word_unat_eq_iff) simp_all
  then have "?w AND NOT (mask 7) = 0x80" "?w AND NOT (mask 5) = 0xC0"
    unfolding and_high by simp_all
  then have "?w AND 0x80 = 0x80" "?w AND 0xE0 = 0xC0"
    by (simp_all only: byte_masks [symmetric])
  moreover have "of_char (char_of (192 + n) :: char) = ?w"
    using assms by (simp only: of_char_byte)
  ultimately show ?thesis by (simp add: utf8_len_def del: of_nat_add)
qed

lemma byte_sym_shape:
  "(\<exists>c. byte_sym b = [c] \<and> utf8_len c = Some 1 \<and> c = char_of (unat b)) \<or> (\<exists>c d. byte_sym b = [c, d] \<and> utf8_len c = Some 2)"
proof -
  let ?cp = "the (map_of byte_table b)"
  have ok: "unat ?cp < 0x800" "unat ?cp = unat b \<or> 256 \<le> unat ?cp"
    using bspec [OF byte_table_ok(3) byte_entry [of b]] by (simp_all add: entry_ok_def)
  show ?thesis
  proof (cases "unat ?cp < 0x80")
    case True
    with ok show ?thesis by (auto simp: byte_sym_def utf8_one utf8_len_ascii)
  next
    case False
    have "unat ?cp div 64 < 32" using ok(1) by (simp add: less_mult_imp_div_less)
    with False ok show ?thesis by (simp add: byte_sym_def utf8_two utf8_len_two)
  qed
qed

end
