(* ===== verification/Bpe_Encode.thy ===== *)
theory Bpe_Encode
  imports Bpe_Roundtrip
begin

unbundle bit_operations_syntax

text \<open>
  Encoding and decoding are inverse: what a tokenizer must satisfy for it, the segmentation loop, and the
  tokenizers that \<^verbatim>\<open>load_from_vocab_and_merges\<close> builds.
\<close>

section \<open>Complete tokenizers\<close>

text \<open>
  The tables of a tokenizer that loses no text: the byte maps are the alphabet, every byte symbol and the result of every
  merge is a token, ids and tokens are inverse, and special tokens are tokens of ASCII characters.
\<close>

definition ascii :: "string \<Rightarrow> bool" where
  "ascii s \<longleftrightarrow> (\<forall>c \<in> set s. (of_char c :: nat) < 128)"

definition tokenizer_ok :: "ByteLevelBpeTokenizer \<Rightarrow> bool" where
  "tokenizer_ok tk \<longleftrightarrow>
     (\<forall>b. map_of (tk_byte_to_str tk) b = Some (byte_sym b)) \<and>
     (\<forall>s b. map_of (tk_str_to_byte tk) s = Some b \<longleftrightarrow> s = byte_sym b) \<and>
     (\<forall>b. map_of (tk_vocab tk) (byte_sym b) \<noteq> None) \<and>
     (\<forall>a b r. map_of (tk_merge_rank tk) (a, b) = Some r \<longrightarrow> map_of (tk_vocab tk) (a @ b) \<noteq> None) \<and>
     (\<forall>s i. map_of (tk_vocab tk) s = Some i \<longrightarrow> map_of (tk_id_to_token tk) i = Some s \<and> 0 \<le> i \<and> i < vocab_size tk) \<and>
     (\<forall>s i. (s, i) \<in> set (tk_special_token_to_id tk) \<longrightarrow> map_of (tk_vocab tk) s = Some i \<and> ascii s) \<and>
     (\<forall>s i. map_of (tk_id_to_special_token tk) i = Some s \<longrightarrow> map_of (tk_id_to_token tk) i = Some s)"

lemma tokenizer_okD:
  assumes "tokenizer_ok tk"
  shows "map_of (tk_byte_to_str tk) b = Some (byte_sym b)"
    and "map_of (tk_str_to_byte tk) s = Some b \<longleftrightarrow> s = byte_sym b"
    and "map_of (tk_vocab tk) (byte_sym b) \<noteq> None"
    and "map_of (tk_merge_rank tk) (x, y) = Some r \<Longrightarrow> map_of (tk_vocab tk) (x @ y) \<noteq> None"
    and "map_of (tk_vocab tk) s = Some i \<Longrightarrow> map_of (tk_id_to_token tk) i = Some s \<and> 0 \<le> i \<and> i < vocab_size tk"
    and "(s, i) \<in> set (tk_special_token_to_id tk) \<Longrightarrow> map_of (tk_vocab tk) s = Some i \<and> ascii s"
    and "map_of (tk_id_to_special_token tk) i = Some s \<Longrightarrow> map_of (tk_id_to_token tk) i = Some s"
  using assms unfolding tokenizer_ok_def by metis+

section \<open>What a list of ids spells\<close>

definition prepend :: "string \<Rightarrow> string result \<Rightarrow> string result" where
  "prepend s r = (case r of Inl e \<Rightarrow> Inl e | Inr s' \<Rightarrow> Inr (s @ s'))"

lemma prepend_simps [simp]:
  "prepend s (Inr s') = Inr (s @ s')" "prepend [] r = r" "prepend s (prepend s' r) = prepend (s @ s') r"
  by (auto simp: prepend_def split: sum.splits)

text \<open>\<open>stands_for tk st s\<close>: the symbol stream \<open>st\<close> decodes to \<open>s\<close> in front of every stream.\<close>

definition stands_for :: "ByteLevelBpeTokenizer \<Rightarrow> string \<Rightarrow> string \<Rightarrow> bool" where
  "stands_for tk st s \<longleftrightarrow> (\<forall>rest. decode_symbols tk False (st @ rest) = prepend s (decode_symbols tk False rest))"

lemma stands_for_Nil [simp]: "stands_for tk [] []"
  by (simp add: stands_for_def)

lemma stands_for_append: "stands_for tk a s \<Longrightarrow> stands_for tk b t \<Longrightarrow> stands_for tk (a @ b) (s @ t)"
  by (simp add: stands_for_def)

lemma stands_for_byte:
  assumes "tokenizer_ok tk"
  shows "stands_for tk (byte_sym b) [char_of (unat b)]"
proof -
  have m: "map_of (tk_str_to_byte tk) (byte_sym b) = Some b"
    using tokenizer_okD(2) [OF assms] by simp
  show ?thesis
    using byte_sym_shape [of b] m
    by (auto simp: stands_for_def decode_symbols.simps prepend_def split: sum.splits)
qed

text \<open>A special token is read back as it is: its characters are byte symbols of themselves or no symbols at all.\<close>

lemma stands_for_ascii_char:
  assumes "tokenizer_ok tk" "(of_char c :: nat) < 128"
  shows "stands_for tk [c] [c]"
proof -
  have len: "utf8_len c = Some 1"
    using utf8_len_ascii [OF assms(2)] by simp
  have b: "char_of (unat b) = c" if "map_of (tk_str_to_byte tk) [c] = Some b" for b
    using that byte_sym_shape [of b] tokenizer_okD(2) [OF assms(1)] by auto
  show ?thesis
    using len b
    by (auto simp: stands_for_def decode_symbols.simps prepend_def Let_def split: sum.splits option.splits)
qed

lemma stands_for_ascii: "tokenizer_ok tk \<Longrightarrow> ascii s \<Longrightarrow> stands_for tk s s"
proof (induction s)
  case (Cons c s)
  then have "stands_for tk [c] [c]" "stands_for tk s s"
    by (simp_all add: ascii_def stands_for_ascii_char)
  then show ?case using stands_for_append by fastforce
qed simp

text \<open>\<open>spells tk ids s\<close>: the ids are in the vocabulary's range and decode to \<open>s\<close>.\<close>

definition spells :: "ByteLevelBpeTokenizer \<Rightarrow> int list \<Rightarrow> string \<Rightarrow> bool" where
  "spells tk ids s \<longleftrightarrow> (\<forall>i \<in> set ids. 0 \<le> i \<and> i < vocab_size tk) \<and>
     (\<exists>st. symbol_stream tk False ids = Inr st \<and> stands_for tk st s)"

lemma symbol_stream_append:
  "symbol_stream tk skip xs = Inr a \<Longrightarrow> symbol_stream tk skip ys = Inr b \<Longrightarrow> symbol_stream tk skip (xs @ ys) = Inr (a @ b)"
proof (induction xs arbitrary: a)
  case (Cons x xs)
  then show ?case
    by (cases "map_of (tk_id_to_special_token tk) x"; cases "map_of (tk_id_to_token tk) x"; cases "symbol_stream tk skip xs") auto
qed simp

lemma spells_Nil [simp]: "spells tk [] []"
  by (simp add: spells_def)

lemma spells_append: "spells tk xs s \<Longrightarrow> spells tk ys t \<Longrightarrow> spells tk (xs @ ys) (s @ t)"
  unfolding spells_def by (auto dest: symbol_stream_append intro!: stands_for_append)

lemma symbol_stream_token:
  assumes "tokenizer_ok tk" "map_of (tk_vocab tk) s = Some i"
  shows "symbol_stream tk False [i] = Inr s"
  using tokenizer_okD(5) [OF assms] tokenizer_okD(7) [OF assms(1), of i]
  by (cases "map_of (tk_id_to_special_token tk) i") auto

lemma lookup_ids_stream:
  assumes "tokenizer_ok tk" "\<forall>s \<in> set ss. map_of (tk_vocab tk) s \<noteq> None"
  shows "\<exists>ids. lookup_ids tk ss = Inr ids \<and> symbol_stream tk False ids = Inr (concat ss) \<and>
    (\<forall>i \<in> set ids. 0 \<le> i \<and> i < vocab_size tk)"
  using assms(2)
proof (induction ss)
  case (Cons s ss)
  then obtain ids i where ids: "lookup_ids tk ss = Inr ids" "symbol_stream tk False ids = Inr (concat ss)"
      "\<forall>i \<in> set ids. 0 \<le> i \<and> i < vocab_size tk" and i: "map_of (tk_vocab tk) s = Some i"
    by auto
  have "symbol_stream tk False ([i] @ ids) = Inr (s @ concat ss)"
    by (rule symbol_stream_append [OF symbol_stream_token [OF assms(1) i] ids(2)])
  with ids i tokenizer_okD(5) [OF assms(1) i] show ?case by (intro exI [of _ "i # ids"]) simp
qed simp

section \<open>Segments\<close>

lemma byte_encode_segment_total:
  "tokenizer_ok tk \<Longrightarrow> byte_encode_segment dbg tk s = Some (map (\<lambda>c. byte_sym (of_char c)) s)"
  by (induction s) (simp_all add: tokenizer_okD(1) assert_that_def)

lemma stands_for_bytes:
  assumes "tokenizer_ok tk"
  shows "stands_for tk (concat (map (\<lambda>c. byte_sym (of_char c)) s)) s"
proof (induction s)
  case (Cons c s)
  have "char_of (unat (of_char c :: byte)) = c"
    using of_nat_of_char [of c, where 'a = byte, symmetric] by (simp add: unat_of_nat char_of_mod_256)
  then show ?case
    using stands_for_append [OF stands_for_byte [OF assms, of "of_char c"] Cons.IH] by simp
qed simp

lemma encode_normal_segment_spells:
  assumes "tokenizer_ok tk"
  shows "\<exists>ids. encode_normal_segment dbg tk s = Some (Inr ids) \<and> spells tk ids s"
proof -
  let ?syms = "map (\<lambda>c. byte_sym (of_char c)) s"
  have "\<forall>x \<in> set (apply_bpe (tk_merge_rank tk) ?syms). map_of (tk_vocab tk) x \<noteq> None"
    by (rule apply_bpe_closed) (use tokenizer_okD(3,4) [OF assms] in auto)
  from lookup_ids_stream [OF assms this] show ?thesis
    using stands_for_bytes [OF assms, of s]
    by (auto simp: encode_normal_segment_def byte_encode_segment_total [OF assms] spells_def concat_apply_bpe)
qed

lemma flush_bpe_spells:
  assumes "tokenizer_ok tk" "spells tk ids (take b inp)" "b \<le> e"
  obtains ids' where "flush_bpe dbg tk inp b e ids = Some (Inr ids')" "spells tk ids' (take e inp)"
proof -
  obtain seg where seg: "encode_normal_segment dbg tk (take (e - b) (drop b inp)) = Some (Inr seg)"
      "spells tk seg (take (e - b) (drop b inp))"
    using encode_normal_segment_spells [OF assms(1)] by blast
  have "take b inp @ take (e - b) (drop b inp) = take e inp"
    using assms(3) by (metis le_add_diff_inverse take_add)
  then have "spells tk (ids @ seg) (take e inp)" using spells_append [OF assms(2) seg(2)] by simp
  show ?thesis
  proof (cases "e \<le> b")
    case True
    then show ?thesis using that [of ids] assms(2,3) by (simp add: flush_bpe_def)
  next
    case False
    then show ?thesis using that [of "ids @ seg"] seg(1) \<open>spells tk (ids @ seg) (take e inp)\<close> by (simp add: flush_bpe_def)
  qed
qed

section \<open>The segmentation loop\<close>

lemma skip_while_le: "pos \<le> length inp \<Longrightarrow> pos \<le> skip_while p inp pos \<and> skip_while p inp pos \<le> length inp"
  using length_takeWhile_le [of p "drop pos inp"] by (simp add: skip_while_def)

lemma special_spells:
  assumes "tokenizer_ok tk" "spells tk ids (take pos inp)" "try_match_special tk inp pos = Some (tok, i)"
  shows "pos + length tok \<le> length inp \<and> spells tk (ids @ [i]) (take (pos + length tok) inp)"
proof -
  have at: "(tok, i) \<in> set (tk_special_token_to_id tk)" "starts_with_at inp pos tok"
    using try_match_SomeD [OF assms(3)] by (simp_all add: special_at_def)
  then have le: "pos + length tok \<le> length inp" and tok: "take (length tok) (drop pos inp) = tok"
    by (auto simp: starts_with_at_def split: if_splits)
  have i: "map_of (tk_vocab tk) tok = Some i" "ascii tok" using tokenizer_okD(6) [OF assms(1) at(1)] by simp_all
  have "spells tk [i] tok"
    using symbol_stream_token [OF assms(1) i(1)] stands_for_ascii [OF assms(1) i(2)] tokenizer_okD(5) [OF assms(1) i(1)]
    by (simp add: spells_def)
  from spells_append [OF assms(2) this] le tok show ?thesis by (simp add: take_add)
qed

lemma encode_spaces:
  assumes "tokenizer_ok tk" "pos < length inp" "try_match_special tk inp pos = None" "\<not> is_newline (inp ! pos)" "is_space (inp ! pos)"
    and f: "flush_bpe dbg tk inp seg pos ids = Some (Inr ids1)" "spells tk ids1 (take pos inp)"
    and s: "pos < skip_while is_space inp pos" (is "_ < ?s")
  shows "\<exists>seg' ids'. encode_loop dbg tk inp pos seg ids = encode_loop dbg tk inp ?s seg' ids' \<and>
    seg' \<le> ?s \<and> spells tk ids' (take seg' inp)"
proof -
  define split_at where "split_at = (if \<not> has_next_loop tk inp [?s..<length inp] then ?s else ?s - 1)"
  have split: "pos \<le> split_at" "split_at \<le> ?s" using s by (auto simp: split_at_def)
  obtain ids2 where g: "flush_bpe dbg tk inp pos split_at ids1 = Some (Inr ids2)" "spells tk ids2 (take split_at inp)"
    using flush_bpe_spells [OF assms(1) f(2) split(1)] .
  have "encode_loop dbg tk inp pos seg ids = encode_loop dbg tk inp ?s split_at ids2"
  proof (cases "has_next_loop tk inp [?s..<length inp]")
    case False
    then show ?thesis using assms(2-5) f(1) g(1) by (simp add: encode_loop.simps [of dbg tk inp pos seg ids] Let_def split_at_def)
  next
    case True
    then have at: "split_at = pos + (?s - pos) - 1" using s by (simp add: split_at_def)
    show ?thesis
    proof (cases "?s - pos = 1")
      case one: True
      with at have "split_at = pos" by simp
      moreover from this have "ids2 = ids1" using g(1) by (simp add: flush_bpe_def)
      ultimately show ?thesis using True one assms(2-5) f(1) by (simp add: encode_loop.simps [of dbg tk inp pos seg ids] Let_def)
    next
      case False
      then show ?thesis using True assms(2-5) f(1) g(1) by (simp add: encode_loop.simps [of dbg tk inp pos seg ids] Let_def at)
    qed
  qed
  then show ?thesis using split(2) g(2) by blast
qed

text \<open>One round: the loop continues behind \<open>pos\<close>, with everything before the new segment spelled out.\<close>

lemma encode_round:
  assumes "tokenizer_ok tk" "pos < length inp" "seg \<le> pos" "spells tk ids (take seg inp)"
  shows "\<exists>pos' seg' ids'. encode_loop dbg tk inp pos seg ids = encode_loop dbg tk inp pos' seg' ids' \<and>
    pos < pos' \<and> pos' \<le> length inp \<and> seg' \<le> pos' \<and> spells tk ids' (take seg' inp)"
proof -
  obtain ids1 where f: "flush_bpe dbg tk inp seg pos ids = Some (Inr ids1)" "spells tk ids1 (take pos inp)"
    using flush_bpe_spells [OF assms(1,4,3)] .
  note step = encode_loop.simps [of dbg tk inp pos seg ids]
  consider (special) tok i where "try_match_special tk inp pos = Some (tok, i)"
    | (newline) "try_match_special tk inp pos = None" "is_newline (inp ! pos)"
    | (space) "try_match_special tk inp pos = None" "\<not> is_newline (inp ! pos)" "is_space (inp ! pos)"
    | (word) "try_match_special tk inp pos = None" "\<not> is_newline (inp ! pos)" "\<not> is_space (inp ! pos)"
    by (cases "try_match_special tk inp pos") auto
  then show ?thesis
  proof cases
    case special
    from special_spells [OF assms(1) f(2) special] try_match_nonempty [OF special] show ?thesis
      using assms(2) special f(1) by (intro exI [of _ "pos + length tok"] exI [of _ "ids1 @ [i]"]) (simp add: step)
  next
    case newline
    let ?a = "skip_while is_newline inp pos"
    have a: "pos < ?a" "?a \<le> length inp"
      using skip_while_greater [where p = is_newline, OF assms(2) newline(2)] skip_while_le assms(2) by (simp_all add: less_imp_le)
    obtain ids2 where "flush_bpe dbg tk inp pos ?a ids1 = Some (Inr ids2)" "spells tk ids2 (take ?a inp)"
      using flush_bpe_spells [OF assms(1) f(2)] a(1) less_imp_le by metis
    then show ?thesis
      using a assms(2) newline f(1) by (intro exI [of _ ?a] exI [of _ ids2]) (simp add: step Let_def)
  next
    case space
    have s: "pos < skip_while is_space inp pos" "skip_while is_space inp pos \<le> length inp"
      using skip_while_greater [where p = is_space, OF assms(2) space(3)] skip_while_le assms(2) by (simp_all add: less_imp_le)
    from encode_spaces [OF assms(1,2) space f s(1)] show ?thesis using s by blast
  next
    case word
    then show ?thesis
      using assms(2-4) by (intro exI [of _ "pos + 1"] exI [of _ seg] exI [of _ ids]) (simp add: step)
  qed
qed

lemma encode_loop_spells:
  assumes "tokenizer_ok tk" "pos \<le> length inp" "seg \<le> pos" "spells tk ids (take seg inp)"
  shows "\<exists>ids'. encode_loop dbg tk inp pos seg ids = Some (Inr ids') \<and> spells tk ids' inp"
  using assms(2-4)
proof (induction "length inp - pos" arbitrary: pos seg ids rule: less_induct)
  case less
  show ?case
  proof (cases "pos < length inp")
    case True
    from encode_round [OF assms(1) True less.prems(2,3)] obtain pos' seg' ids' where
      r: "encode_loop dbg tk inp pos seg ids = encode_loop dbg tk inp pos' seg' ids'"
        "pos < pos'" "pos' \<le> length inp" "seg' \<le> pos'" "spells tk ids' (take seg' inp)" by blast
    have "length inp - pos' < length inp - pos" using r(2) True by simp
    from less.hyps [OF this r(3-5)] show ?thesis unfolding r(1) .
  next
    case False
    have "seg \<le> length inp" using less.prems by simp
    obtain ids' where "flush_bpe dbg tk inp seg (length inp) ids = Some (Inr ids')" "spells tk ids' (take (length inp) inp)"
      using flush_bpe_spells [OF assms(1) less.prems(3) \<open>seg \<le> length inp\<close>] .
    then show ?thesis using False by (simp add: encode_loop.simps)
  qed
qed

lemma tokenizer_ok_round_trip:
  assumes "tokenizer_ok tk"
  shows "\<exists>ids. encode dbg tk s = Some (Inr ids) \<and> decode tk ids False = Inr s \<and> (\<forall>i \<in> set ids. 0 \<le> i \<and> i < vocab_size tk)"
proof -
  obtain i where i: "map_of (tk_vocab tk) (byte_sym 0) = Some i" using tokenizer_okD(3) [OF assms] by fastforce
  then have ne: "tk_vocab tk \<noteq> []" "tk_id_to_token tk \<noteq> []" using tokenizer_okD(5) [OF assms i] by auto
  obtain ids where ids: "encode_loop dbg tk s 0 0 [] = Some (Inr ids)" "spells tk ids s"
    using encode_loop_spells [OF assms, of 0 s 0 "[]" dbg] by auto
  then obtain st where st: "symbol_stream tk False ids = Inr st" "stands_for tk st s" and
      range: "\<forall>i \<in> set ids. 0 \<le> i \<and> i < vocab_size tk"
    unfolding spells_def by blast
  have "decode_symbols tk False st = Inr s"
    using st(2) [unfolded stands_for_def, rule_format, of "[]"] by simp
  then show ?thesis using ids(1) st(1) range ne by (simp add: encode_def decode_def)
qed

section \<open>Loaded tokenizers\<close>

definition special_type :: "int list \<Rightarrow> nat \<Rightarrow> bool" where
  "special_type types k \<longleftrightarrow> k < length types \<and> 3 \<le> types ! k"

text \<open>The tables after the first tokens: position and id are the same.\<close>

definition tables_for :: "ByteLevelBpeTokenizer \<Rightarrow> string list \<Rightarrow> int list \<Rightarrow> bool" where
  "tables_for tk ts types \<longleftrightarrow>
     (\<forall>s i. map_of (tk_vocab tk) s = Some i \<longleftrightarrow> (\<exists>k < length ts. ts ! k = s \<and> i = int k)) \<and>
     (\<forall>s i. map_of (tk_id_to_token tk) i = Some s \<longleftrightarrow> (\<exists>k < length ts. ts ! k = s \<and> i = int k)) \<and>
     (\<forall>s i. (s, i) \<in> set (tk_special_token_to_id tk) \<longrightarrow> (\<exists>k < length ts. ts ! k = s \<and> i = int k \<and> special_type types k)) \<and>
     (\<forall>s i. map_of (tk_id_to_special_token tk) i = Some s \<longrightarrow> (\<exists>k < length ts. ts ! k = s \<and> i = int k)) \<and>
     tk_max_token_id tk = int (length ts) - 1"

lemma load_tokens_append:
  "load_tokens (a @ b) types i tk = load_tokens b types (i + length a) (load_tokens a types i tk)"
  by (induction a arbitrary: i tk) (simp_all add: Let_def)

lemma int_cast_id: "0 \<le> x \<Longrightarrow> x \<le> INT32_MAX \<Longrightarrow> int_cast x = x"
  by (simp add: int_cast_def INT32_MAX_def signed_of_int signed_take_bit_int_eq_self)

lemma set_update: "e \<in> set (AList.update k v al) \<Longrightarrow> e = (k, v) \<or> e \<in> set al"
  by (induction al) (auto split: if_splits)

lemma ex_less_Suc_nth:
  "(\<exists>k < length (ts @ [t]). (ts @ [t]) ! k = s \<and> P k) \<longleftrightarrow> (\<exists>k < length ts. ts ! k = s \<and> P k) \<or> (t = s \<and> P (length ts))"
proof -
  have "(\<exists>k < length (ts @ [t]). (ts @ [t]) ! k = s \<and> P k) \<longleftrightarrow>
      ((ts @ [t]) ! length ts = s \<and> P (length ts)) \<or> (\<exists>k < length ts. (ts @ [t]) ! k = s \<and> P k)"
    by (simp only: length_append_singleton Ex_less_Suc)
  moreover have "(\<exists>k < length ts. (ts @ [t]) ! k = s \<and> P k) \<longleftrightarrow> (\<exists>k < length ts. ts ! k = s \<and> P k)"
    by (rule ex_cong1) (simp add: nth_append cong: conj_cong)
  ultimately show ?thesis by (simp add: disj_commute)
qed

lemma load_token_tables:
  assumes "int n \<le> INT32_MAX"
  shows "tk_vocab (load_tokens [t] types n tk) = AList.update t (int n) (tk_vocab tk)"
    "tk_id_to_token (load_tokens [t] types n tk) = AList.update (int n) t (tk_id_to_token tk)"
    "tk_max_token_id (load_tokens [t] types n tk) = max (tk_max_token_id tk) (int n)"
    "tk_special_token_to_id (load_tokens [t] types n tk) =
       (if special_type types n then AList.update t (int n) (tk_special_token_to_id tk) else tk_special_token_to_id tk)"
    "tk_id_to_special_token (load_tokens [t] types n tk) =
       (if special_type types n then AList.update (int n) t (tk_id_to_special_token tk) else tk_id_to_special_token tk)"
  using assms by (simp_all add: int_cast_id add_token_def add_special_def special_type_def Let_def)

lemma tables_for_snoc:
  assumes "tables_for tk ts types" "t \<notin> set ts" "int (length ts) \<le> INT32_MAX"
  shows "tables_for (load_tokens [t] types (length ts) tk) (ts @ [t]) types"
proof -
  note new = load_token_tables [OF assms(3), of t types tk]
  note old = assms(1) [unfolded tables_for_def]
  have t: "ts ! k \<noteq> t" if "k < length ts" for k using assms(2) that by auto
  have "map_of (AList.update t (int (length ts)) (tk_vocab tk)) s = Some i \<longleftrightarrow>
      (\<exists>k < length ts. ts ! k = s \<and> i = int k) \<or> (t = s \<and> i = int (length ts))" for s i
    using old t by (auto simp: update_conv')
  moreover have "map_of (AList.update (int (length ts)) t (tk_id_to_token tk)) i = Some s \<longleftrightarrow>
      (\<exists>k < length ts. ts ! k = s \<and> i = int k) \<or> (t = s \<and> i = int (length ts))" for s i
    using old by (auto simp: update_conv')
  moreover have "(\<exists>k < length ts. ts ! k = s \<and> i = int k \<and> special_type types k) \<or> (t = s \<and> i = int (length ts) \<and> special_type types (length ts))"
    if "(s, i) \<in> set (tk_special_token_to_id (load_tokens [t] types (length ts) tk))" for s i
    using that old unfolding new by (auto split: if_splits dest!: set_update)
  moreover have "(\<exists>k < length ts. ts ! k = s \<and> i = int k) \<or> (t = s \<and> i = int (length ts))"
    if "map_of (tk_id_to_special_token (load_tokens [t] types (length ts) tk)) i = Some s" for s i
    using that old unfolding new by (auto simp: update_conv' split: if_splits)
  ultimately show ?thesis
    using old unfolding tables_for_def ex_less_Suc_nth new(1-3) by simp
qed

lemma load_tokens_tables:
  assumes "distinct ts" "int (length ts) \<le> INT32_MAX"
  shows "tables_for (load_tokens ts types 0 tokenizer_new) ts types"
  using assms
proof (induction ts rule: rev_induct)
  case Nil
  show ?case by (simp add: tables_for_def tokenizer_new_def)
next
  case (snoc t ts)
  then show ?case using tables_for_snoc by (simp add: load_tokens_append)
qed

lemma load_merges_keys:
  "map_of (load_merges ms rank m) p = Some r \<Longrightarrow> map_of m p \<noteq> None \<or> (\<exists>s \<in> set ms. split_space s = Some p)"
  by (induction ms rank m rule: load_merges.induct)
    (auto simp: update_conv' split: option.splits if_splits)

lemma load_tokens_frame:
  "tk_merge_rank (load_tokens ts types i tk) = tk_merge_rank tk" 
  by (induction ts arbitrary: i tk) (simp_all add: Let_def add_token_def add_special_def)

lemma load_tokenizer_ok:
  assumes "load_from_vocab_and_merges tokens merges token_types eos pad = Inr tk"
    and "distinct tokens" "int (length tokens) \<le> INT32_MAX" "\<forall>b. byte_sym b \<in> set tokens"
    and "\<forall>m a b. m \<in> set merges \<longrightarrow> split_space m = Some (a, b) \<longrightarrow> a @ b \<in> set tokens"
    and "\<forall>k. k < length tokens \<longrightarrow> special_type token_types k \<longrightarrow> ascii (tokens ! k)"
  shows "tokenizer_ok tk"
proof -
  let ?tk = "load_tokens tokens token_types 0 tokenizer_new"
  have tk: "tk = build_byte_maps (?tk\<lparr>tk_merge_rank := load_merges merges 0 [], tk_eos_token_id := eos, tk_pad_token_id := pad\<rparr>)"
    using assms(1) by (simp add: load_from_vocab_and_merges_def Let_def split: if_splits)
  have maps: "map_of (tk_byte_to_str tk) b = Some (byte_sym b)" "map_of (tk_str_to_byte tk) x = Some b \<longleftrightarrow> x = byte_sym b" for b x
    unfolding tk by (rule byte_maps)+
  have frame: "tk_merge_rank tk = load_merges merges 0 []" "tables_for tk tokens token_types"
    using load_tokens_tables [OF assms(2,3)] by (simp_all add: tk build_byte_maps_def tables_for_def)
  note tables = frame(2) [unfolded tables_for_def]
  have in_vocab: "map_of (tk_vocab tk) x \<noteq> None" if "x \<in> set tokens" for x
    using that tables by (metis in_set_conv_nth not_Some_eq)
  have merged: "map_of (tk_vocab tk) (a @ b) \<noteq> None" if "map_of (tk_merge_rank tk) (a, b) = Some r" for a b r
    using load_merges_keys [of merges 0 "[]" "(a, b)" r] that assms(5) in_vocab frame(1) by auto
  show ?thesis
    unfolding tokenizer_ok_def
  proof (intro conjI allI impI)
    fix x i assume x: "map_of (tk_vocab tk) x = Some i"
    then obtain k where "k < length tokens" "tokens ! k = x" "i = int k" using tables by blast
    then show "map_of (tk_id_to_token tk) i = Some x" "0 \<le> i" "i < vocab_size tk"
      using tables by (auto simp: vocab_size_def)
  next
    fix x i assume "(x, i) \<in> set (tk_special_token_to_id tk)"
    then obtain k where "k < length tokens" "tokens ! k = x" "i = int k" "special_type token_types k" using tables by blast
    then show "map_of (tk_vocab tk) x = Some i" "ascii x" using tables assms(6) by auto
  qed (use maps in_vocab assms(4) merged tables in auto)
qed

text \<open>
  C38. Encoding loses nothing. For a vocabulary without repeated tokens that has the 256 byte symbols and the result of every
  merge, and whose special tokens are ASCII, every byte string, well-formed UTF-8 or not, is encoded without
  failing an assertion or returning an error, into ids of the vocabulary, and decoding them gives exactly that string.
\<close>

theorem tokenizer_round_trip:
  assumes "load_from_vocab_and_merges tokens merges token_types eos pad = Inr tk"
    and "distinct tokens" "int (length tokens) \<le> INT32_MAX" "\<forall>b. byte_sym b \<in> set tokens"
    and "\<forall>m a b. m \<in> set merges \<longrightarrow> split_space m = Some (a, b) \<longrightarrow> a @ b \<in> set tokens"
    and "\<forall>k. k < length tokens \<longrightarrow> special_type token_types k \<longrightarrow> ascii (tokens ! k)"
  shows "\<exists>ids. encode dbg tk s = Some (Inr ids) \<and> decode tk ids False = Inr s \<and> (\<forall>i \<in> set ids. 0 \<le> i \<and> i < vocab_size tk)"
  using load_tokenizer_ok [OF assms] by (rule tokenizer_ok_round_trip)

text \<open>The byte alphabet with one merge and one special token.\<close>

definition small_tokens :: "string list" where
  "small_tokens = map (\<lambda>n. byte_sym (of_nat n)) [0..<256] @ [''lo'', ''<|im_end|>'']"

lemma byte_sym_inj: "byte_sym a = byte_sym b \<Longrightarrow> a = b"
  using byte_maps(2) [of undefined "byte_sym a" a] byte_maps(2) [of undefined "byte_sym a" b] by simp

lemma byte_sym_not_lo: "byte_sym b \<noteq> ''lo''" "byte_sym b \<noteq> ''<|im_end|>''"
proof -
  have "utf8_len (CHR ''l'') = Some 1" by code_simp
  then show "byte_sym b \<noteq> ''lo''" using byte_sym_shape [of b] by auto
  show "byte_sym b \<noteq> ''<|im_end|>''" using byte_sym_shape [of b] by auto
qed

lemma small_tokens_ok:
  "distinct small_tokens" "int (length small_tokens) \<le> INT32_MAX" "byte_sym b \<in> set small_tokens" "length small_tokens = 258"
proof -
  have "inj_on (\<lambda>n. byte_sym (of_nat n)) (set [0..<256])"
    by (rule inj_onI) (auto dest!: byte_sym_inj simp: word_unat_eq_iff unat_of_nat)
  then have "distinct (map (\<lambda>n. byte_sym (of_nat n)) [0..<256])" by (simp add: distinct_map)
  then show "distinct small_tokens"
    unfolding small_tokens_def using byte_sym_not_lo byte_sym_not_lo [THEN not_sym] by (auto simp del: upt_rec_numeral)
  show "length small_tokens = 258" "int (length small_tokens) \<le> INT32_MAX"
    by (simp_all only: small_tokens_def length_append length_map length_upt INT32_MAX_def) simp_all
  have "b = of_nat (unat b)" "unat b < 256" using unsigned_less [of b, where 'a = nat] by simp_all
  then have "byte_sym b \<in> (\<lambda>n. byte_sym (of_nat n)) ` {0..<256}" by (metis atLeast0LessThan imageI lessThan_iff)
  then show "byte_sym b \<in> set small_tokens" by (simp only: small_tokens_def set_append set_map set_upt) simp
qed

theorem tokenizer_round_trip_witness:
  "\<exists>tk ids. load_from_vocab_and_merges small_tokens [''l o''] (replicate 257 1 @ [3]) 257 257 = Inr tk \<and>
    encode True tk ''low  hello<|im_end|>'' = Some (Inr ids) \<and> decode tk ids False = Inr ''low  hello<|im_end|>''"
proof -
  let ?types = "replicate 257 1 @ [3] :: int list"
  have ne: "tk_vocab (load_tokens small_tokens ?types 0 tokenizer_new) \<noteq> []"
  proof
    assume "tk_vocab (load_tokens small_tokens ?types 0 tokenizer_new) = []"
    with load_tokens_tables [OF small_tokens_ok(1,2), of ?types] have "\<not> 0 < length small_tokens"
      unfolding tables_for_def by fastforce
    then show False using small_tokens_ok(4) by simp
  qed
  then obtain tk where tk: "load_from_vocab_and_merges small_tokens [''l o''] ?types 257 257 = Inr tk"
    by (simp add: load_from_vocab_and_merges_def build_byte_maps_def Let_def)
  have "a @ b \<in> set small_tokens" if "m \<in> set [''l o'']" "split_space m = Some (a, b)" for m a b
    using that by (auto simp: small_tokens_def)
  moreover have "ascii (small_tokens ! k)" if "k < length small_tokens" "special_type ?types k" for k
  proof -
    have "k = 257"
      using that by (auto simp: special_type_def nth_append small_tokens_ok(4) split: if_splits)
    then have "small_tokens ! k = ''<|im_end|>''"
      by (simp add: small_tokens_def nth_append del: upt_rec_numeral)
    then show ?thesis by (simp add: ascii_def)
  qed
  ultimately show ?thesis
    using tokenizer_round_trip [OF tk small_tokens_ok(1,2), of True "''low  hello<|im_end|>''"] small_tokens_ok(3) tk by blast
qed

end
