(* ===== verification/Spec2Isabelle.thy ===== *)
theory Spec2Isabelle
  imports Prelude Block_Pool Prefix_Hash Block_Cache Kv_Blocks Base_Types Scheduler_State Scheduler_Ops Scheduler_Inv Scheduler_Build Scheduler_Admit Scheduler_Retire Scheduler_Cleanup Engine_Core Engine_Safety Effects Device Tensors Block_Storage Float_Bits Model_Config State_Pool State_Cache Batch_Translate Translate_Spec Worker_Ops Worker_Safety Gguf_Reader Gguf_Safety Gguf_Format Gguf_Config Json_Value Bpe_Tokenizer Bpe_Correct Bpe_Roundtrip Bpe_Encode
begin

text \<open>
  Verification of ccInfer, an inference server for language models on CUDA devices
  (\<^verbatim>\<open>src/src\<close>). A request travels through these parts, each modelled by the theories named with it.

  \<^item> \<^bold>\<open>Entry.\<close> The HTTP server (\<^verbatim>\<open>http/\<close>) tokenizes the messages of a request and submits it to the scheduler.
    The tokenizer (\<^verbatim>\<open>tokenizer/byte_level_bpe_tokenizer.cpp\<close>) is modelled by \<^verbatim>\<open>Bpe_Tokenizer\<close>, with its
    correctness in \<^verbatim>\<open>Bpe_Correct\<close>, \<^verbatim>\<open>Bpe_Roundtrip\<close> (the byte alphabet) and \<^verbatim>\<open>Bpe_Encode\<close>; values of the JSON library by \<^verbatim>\<open>Json_Value\<close>.
  \<^item> \<^bold>\<open>Scheduling.\<close> The scheduler (\<^verbatim>\<open>scheduler/scheduler.cpp\<close>) keeps the queues, admits requests, builds
    batches and retires results; the engine core (\<^verbatim>\<open>engine/engine_core.cpp\<close>) drives it in a loop with several
    batches in flight. \<^verbatim>\<open>Base_Types\<close> and \<^verbatim>\<open>Scheduler_State\<close> have the data (\<^verbatim>\<open>base/types.h\<close>,
    \<^verbatim>\<open>config/engine_config.cpp\<close>, \<^verbatim>\<open>scheduler/scheduler.h\<close>), \<^verbatim>\<open>Scheduler_Ops\<close> the operations,
    \<^verbatim>\<open>Scheduler_Inv\<close> the invariant, \<^verbatim>\<open>Scheduler_Build\<close>, \<^verbatim>\<open>Scheduler_Admit\<close>, \<^verbatim>\<open>Scheduler_Retire\<close> and
    \<^verbatim>\<open>Scheduler_Cleanup\<close> its preservation; \<^verbatim>\<open>Engine_Core\<close> is the loop cut at its suspension points, a step relation
    in which submissions, cancellations, shutdown and the answers of the executor interleave, and
    \<^verbatim>\<open>Engine_Safety\<close> has the theorems about every reachable state.
  \<^item> \<^bold>\<open>KV blocks.\<close> The block pool (\<^verbatim>\<open>block/block_pool.cpp\<close>, \<^verbatim>\<open>Block_Pool\<close>), the chained prefix hashes
    (\<^verbatim>\<open>cache/prefix_cache.cpp\<close>, \<^verbatim>\<open>Prefix_Hash\<close>), the block cache (\<^verbatim>\<open>cache/block_cache.cpp\<close>, \<^verbatim>\<open>Block_Cache\<close>) and
    the allocation and release of the blocks of a request (\<^verbatim>\<open>Kv_Blocks\<close>).
  \<^item> \<^bold>\<open>Execution.\<close> The worker thread (\<^verbatim>\<open>worker/worker.cpp\<close>, \<^verbatim>\<open>executor/\<close>) binds late tokens, translates a batch
    into device arrays, runs the model and answers: \<^verbatim>\<open>Batch_Translate\<close> and \<^verbatim>\<open>Translate_Spec\<close>,
    \<^verbatim>\<open>Worker_Ops\<close> (with \<^verbatim>\<open>worker/model_runner.h\<close>) and \<^verbatim>\<open>Worker_Safety\<close>.
  \<^item> \<^bold>\<open>Device memory.\<close> The CUDA backend (\<^verbatim>\<open>backend/cuda/\<close>, \<^verbatim>\<open>facade/ops.h\<close>: \<^verbatim>\<open>Device\<close>), tensors (\<^verbatim>\<open>runtime/\<close>:
    \<^verbatim>\<open>Tensors\<close>), the KV storage (\<^verbatim>\<open>block/block_storage.cpp\<close>: \<^verbatim>\<open>Block_Storage\<close>), the recurrent states (\<^verbatim>\<open>state/\<close>:
    \<^verbatim>\<open>State_Pool\<close>) and their snapshots (\<^verbatim>\<open>cache/state_cache.cpp\<close>: \<^verbatim>\<open>State_Cache\<close>).
  \<^item> \<^bold>\<open>Models.\<close> The model configuration, layer numbering and registry (\<^verbatim>\<open>config/model_config.cpp\<close>,
    \<^verbatim>\<open>model/\<close>: \<^verbatim>\<open>Model_Config\<close>), the number formats (\<^verbatim>\<open>quant/q8_0/\<close>: \<^verbatim>\<open>Float_Bits\<close>), and GGUF checkpoints
    (\<^verbatim>\<open>checkpoint/gguf/\<close>): \<^verbatim>\<open>Gguf_Reader\<close> the reader, \<^verbatim>\<open>Gguf_Safety\<close> its bounds, \<^verbatim>\<open>Gguf_Format\<close> the round trip
    with a printer of the format, \<^verbatim>\<open>Gguf_Config\<close> the configuration loader and the weight source.

  \<^bold>\<open>Conventions.\<close> \<^verbatim>\<open>Prelude\<close> has the error codes of \<^verbatim>\<open>base/error.h\<close>; a \<^verbatim>\<open>Result\<close> is a sum. A computation that can
  fail an assertion or leave defined behaviour is an option, \<^term>\<open>None\<close> the failure: an index out of range, a
  signed overflow, a dereferenced end iterator, an exception nobody catches. The parameter \<open>dbg\<close> says whether
  assertions are compiled in. \<^verbatim>\<open>Effects\<close> adds a state: an action returns a result and a new state, and an early
  return keeps the changes made before it. Requests shared by pointer live in an explicit store; \<^verbatim>\<open>int\<close> is
  \<^typ>\<open>int\<close> with the overflow conditions written out, \<^verbatim>\<open>size_t\<close> and fixed-width unsigned integers are words or numbers
  with the wrap-around written out, floats are their bit patterns.

  \<^bold>\<open>What is a parameter.\<close> The operator library \<^verbatim>\<open>ccop\<close> (\<^verbatim>\<open>Ccop\<close>, with \<^verbatim>\<open>ccop_ok\<close> for its documented sizes), the
  answers of CUDA, cuBLAS and the kernels (functions of the call number in \<^verbatim>\<open>Device\<close>), the model's
  \<^verbatim>\<open>forward\<close>, the executor seen from the engine (any response that fits the batch), the JSON parser, the system
  calls of the readers, the floating-point arithmetic that is not bit manipulation.

  \<^bold>\<open>What the theorems show.\<close>
  \<^item> Engine: from a validated configuration no reachable step aborts or overflows and the inner loops end; items
    in flight own live blocks; reservations are exactly the items in flight; load and generation limits hold.
  \<^item> Blocks: the pool refines a queue with reference counts (locale \<^verbatim>\<open>ref_pool\<close>), allocation hands out fresh
    blocks and release frees exactly what it should (locale \<^verbatim>\<open>kv_store\<close>), lookups return the longest cached
    prefix, eviction is least recently used, the hash chain equals its fold and can be resumed.
  \<^item> Worker: it posts one response per batch, in order, of the shape the engine's step relation admits, so the
    two models compose; the translated arrays are the concatenation of the items, and every slot they name is in
    a referenced block; a stopped worker drains its queue.
  \<^item> Memory: tensors and KV layers have exact, disjoint, in-range extents; states are exclusive and cleared;
    a restored snapshot is byte for byte the snapshotted state.
  \<^item> Models and files: conversions between float formats, layer numbering, the GGUF reader's totality, memory
    safety and round trip, the tokenizer's merging, matching and round trip.
  \<^item> Defects: some theorems and lemmas prove behaviour the code should not have (a failed allocation loses blocks, an
    idle prefix hit fails an assertion, prefix hashes collide, a NaN becomes zero, file offsets wrap).

  \<^bold>\<open>Loops and fuel.\<close> Structural loops are \<^verbatim>\<open>fun\<close>; loops whose end needs an argument are \<^verbatim>\<open>function\<close> with a
  measure (merging, encoding, decoding) or \<^verbatim>\<open>partial_function\<close> with a lemma that they return (eviction,
  normalisation of a half). The recursion depth of the GGUF value parser is the stack it is given: one frame per
  twelve bytes of the file is proved to be enough.

  \<^bold>\<open>Not modelled.\<close> The HTTP server (\<^verbatim>\<open>http/\<close>), the command line and start-up (\<^verbatim>\<open>main.cpp\<close>), the choice of a checkpoint by path
  and the Hugging Face readers (\<^verbatim>\<open>checkpoint/checkpoint.cpp\<close>, \<^verbatim>\<open>checkpoint/huggingface/\<close>), the weights and the
  forward passes of the models (\<^verbatim>\<open>model/qwen3/\<close>, \<^verbatim>\<open>model/qwen35/qwen35_weights.cpp\<close> but for its rounding,
  \<^verbatim>\<open>model/rope/\<close>): they are input and output, calls of the JSON library, or sequences of kernel calls whose effect
  is in the operator library. Logging (\<^verbatim>\<open>facade/log.h\<close>) and the tests have no model. The mutex of the block
  pool, the atomics and the memory ordering are not modelled: the scheduler's state is owned by one thread, and the
  worker's queue is modelled at the granularity of its locked sections.
\<close>

end
